(* ===== verification/Prelude.thy ===== *)
theory Prelude
  imports Main "HOL-Library.Sublist" "HOL-Library.Multiset"
begin

text \<open>
  Shared material of the development: results (\<open>Inl\<close> is Rust's \<open>Err\<close>, \<open>Inr\<close> its \<open>Ok\<close>)
  with the \<open>?\<close> operator as \<open>res_bind\<close>, the repeated-element test that the request validators
  share, and list facts used by several components. The collection \<open>result_simps\<close> unfolds the
  result combinators; \<open>result_elims\<close> are the inversion rules for a successful chain.
\<close>

named_theorems result_simps \<open>unfolding of the result combinators\<close>
named_theorems text_simps \<open>evaluation of the string and byte predicates\<close>
named_theorems effect_simps \<open>evaluation of effectful programs\<close>

section \<open>Results\<close>

fun res_bind :: "'e + 'a \<Rightarrow> ('a \<Rightarrow> 'e + 'b) \<Rightarrow> 'e + 'b" where
  "res_bind (Inl e) f = Inl e"
| "res_bind (Inr a) f = f a"

fun map_err :: "('e \<Rightarrow> 'f) \<Rightarrow> 'e + 'a \<Rightarrow> 'f + 'a" where
  "map_err f (Inl e) = Inl (f e)"
| "map_err f (Inr a) = Inr a"

fun map_ok :: "('a \<Rightarrow> 'b) \<Rightarrow> 'e + 'a \<Rightarrow> 'e + 'b" where
  "map_ok f (Inl e) = Inl e"
| "map_ok f (Inr a) = Inr (f a)"

fun ok_or :: "'e \<Rightarrow> 'a option \<Rightarrow> 'e + 'a" where
  "ok_or e None = Inl e"
| "ok_or e (Some a) = Inr a"

text \<open>\<open>Option<Result<T, E>>::transpose\<close> after a \<open>map\<close>.\<close>

fun transpose_map :: "('a \<Rightarrow> 'e + 'b) \<Rightarrow> 'a option \<Rightarrow> 'e + 'b option" where
  "transpose_map f None = Inr None"
| "transpose_map f (Some a) = map_ok Some (f a)"

text \<open>\<open>collect::<Result<Vec<_>, _>>\<close>: the first error wins.\<close>

fun collect_results :: "('a \<Rightarrow> 'e + 'b) \<Rightarrow> 'a list \<Rightarrow> 'e + 'b list" where
  "collect_results f [] = Inr []"
| "collect_results f (x # xs) =
     res_bind (f x) (\<lambda>y. res_bind (collect_results f xs) (\<lambda>ys. Inr (y # ys)))"

lemma res_bind_Inr [result_simps]:
  "res_bind m f = Inr b \<longleftrightarrow> (\<exists>a. m = Inr a \<and> f a = Inr b)"
  by (cases m) auto

lemma res_bind_Inl [result_simps]:
  "res_bind m f = Inl e \<longleftrightarrow> m = Inl e \<or> (\<exists>a. m = Inr a \<and> f a = Inl e)"
  by (cases m) auto

lemma map_err_Inr [result_simps]: "map_err f m = Inr a \<longleftrightarrow> m = Inr a"
  by (cases m) auto

lemma map_err_Inl [result_simps]: "map_err f m = Inl e \<longleftrightarrow> (\<exists>d. m = Inl d \<and> e = f d)"
  by (cases m) auto

lemma map_ok_Inr [result_simps]: "map_ok f m = Inr b \<longleftrightarrow> (\<exists>a. m = Inr a \<and> b = f a)"
  by (cases m) auto

lemma map_ok_Inl [result_simps]: "map_ok f m = Inl e \<longleftrightarrow> m = Inl e"
  by (cases m) auto

lemma ok_or_Inr [result_simps]: "ok_or e x = Inr a \<longleftrightarrow> x = Some a"
  by (cases x) auto

lemma ok_or_Inl [result_simps]: "ok_or e x = Inl d \<longleftrightarrow> x = None \<and> d = e"
  by (cases x) auto

lemma transpose_map_Inr [result_simps]:
  "transpose_map f x = Inr y \<longleftrightarrow>
     (case x of None \<Rightarrow> y = None | Some a \<Rightarrow> (\<exists>b. f a = Inr b \<and> y = Some b))"
  by (cases x) (auto simp: result_simps)

lemma collect_results_Inr:
  "collect_results f xs = Inr ys \<longleftrightarrow> list_all2 (\<lambda>x y. f x = Inr y) xs ys"
proof (induction xs arbitrary: ys)
  case Nil
  then show ?case by auto
next
  case (Cons x xs)
  then show ?case by (cases ys) (auto simp: result_simps)
qed

lemma collect_results_length: "collect_results f xs = Inr ys \<Longrightarrow> length ys = length xs"
  by (auto simp: collect_results_Inr dest: list_all2_lengthD)

section \<open>Lists\<close>

text \<open>
  \<open>xs.iter().enumerate().any(|(i, x)| xs[..i].contains(x))\<close>: some element already occurs
  before its own position.
\<close>

definition repeats :: "'a list \<Rightarrow> bool" where
  "repeats xs = list_ex (\<lambda>i. xs ! i \<in> set (take i xs)) [0..<length xs]"

lemma repeats_iff [simp]: "repeats xs \<longleftrightarrow> \<not> distinct xs"
proof
  assume "repeats xs"
  then obtain i where i: "i < length xs" and "xs ! i \<in> set (take i xs)"
    by (auto simp: repeats_def list_ex_iff)
  then obtain j where "j < i" and "xs ! j = xs ! i"
    by (auto simp: in_set_conv_nth)
  with i show "\<not> distinct xs"
    by (metis less_trans nth_eq_iff_index_eq nat_neq_iff)
next
  assume "\<not> distinct xs"
  then obtain i j where ij: "i < length xs" "j < length xs" "i \<noteq> j" "xs ! i = xs ! j"
    by (auto simp: distinct_conv_nth)
  define a b where "a = min i j" and "b = max i j"
  have ab: "a < b" "b < length xs" "xs ! b = xs ! a"
    using ij by (auto simp: a_def b_def min_def max_def)
  then have "xs ! b \<in> set (take b xs)"
    by (auto simp: in_set_conv_nth intro!: exI [of _ a])
  with ab have "b \<in> set [0..<length xs] \<and> xs ! b \<in> set (take b xs)"
    by auto
  then show "repeats xs"
    unfolding repeats_def list_ex_iff by blast
qed

lemma list_all_take: "list_all P xs \<Longrightarrow> list_all P (take n xs)"
  by (auto simp: list_all_iff dest: in_set_takeD)

lemma sum_list_map_append_single:
  "sum_list (map f (xs @ [x])) = sum_list (map f xs) + (f x :: nat)"
  by simp

lemma length_filter_append_single:
  "length (filter P (xs @ [x])) = length (filter P xs) + (if P x then 1 else 0)"
  by simp

end
