(* ===== verification/Rust_Text.thy ===== *)
theory Rust_Text
  imports Prelude
begin

text \<open>
  Rust's \<open>str\<close> and \<open>[u8]\<close> as the code uses them. A text is its list of UTF-8 bytes, one
  \<^typ>\<open>char\<close> per byte, so \<open>length\<close> is Rust's \<open>len()\<close>. The theory models the byte
  classes of the standard library, \<open>strip_prefix\<close>, \<open>split\<close>, \<open>split_once\<close>, \<open>i32\<close> parsing,
  ASCII case folding, Unicode white space (for \<open>trim().is_empty()\<close>), and character boundaries,
  and relates them to the sequence of Unicode scalar values a text encodes.
\<close>

type_synonym bytes = string
type_synonym str = string

abbreviation byte :: "char \<Rightarrow> nat" where
  "byte c \<equiv> of_char c"

section \<open>Byte classes\<close>

definition is_ascii :: "str \<Rightarrow> bool" where
  "is_ascii s = list_all (\<lambda>c. byte c < 128) s"

definition is_ascii_digit :: "char \<Rightarrow> bool" where
  "is_ascii_digit c = (48 \<le> byte c \<and> byte c \<le> 57)"

definition is_ascii_alphanumeric :: "char \<Rightarrow> bool" where
  "is_ascii_alphanumeric c =
     (is_ascii_digit c \<or> 65 \<le> byte c \<and> byte c \<le> 90 \<or> 97 \<le> byte c \<and> byte c \<le> 122)"

definition is_ascii_hexdigit :: "char \<Rightarrow> bool" where
  "is_ascii_hexdigit c =
     (is_ascii_digit c \<or> 65 \<le> byte c \<and> byte c \<le> 70 \<or> 97 \<le> byte c \<and> byte c \<le> 102)"

definition is_ascii_whitespace :: "char \<Rightarrow> bool" where
  "is_ascii_whitespace c = (byte c = 9 \<or> byte c = 10 \<or> byte c = 12 \<or> byte c = 13 \<or> byte c = 32)"

definition to_lower :: "char \<Rightarrow> char" where
  "to_lower c = (if 65 \<le> byte c \<and> byte c \<le> 90 then char_of (byte c + 32) else c)"

definition to_ascii_lowercase :: "str \<Rightarrow> str" where
  "to_ascii_lowercase s = map to_lower s"

definition eq_ignore_ascii_case :: "bytes \<Rightarrow> bytes \<Rightarrow> bool" where
  "eq_ignore_ascii_case a b = (map to_lower a = map to_lower b)"

lemmas byte_class_defs = is_ascii_def is_ascii_digit_def is_ascii_alphanumeric_def
  is_ascii_hexdigit_def is_ascii_whitespace_def

declare byte_class_defs [text_simps] to_lower_def [text_simps]

lemma to_lower_idem [simp]: "to_lower (to_lower c) = to_lower c"
  by (auto simp: to_lower_def)

lemma to_lower_hexdigit: "is_ascii_hexdigit c \<Longrightarrow> is_ascii_hexdigit (to_lower c)"
  by (auto simp: to_lower_def byte_class_defs)

lemma length_to_ascii_lowercase [simp]: "length (to_ascii_lowercase s) = length s"
  by (simp add: to_ascii_lowercase_def)

section \<open>Prefixes, splitting and numbers\<close>

definition strip_prefix :: "str \<Rightarrow> str \<Rightarrow> str option" where
  "strip_prefix p s = (if take (length p) s = p then Some (drop (length p) s) else None)"

lemma strip_prefix_Some: "strip_prefix p s = Some r \<longleftrightarrow> s = p @ r"
  by (auto simp: strip_prefix_def split: if_splits) (metis append_take_drop_id)

fun split_on :: "char \<Rightarrow> str \<Rightarrow> str list" where
  "split_on d [] = [[]]"
| "split_on d (c # cs) =
     (if c = d then [] # split_on d cs
      else (case split_on d cs of [] \<Rightarrow> [[c]] | p # ps \<Rightarrow> (c # p) # ps))"

fun split_once :: "char \<Rightarrow> str \<Rightarrow> (str \<times> str) option" where
  "split_once d [] = None"
| "split_once d (c # cs) =
     (if c = d then Some ([], cs)
      else map_option (\<lambda>(a, b). (c # a, b)) (split_once d cs))"

lemma split_on_nonempty [simp]: "split_on d s \<noteq> []"
  by (induction s) (auto split: list.splits)

lemma split_on_no_sep: "d \<notin> set s \<Longrightarrow> split_on d s = [s]"
  by (induction s) auto

lemma split_on_append: "d \<notin> set s \<Longrightarrow> split_on d (s @ d # r) = s # split_on d r"
  by (induction s) auto

lemma split_once_append: "d \<notin> set s \<Longrightarrow> split_once d (s @ d # r) = Some (s, r)"
  by (induction s) auto

lemma split_once_Some:
  "split_once d s = Some (a, b) \<longleftrightarrow> s = a @ d # b \<and> d \<notin> set a"
proof (induction s arbitrary: a)
  case Nil
  then show ?case by simp
next
  case (Cons c cs)
  then show ?case by (cases a) auto
qed

text \<open>
  \<open>str::parse::<i32>\<close>: an optional sign, then at least one decimal digit, and the value must
  fit. The accumulation is \<open>digits_value\<close>; an overflow of an intermediate value is an overflow
  of the final one, because every further digit only moves the value away from zero.
\<close>

fun digits_value :: "int \<Rightarrow> str \<Rightarrow> int option" where
  "digits_value acc [] = Some acc"
| "digits_value acc (c # cs) =
     (if is_ascii_digit c then digits_value (acc * 10 + (int (byte c) - 48)) cs else None)"

definition unsigned_value :: "str \<Rightarrow> int option" where
  "unsigned_value s = (if s = [] then None else digits_value 0 s)"

definition in_i32 :: "int \<Rightarrow> bool" where
  "in_i32 n = (- (2 ^ 31) \<le> n \<and> n < 2 ^ 31)"

definition parse_i32 :: "str \<Rightarrow> int option" where
  "parse_i32 s =
     (let v = (case s of
                 c # cs \<Rightarrow>
                   if c = CHR ''+'' then unsigned_value cs
                   else if c = CHR ''-'' then map_option uminus (unsigned_value cs)
                   else unsigned_value s
               | [] \<Rightarrow> None)
      in case v of Some n \<Rightarrow> if in_i32 n then Some n else None | None \<Rightarrow> None)"

lemma parse_i32_range: "parse_i32 s = Some n \<Longrightarrow> in_i32 n"
  by (auto simp: parse_i32_def Let_def split: option.splits if_splits)

section \<open>UTF-8\<close>

definition is_scalar :: "nat \<Rightarrow> bool" where
  "is_scalar n = (n < 0x110000 \<and> \<not> (0xD800 \<le> n \<and> n < 0xE000))"

definition utf8_encode :: "nat \<Rightarrow> bytes" where
  "utf8_encode n =
     (if n < 0x80 then [char_of n]
      else if n < 0x800 then [char_of (192 + n div 64), char_of (128 + n mod 64)]
      else if n < 0x10000 then
        [char_of (224 + n div 4096), char_of (128 + n div 64 mod 64), char_of (128 + n mod 64)]
      else
        [char_of (240 + n div 262144), char_of (128 + n div 4096 mod 64),
         char_of (128 + n div 64 mod 64), char_of (128 + n mod 64)])"

definition utf8_str :: "nat list \<Rightarrow> str" where
  "utf8_str cps = concat (map utf8_encode cps)"

text \<open>The texts that are values of Rust's \<open>str\<close>.\<close>

definition is_utf8 :: "bytes \<Rightarrow> bool" where
  "is_utf8 s = (\<exists>cps. list_all is_scalar cps \<and> s = utf8_str cps)"

text \<open>\<open>str::is_char_boundary\<close>: the ends of the text, and every byte that starts a character.\<close>

definition starts_char :: "char \<Rightarrow> bool" where
  "starts_char c = (byte c < 128 \<or> 192 \<le> byte c)"

definition is_char_boundary :: "str \<Rightarrow> nat \<Rightarrow> bool" where
  "is_char_boundary s i = (i = 0 \<or> (if i < length s then starts_char (s ! i) else i = length s))"

lemma is_char_boundary_0 [simp]: "is_char_boundary s 0"
  by (simp add: is_char_boundary_def)

lemma is_char_boundary_length [simp]: "is_char_boundary s (length s)"
  by (simp add: is_char_boundary_def)

lemma utf8_str_Nil [simp]: "utf8_str [] = []"
  by (simp add: utf8_str_def)

lemma utf8_str_Cons [simp]: "utf8_str (c # cs) = utf8_encode c @ utf8_str cs"
  by (simp add: utf8_str_def)

lemma utf8_str_append [simp]: "utf8_str (xs @ ys) = utf8_str xs @ utf8_str ys"
  by (simp add: utf8_str_def)

lemma utf8_encode_shape:
  assumes "is_scalar n"
  shows "\<exists>c cs. utf8_encode n = c # cs \<and> starts_char c \<and> length cs \<le> 3
           \<and> list_all (\<lambda>b. \<not> starts_char b) cs"
proof -
  have n: "n < 1114112" using assms by (simp add: is_scalar_def)
  consider "n < 128" | "128 \<le> n" "n < 2048" | "2048 \<le> n" "n < 65536" | "65536 \<le> n"
    by linarith
  then show ?thesis
  proof cases
    case 1
    then show ?thesis by (simp add: utf8_encode_def starts_char_def)
  next
    case 2
    then have "n div 64 < 32" by simp
    moreover have "n mod 64 < 64" by simp
    ultimately show ?thesis using 2
      by (simp add: utf8_encode_def starts_char_def del: mod_less_divisor)
  next
    case 3
    then have "n div 4096 < 16" by simp
    moreover have "n mod 64 < 64" "n div 64 mod 64 < 64" by simp_all
    ultimately show ?thesis using 3
      by (simp add: utf8_encode_def starts_char_def del: mod_less_divisor)
  next
    case 4
    then have "n div 262144 < 8" using n by simp
    moreover have "n mod 64 < 64" "n div 64 mod 64 < 64" "n div 4096 mod 64 < 64" by simp_all
    ultimately show ?thesis using 4
      by (simp add: utf8_encode_def starts_char_def del: mod_less_divisor)
  qed
qed

lemma utf8_encode_not_empty [simp]: "utf8_encode n \<noteq> []"
  by (simp add: utf8_encode_def)

text \<open>Cutting a text at a character boundary leaves whole characters on the left.\<close>

lemma take_at_boundary:
  assumes "list_all is_scalar cps" and "is_char_boundary (utf8_str cps) i"
  shows "\<exists>k. take i (utf8_str cps) = utf8_str (take k cps)"
  using assms
proof (induction cps arbitrary: i)
  case Nil
  then show ?case by simp
next
  case (Cons c cps)
  obtain x xs where e: "utf8_encode c = x # xs"
    and cont: "list_all (\<lambda>b. \<not> starts_char b) xs"
    using utf8_encode_shape [of c] Cons.prems(1) by auto
  show ?case
  proof (cases "i < length (x # xs)")
    case True
    have "i = 0"
    proof (rule ccontr)
      assume "i \<noteq> 0"
      with True have "utf8_str (c # cps) ! i = xs ! (i - 1)" and "xs ! (i - 1) \<in> set xs"
        by (auto simp: e nth_append nth_Cons')
      with cont have "\<not> starts_char (utf8_str (c # cps) ! i)"
        by (auto simp: list_all_iff)
      with Cons.prems(2) True \<open>i \<noteq> 0\<close> show False
        by (auto simp: is_char_boundary_def e)
    qed
    then show ?thesis by (intro exI [of _ 0]) simp
  next
    case False
    let ?j = "i - length (x # xs)"
    have "is_char_boundary (utf8_str cps) ?j"
      using Cons.prems(2) False
      by (auto simp: is_char_boundary_def e nth_append nth_Cons' split: if_splits)
    with Cons.prems(1) obtain k where "take ?j (utf8_str cps) = utf8_str (take k cps)"
      using Cons.IH [of ?j] by auto
    with False have "take i (utf8_str (c # cps)) = utf8_str (take (Suc k) (c # cps))"
      by (simp add: e take_Cons')
    then show ?thesis by blast
  qed
qed

lemma is_utf8_take:
  assumes "is_utf8 s" and "is_char_boundary s i"
  shows "is_utf8 (take i s)"
proof -
  from assms(1) obtain cps where cps: "list_all is_scalar cps" "s = utf8_str cps"
    by (auto simp: is_utf8_def)
  with assms(2) obtain k where "take i s = utf8_str (take k cps)"
    using take_at_boundary by blast
  with cps(1) show ?thesis
    by (auto simp: is_utf8_def intro: list_all_take)
qed

text \<open>A boundary is never more than three bytes back.\<close>

lemma boundary_within_three:
  assumes "list_all is_scalar cps" and "i \<le> length (utf8_str cps)"
  shows "\<exists>j\<le>i. is_char_boundary (utf8_str cps) j \<and> i \<le> j + 3"
  using assms
proof (induction cps arbitrary: i)
  case Nil
  then show ?case by auto
next
  case (Cons c cps)
  obtain x xs where e: "utf8_encode c = x # xs" and l: "length xs \<le> 3"
    and st: "starts_char x"
    using utf8_encode_shape [of c] Cons.prems(1) by auto
  show ?case
  proof (cases "i < length (x # xs)")
    case True
    with l show ?thesis by (intro exI [of _ 0]) auto
  next
    case False
    let ?n = "length (x # xs)"
    have "i - ?n \<le> length (utf8_str cps)"
      using Cons.prems(2) False by (simp add: e)
    with Cons.prems(1) obtain j
      where j: "j \<le> i - ?n" "is_char_boundary (utf8_str cps) j" "i - ?n \<le> j + 3"
      using Cons.IH [of "i - ?n"] by auto
    have "is_char_boundary (utf8_str (c # cps)) (?n + j)"
    proof (cases "j = 0")
      case True
      then show ?thesis
      proof (cases cps)
        case Nil
        with True show ?thesis by (simp add: is_char_boundary_def e)
      next
        case (Cons d ds)
        then obtain y ys where "utf8_encode d = y # ys" "starts_char y"
          using utf8_encode_shape [of d] Cons.prems(1) \<open>list_all is_scalar (c # cps)\<close> by auto
        with True Cons show ?thesis by (simp add: is_char_boundary_def e nth_append)
      qed
    next
      case False
      with j(2) show ?thesis by (simp add: is_char_boundary_def e nth_append)
    qed
    with j False show ?thesis by (intro exI [of _ "?n + j"]) auto
  qed
qed

section \<open>White space\<close>

text \<open>The scalar values with the Unicode property \<open>White_Space\<close>, which \<open>str::trim\<close> removes.\<close>

definition is_white :: "nat \<Rightarrow> bool" where
  "is_white n =
     (9 \<le> n \<and> n \<le> 13 \<or> n = 0x20 \<or> n = 0x85 \<or> n = 0xA0 \<or> n = 0x1680
      \<or> 0x2000 \<le> n \<and> n \<le> 0x200A \<or> n = 0x2028 \<or> n = 0x2029 \<or> n = 0x202F \<or> n = 0x205F
      \<or> n = 0x3000)"

definition white1 :: "char \<Rightarrow> bool" where
  "white1 a = (9 \<le> byte a \<and> byte a \<le> 13 \<or> byte a = 32)"

definition white2 :: "char \<Rightarrow> char \<Rightarrow> bool" where
  "white2 a b = (byte a = 194 \<and> (byte b = 133 \<or> byte b = 160))"

definition white3 :: "char \<Rightarrow> char \<Rightarrow> char \<Rightarrow> bool" where
  "white3 a b c =
     (byte a = 225 \<and> byte b = 154 \<and> byte c = 128
      \<or> byte a = 226 \<and> byte b = 128
          \<and> (128 \<le> byte c \<and> byte c \<le> 138 \<or> byte c = 168 \<or> byte c = 169 \<or> byte c = 175)
      \<or> byte a = 226 \<and> byte b = 129 \<and> byte c = 159
      \<or> byte a = 227 \<and> byte b = 128 \<and> byte c = 128)"

text \<open>\<open>s.trim().is_empty()\<close>, on the bytes of a text.\<close>

fun trim_is_empty :: "str \<Rightarrow> bool" where
  "trim_is_empty [] = True"
| "trim_is_empty [a] = white1 a"
| "trim_is_empty [a, b] = (if white1 a then trim_is_empty [b] else white2 a b)"
| "trim_is_empty (a # b # c # s) =
     (if white1 a then trim_is_empty (b # c # s)
      else if white2 a b then trim_is_empty (c # s)
      else white3 a b c \<and> trim_is_empty s)"

lemma digits3_eq:
  fixes a b c :: nat
  assumes "b < 64" "c < 64" "b' < 64" "c' < 64"
  shows "4096 * a + 64 * b + c = 4096 * a' + 64 * b' + c' \<longleftrightarrow> a = a' \<and> b = b' \<and> c = c'"
proof
  assume h: "4096 * a + 64 * b + c = 4096 * a' + 64 * b' + c'"
  have "a = a'"
  proof (rule ccontr)
    assume "a \<noteq> a'"
    then consider "a < a'" | "a' < a" by linarith
    then show False using h assms by cases linarith+
  qed
  with h have "64 * b + c = 64 * b' + c'" by simp
  moreover have "b = b'"
  proof (rule ccontr)
    assume "b \<noteq> b'"
    then consider "b < b'" | "b' < b" by linarith
    then show False using \<open>64 * b + c = 64 * b' + c'\<close> assms by cases linarith+
  qed
  ultimately show "a = a' \<and> b = b' \<and> c = c'" using \<open>a = a'\<close> by simp
qed simp

lemma white_utf8_3:
  assumes "2048 \<le> n" "n < 65536"
  shows "white3 (char_of (224 + n div 4096)) (char_of (128 + n div 64 mod 64))
           (char_of (128 + n mod 64)) = is_white n"
proof -
  define a b c where "a = n div 4096" and "b = n div 64 mod 64" and "c = n mod 64"
  have "n div 4096 = n div 64 div 64"
    by (simp add: div_mult2_eq [symmetric])
  then have "n div 64 = 64 * a + b"
    by (simp add: a_def b_def)
  then have n: "n = 4096 * a + 64 * b + c"
    using div_mult_mod_eq [of n 64] by (simp add: c_def)
  have lt: "a < 16" "b < 64" "c < 64"
    using assms by (simp_all add: a_def b_def c_def)
  have eqs: "n = 0x1680 \<longleftrightarrow> a = 1 \<and> b = 26 \<and> c = 0" "n = 0x2028 \<longleftrightarrow> a = 2 \<and> b = 0 \<and> c = 40"
    "n = 0x2029 \<longleftrightarrow> a = 2 \<and> b = 0 \<and> c = 41" "n = 0x202F \<longleftrightarrow> a = 2 \<and> b = 0 \<and> c = 47"
    "n = 0x205F \<longleftrightarrow> a = 2 \<and> b = 1 \<and> c = 31" "n = 0x3000 \<longleftrightarrow> a = 3 \<and> b = 0 \<and> c = 0"
    using digits3_eq [OF lt(2,3), where b' = 26 and c' = 0 and a' = 1]
      digits3_eq [OF lt(2,3), where b' = 0 and c' = 40 and a' = 2]
      digits3_eq [OF lt(2,3), where b' = 0 and c' = 41 and a' = 2]
      digits3_eq [OF lt(2,3), where b' = 0 and c' = 47 and a' = 2]
      digits3_eq [OF lt(2,3), where b' = 1 and c' = 31 and a' = 2]
      digits3_eq [OF lt(2,3), where b' = 0 and c' = 0 and a' = 3]
    by (simp_all add: n)
  have range: "0x2000 \<le> n \<and> n \<le> 0x200A \<longleftrightarrow> a = 2 \<and> b = 0 \<and> c \<le> 10"
  proof
    assume h: "0x2000 \<le> n \<and> n \<le> 0x200A"
    then have "a = 2" using lt n by linarith
    moreover from this h have "b = 0" using lt n by linarith
    ultimately show "a = 2 \<and> b = 0 \<and> c \<le> 10" using h n by linarith
  qed (use n in linarith)
  have big: "\<not> (9 \<le> n \<and> n \<le> 13)" "n \<noteq> 0x20" "n \<noteq> 0x85" "n \<noteq> 0xA0"
    using assms by simp_all
  have bytes: "byte (char_of (224 + a)) = 224 + a" "byte (char_of (128 + b)) = 128 + b"
    "byte (char_of (128 + c)) = 128 + c"
    using lt by simp_all
  have "white3 (char_of (224 + a)) (char_of (128 + b)) (char_of (128 + c)) = is_white n"
    unfolding white3_def is_white_def eqs range bytes using big by auto
  then show ?thesis by (simp only: a_def b_def c_def)
qed

lemma white_utf8_2:
  assumes "128 \<le> n" "n < 2048"
  shows "white2 (char_of (192 + n div 64)) (char_of (128 + n mod 64)) = is_white n"
proof -
  define b c where "b = n div 64" and "c = n mod 64"
  have n: "n = 64 * b + c"
    by (simp add: b_def c_def)
  have "b < 32" "c < 64"
    using assms by (simp_all add: b_def c_def)
  then have "white2 (char_of (192 + b)) (char_of (128 + c)) = is_white n"
    using assms unfolding n white2_def is_white_def by simp presburger
  then show ?thesis by (simp only: b_def c_def)
qed

lemma trim_is_empty_encode:
  assumes "is_scalar n"
  shows "trim_is_empty (utf8_encode n @ s) = (is_white n \<and> trim_is_empty s)"
proof -
  have n: "n < 1114112" using assms by (simp add: is_scalar_def)
  consider "n < 128" | "128 \<le> n" "n < 2048" | "2048 \<le> n" "n < 65536" | "65536 \<le> n"
    by linarith
  then show ?thesis
  proof cases
    case 1
    then have w: "white1 (char_of n) = is_white n" 
      by (auto simp: white1_def is_white_def)
    have nw: "\<not> white2 (char_of n) b" "\<not> white3 (char_of n) b c" for b c
      using 1 by (simp_all add: white2_def white3_def)
    have "trim_is_empty (char_of n # s) = (white1 (char_of n) \<and> trim_is_empty s)"
      by (cases s rule: trim_is_empty.cases) (simp_all add: nw)
    with 1 w show ?thesis by (simp add: utf8_encode_def)
  next
    case 2
    let ?a = "char_of (192 + n div 64) :: char" and ?b = "char_of (128 + n mod 64) :: char"
    have lt: "n div 64 < 32" using 2 by simp
    then have nw: "\<not> white1 ?a" "\<not> white3 ?a ?b c" for c
      by (simp_all add: white1_def white3_def)
    have "trim_is_empty (?a # ?b # s) = (white2 ?a ?b \<and> trim_is_empty s)"
      by (cases s) (simp_all add: nw)
    with 2 white_utf8_2 [OF 2] show ?thesis by (simp add: utf8_encode_def)
  next
    case 3
    let ?a = "char_of (224 + n div 4096) :: char" and ?b = "char_of (128 + n div 64 mod 64) :: char"
    have "n div 4096 < 16" using 3 by simp
    then have "\<not> white1 ?a" "\<not> white2 ?a ?b"
      by (simp_all add: white1_def white2_def)
    with 3 white_utf8_3 [OF 3] show ?thesis by (simp add: utf8_encode_def)
  next
    case 4
    let ?a = "char_of (240 + n div 262144) :: char"
    have "n div 262144 < 8" using n by simp
    then have "\<not> white1 ?a" "\<not> white2 ?a b" "\<not> white3 ?a b c" for b c
      by (simp_all add: white1_def white2_def white3_def)
    moreover have "\<not> is_white n" using 4 by (simp add: is_white_def)
    ultimately show ?thesis using 4 by (simp add: utf8_encode_def)
  qed
qed

lemma trim_is_empty_utf8:
  "list_all is_scalar cps \<Longrightarrow> trim_is_empty (utf8_str cps) = list_all is_white cps"
  by (induction cps) (simp_all add: trim_is_empty_encode)

section \<open>Validation of UTF-8\<close>

definition cont_byte :: "char \<Rightarrow> bool" where
  "cont_byte c = (128 \<le> byte c \<and> byte c < 192)"

definition utf8_pair :: "char \<Rightarrow> char \<Rightarrow> bool" where
  "utf8_pair a b = (194 \<le> byte a \<and> byte a < 224 \<and> cont_byte b)"

definition utf8_triple :: "char \<Rightarrow> char \<Rightarrow> char \<Rightarrow> bool" where
  "utf8_triple a b c =
     (cont_byte c \<and> cont_byte b \<and> 224 \<le> byte a \<and> byte a < 240
      \<and> (byte a = 224 \<longrightarrow> 160 \<le> byte b) \<and> (byte a = 237 \<longrightarrow> byte b < 160))"

definition utf8_quad :: "char \<Rightarrow> char \<Rightarrow> char \<Rightarrow> char \<Rightarrow> bool" where
  "utf8_quad a b c d =
     (cont_byte d \<and> cont_byte c \<and> cont_byte b \<and> 240 \<le> byte a \<and> byte a < 245
      \<and> (byte a = 240 \<longrightarrow> 144 \<le> byte b) \<and> (byte a = 244 \<longrightarrow> byte b < 144))"

text \<open>The check \<open>String::from_utf8\<close> makes: no overlong form, no surrogate, nothing above U+10FFFF.\<close>

fun utf8_valid :: "bytes \<Rightarrow> bool" where
  "utf8_valid [] = True"
| "utf8_valid [a] = (byte a < 128)"
| "utf8_valid [a, b] = (if byte a < 128 then utf8_valid [b] else utf8_pair a b)"
| "utf8_valid [a, b, c] =
     (if byte a < 128 then utf8_valid [b, c]
      else if byte a < 224 then utf8_pair a b \<and> utf8_valid [c]
      else utf8_triple a b c)"
| "utf8_valid (a # b # c # d # s) =
     (if byte a < 128 then utf8_valid (b # c # d # s)
      else if byte a < 224 then utf8_pair a b \<and> utf8_valid (c # d # s)
      else if byte a < 240 then utf8_triple a b c \<and> utf8_valid (d # s)
      else utf8_quad a b c d \<and> utf8_valid s)"

lemma is_utf8_Nil [simp]: "is_utf8 []"
  unfolding is_utf8_def by (intro exI [of _ "[]"]) simp

lemma is_utf8_encode: "is_scalar n \<Longrightarrow> is_utf8 s \<Longrightarrow> is_utf8 (utf8_encode n @ s)"
  unfolding is_utf8_def
proof (elim exE conjE)
  fix cps
  assume "is_scalar n" "list_all is_scalar cps" "s = utf8_str cps"
  then show "\<exists>cps. list_all is_scalar cps \<and> utf8_encode n @ s = utf8_str cps"
    by (intro exI [of _ "n # cps"]) simp
qed

lemma base64_digit:
  assumes "z < (64::nat)"
  shows "(k * 64 + z) div 64 = k" "(k * 64 + z) mod 64 = z"
  using assms by simp_all

lemma char_eqI: "n = byte c \<Longrightarrow> char_of n = c"
  by simp

lemma utf8_one: "byte a < 128 \<Longrightarrow> is_utf8 s \<Longrightarrow> is_utf8 (a # s)"
  using is_utf8_encode [of "byte a" s] by (simp add: is_scalar_def utf8_encode_def)

lemma utf8_two:
  assumes "utf8_pair a b" and "is_utf8 s"
  shows "is_utf8 (a # b # s)"
proof -
  define x y where "x = byte a - 192" and "y = byte b - 128"
  let ?n = "x * 64 + y"
  have a: "byte a = 192 + x" "2 \<le> x" "x < 32" and b: "byte b = 128 + y" "y < 64"
    using assms(1) by (auto simp: utf8_pair_def cont_byte_def x_def y_def)
  have r: "128 \<le> ?n" "?n < 2048" using a b by simp_all
  have "utf8_encode ?n = [a, b]"
    using r base64_digit [OF b(2), of x] char_eqI [OF a(1) [symmetric]]
      char_eqI [OF b(1) [symmetric]]
    by (simp add: utf8_encode_def del: div_mult_self3 div_mult_self4)
  moreover have "is_scalar ?n" using r by (simp add: is_scalar_def)
  ultimately show ?thesis using is_utf8_encode [of ?n s] assms(2) by simp
qed

lemma utf8_three:
  assumes "utf8_triple a b c" and "is_utf8 s"
  shows "is_utf8 (a # b # c # s)"
proof -
  define x y z where "x = byte a - 224" and "y = byte b - 128" and "z = byte c - 128"
  define n where "n = (x * 64 + y) * 64 + z"
  have a: "byte a = 224 + x" "x < 16" and b: "byte b = 128 + y" "y < 64"
    and c: "byte c = 128 + z" "z < 64"
    using assms(1) by (auto simp: utf8_triple_def cont_byte_def x_def y_def z_def)
  have lo: "x = 0 \<longrightarrow> 32 \<le> y" and hi: "x = 13 \<longrightarrow> y < 32"
    using assms(1) by (auto simp: utf8_triple_def a(1) b(1))
  have 1: "n div 64 = x * 64 + y" and m: "n mod 64 = z"
    unfolding n_def by (rule base64_digit [OF c(2)])+
  have d: "n div 64 mod 64 = y" "n div 4096 = x"
    using base64_digit [OF b(2), of x] div_mult2_eq [of n 64 64] 1 by simp_all
  have r: "2048 \<le> n" "n < 65536"
    using lo a b c by (cases "x = 0"; simp add: n_def)+
  have "utf8_encode n = [a, b, c]"
    using r d m char_eqI [OF a(1) [symmetric]] char_eqI [OF b(1) [symmetric]]
      char_eqI [OF c(1) [symmetric]] by (simp add: utf8_encode_def)
  moreover have "is_scalar n"
    using hi b c a(2) unfolding is_scalar_def n_def by (cases "x = 13"; cases "x < 13") auto
  ultimately show ?thesis using is_utf8_encode [of n s] assms(2) by simp
qed

lemma utf8_four:
  assumes "utf8_quad a b c d" and "is_utf8 s"
  shows "is_utf8 (a # b # c # d # s)"
proof -
  define w x y z where "w = byte a - 240" and "x = byte b - 128" and "y = byte c - 128"
    and "z = byte d - 128"
  define n where "n = ((w * 64 + x) * 64 + y) * 64 + z"
  have a: "byte a = 240 + w" "w < 5" and b: "byte b = 128 + x" "x < 64"
    and c: "byte c = 128 + y" "y < 64" and d: "byte d = 128 + z" "z < 64"
    using assms(1) by (auto simp: utf8_quad_def cont_byte_def w_def x_def y_def z_def)
  have lo: "w = 0 \<longrightarrow> 16 \<le> x" and hi: "w = 4 \<longrightarrow> x < 16"
    using assms(1) by (auto simp: utf8_quad_def a(1) b(1))
  have 1: "n div 64 = (w * 64 + x) * 64 + y" and m: "n mod 64 = z"
    unfolding n_def by (rule base64_digit [OF d(2)])+
  have 2: "n div 64 mod 64 = y" "n div 4096 = w * 64 + x"
    using base64_digit [OF c(2), of "w * 64 + x"] div_mult2_eq [of n 64 64] 1 by simp_all
  have 3: "n div 4096 mod 64 = x" "n div 262144 = w"
    using base64_digit [OF b(2), of w] div_mult2_eq [of n 4096 64] 2 by simp_all
  have r: "65536 \<le> n" "n < 1114112"
    using lo hi a b c d by (cases "w = 0"; cases "w = 4"; simp add: n_def)+
  have "utf8_encode n = [a, b, c, d]"
    using r 2(1) 3 m char_eqI [OF a(1) [symmetric]] char_eqI [OF b(1) [symmetric]]
      char_eqI [OF c(1) [symmetric]] char_eqI [OF d(1) [symmetric]]
    by (simp add: utf8_encode_def)
  moreover have "is_scalar n" using r by (simp add: is_scalar_def)
  ultimately show ?thesis using is_utf8_encode [of n s] assms(2) by simp
qed

lemma utf8_valid_sound: "utf8_valid s \<Longrightarrow> is_utf8 s"
  by (induction s rule: utf8_valid.induct)
    (auto intro: utf8_one utf8_two utf8_three utf8_four split: if_splits)

lemma utf8_valid_one: "byte a < 128 \<Longrightarrow> utf8_valid (a # s) = utf8_valid s"
  by (cases s rule: utf8_valid.cases) auto

lemma utf8_valid_two: "128 \<le> byte a \<Longrightarrow> byte a < 224 \<Longrightarrow>
    utf8_valid (a # b # s) = (utf8_pair a b \<and> utf8_valid s)"
  by (cases s rule: utf8_valid.cases) auto

lemma utf8_valid_three: "224 \<le> byte a \<Longrightarrow> byte a < 240 \<Longrightarrow>
    utf8_valid (a # b # c # s) = (utf8_triple a b c \<and> utf8_valid s)"
  by (cases s) auto

lemma utf8_valid_encode:
  assumes "is_scalar n"
  shows "utf8_valid (utf8_encode n @ s) = utf8_valid s"
proof -
  have n: "n < 1114112" and sur: "\<not> (55296 \<le> n \<and> n < 57344)"
    using assms by (simp_all add: is_scalar_def)
  consider "n < 128" | "128 \<le> n" "n < 2048" | "2048 \<le> n" "n < 65536" | "65536 \<le> n"
    by linarith
  then show ?thesis
  proof cases
    case 1
    then show ?thesis by (simp add: utf8_encode_def utf8_valid_one)
  next
    case 2
    then have "n div 64 < 32" "2 \<le> n div 64" by simp_all
    with 2 show ?thesis
      by (simp add: utf8_encode_def utf8_valid_two utf8_pair_def cont_byte_def)
  next
    case 3
    have q: "n div 4096 < 16" using 3 by simp
    have s: "n div 64 mod 64 = n div 64 - 64 * (n div 4096)"
      by (simp add: minus_mult_div_eq_mod [symmetric] div_mult2_eq [symmetric])
    have "n div 4096 = 0 \<longrightarrow> 32 \<le> n div 64 mod 64" using 3 s by auto
    moreover have "n div 4096 = 13 \<longrightarrow> n div 64 mod 64 < 32"
    proof
      assume "n div 4096 = 13"
      then have "53248 \<le> n" "n < 57344" by auto
      with sur have "n < 55296" by simp
      then have "n div 64 < 864" by simp
      with s \<open>n div 4096 = 13\<close> show "n div 64 mod 64 < 32" by simp
    qed
    ultimately show ?thesis using 3 q
      by (simp add: utf8_encode_def utf8_valid_three utf8_triple_def cont_byte_def)
  next
    case 4
    have q: "n div 262144 < 5" using n by simp
    have s: "n div 4096 mod 64 = n div 4096 - 64 * (n div 262144)"
      by (simp add: minus_mult_div_eq_mod [symmetric] div_mult2_eq [symmetric])
    have "n div 262144 = 0 \<longrightarrow> 16 \<le> n div 4096 mod 64" using 4 s by auto
    moreover have "n div 262144 = 4 \<longrightarrow> n div 4096 mod 64 < 16"
      using n s by auto
    ultimately show ?thesis using 4 q
      by (simp add: utf8_encode_def utf8_quad_def cont_byte_def)
  qed
qed

lemma utf8_valid_iff: "utf8_valid s \<longleftrightarrow> is_utf8 s"
proof
  assume "is_utf8 s"
  then obtain cps where "list_all is_scalar cps" "s = utf8_str cps"
    by (auto simp: is_utf8_def)
  then show "utf8_valid s"
    by (induction cps arbitrary: s) (simp_all add: utf8_valid_encode)
qed (rule utf8_valid_sound)

end
