(* ===== verification/Search_Limits.thy ===== *)
theory Search_Limits
  imports Rust_Text "HOL-Library.Word"
begin

text \<open>
  \<open>SearchLimits\<close> of \<open>src/src/lib.rs\<close>: the operator's byte allowances for search excerpts. The
  constructor takes 32-bit words and stores 16-bit words, rejecting rather than clamping.
\<close>

record search_limits =
  default_context_bytes :: "16 word"
  max_context_bytes :: "16 word"

text \<open>\<open>u16::try_from\<close> of a \<open>u32\<close>.\<close>

definition u16_try_from :: "32 word \<Rightarrow> 16 word option" where
  "u16_try_from w = (if unat w < 2 ^ 16 then Some (ucast w) else None)"

definition new_search_limits :: "32 word \<Rightarrow> 32 word \<Rightarrow> str + search_limits" where
  "new_search_limits d m =
     (if d = 0 \<or> d > m then Inl ''invalid search context limits''
      else
        res_bind (ok_or ''invalid search context limits'' (u16_try_from d)) (\<lambda>d'.
        res_bind (ok_or ''invalid search context limits'' (u16_try_from m)) (\<lambda>m'.
          Inr \<lparr>default_context_bytes = d', max_context_bytes = m'\<rparr>)))"

definition default_search_limits :: search_limits where
  "default_search_limits = \<lparr>default_context_bytes = 8192, max_context_bytes = 16384\<rparr>"

text \<open>Well-formed limits: what every constructor establishes.\<close>

definition limits_ok :: "search_limits \<Rightarrow> bool" where
  "limits_ok l = (0 < default_context_bytes l \<and> default_context_bytes l \<le> max_context_bytes l)"

lemma unat_u16_try_from: "u16_try_from w = Some v \<Longrightarrow> unat v = unat w"
  by (auto simp: u16_try_from_def unsigned_ucast_eq take_bit_nat_eq_self split: if_splits)

lemma default_limits_ok: "limits_ok default_search_limits"
  by (simp add: limits_ok_def default_search_limits_def)

lemma new_search_limits_ok:
  assumes "new_search_limits d m = Inr l"
  shows "limits_ok l" and "unat (default_context_bytes l) = unat d"
    and "unat (max_context_bytes l) = unat m"
proof -
  from assms obtain d' m' where dm: "d \<noteq> 0" "d \<le> m" "u16_try_from d = Some d'"
    "u16_try_from m = Some m'" "l = \<lparr>default_context_bytes = d', max_context_bytes = m'\<rparr>"
    by (auto simp: new_search_limits_def result_simps not_less split: if_splits)
  then have u: "unat d' = unat d" "unat m' = unat m"
    by (auto dest: unat_u16_try_from)
  with dm show "unat (default_context_bytes l) = unat d" "unat (max_context_bytes l) = unat m"
    by simp_all
  from dm(1) have "0 < unat d" by (simp add: unat_gt_0)
  moreover from dm(2) have "unat d \<le> unat m" by (simp add: word_le_nat_alt)
  ultimately show "limits_ok l"
    using u dm(5) by (simp add: limits_ok_def word_le_nat_alt word_less_nat_alt)
qed

text \<open>
  C40. The documented contract of \<open>SearchLimits::new\<close>: it succeeds exactly when
  1 <= default <= maximum <= 65535, and then stores both numbers unchanged; otherwise it fails with
  the one fixed message.
\<close>

theorem new_search_limits_iff:
  "(\<exists>l. new_search_limits d m = Inr l \<and> unat (default_context_bytes l) = unat d
        \<and> unat (max_context_bytes l) = unat m)
     = (1 \<le> unat d \<and> unat d \<le> unat m \<and> unat m \<le> 65535)
   \<and> (new_search_limits d m = Inl ''invalid search context limits'')
     = (\<not> (1 \<le> unat d \<and> unat d \<le> unat m \<and> unat m \<le> 65535))"
proof (cases "1 \<le> unat d \<and> unat d \<le> unat m \<and> unat m \<le> 65535")
  case True
  then have "d \<noteq> 0" "\<not> m < d" "u16_try_from d = Some (ucast d)" "u16_try_from m = Some (ucast m)"
    by (auto simp: u16_try_from_def word_less_nat_alt)
  then have n: "new_search_limits d m =
      Inr \<lparr>default_context_bytes = ucast d, max_context_bytes = ucast m\<rparr>"
    by (simp add: new_search_limits_def)
  with True new_search_limits_ok [OF n] show ?thesis by auto
next
  case False
  have "new_search_limits d m = Inl ''invalid search context limits''"
  proof (cases "d = 0 \<or> m < d")
    case True
    then show ?thesis by (simp add: new_search_limits_def)
  next
    case ok: False
    then have "1 \<le> unat d" "unat d \<le> unat m"
      by (auto simp: word_less_nat_alt not_less unat_eq_zero Suc_le_eq unat_gt_0)
    with False have "65535 < unat m" by simp
    then have "u16_try_from m = None" by (simp add: u16_try_from_def)
    with ok show ?thesis
      by (cases "u16_try_from d") (simp_all add: new_search_limits_def)
  qed
  with False show ?thesis by auto
qed

end
