(* ===== verification/Failures.thy ===== *)
theory Failures
  imports Rust_Text
begin

text \<open>
  Request failures (\<open>RequestFailure\<close>, \<open>RequestOperation\<close>, \<open>RequestRejection\<close> and the
  classification of database errors, all in \<open>src/src/lib.rs\<close>). An error value of a library is
  what the code can observe of it: of an \<open>sqlx::Error\<close> the SQLSTATE of its database error, if it
  has one, and an opaque detail; of the others only an opaque detail. The response of a failure is
  a status code and a body with a fixed code; the audit outcome of a failure is the label under
  which \<open>finish_operation_error\<close> records it.
\<close>

record sqlx_error =
  sqlstate :: "str option"
  sql_detail :: str

type_synonym json_error = str
type_synonym body_error = str

datatype elapsed = Elapsed_Error

datatype request_failure =
    ContextBudgetUnavailable
  | UnsupportedContextTokenizer
  | InvalidContextBudget
  | Malformed
  | Unauthenticated
  | Unavailable
  | UnsupportedTimeSemantics
  | Storage sqlx_error
  | StoredJson json_error
  | AuthorityRejected sqlx_error
  | DatabaseInputRejected sqlx_error
  | DatabaseUnavailable sqlx_error
  | DatabaseStale sqlx_error
  | DatabaseIdempotencyConflict sqlx_error
  | AuthenticationTimeout elapsed
  | BodyTimeout elapsed
  | BodyRead body_error
  | JsonBody json_error

datatype request_operation = ReadOp | SearchOp | ListOp | CreateOp | CorrectOp | ForgetOp

fun operation_str :: "request_operation \<Rightarrow> str" where
  "operation_str ReadOp = ''read''"
| "operation_str SearchOp = ''search''"
| "operation_str ListOp = ''list''"
| "operation_str CreateOp = ''create''"
| "operation_str CorrectOp = ''correct''"
| "operation_str ForgetOp = ''forget''"

lemma operation_str_inj: "operation_str a = operation_str b \<Longrightarrow> a = b"
  by (cases a; cases b) simp_all

record request_rejection =
  rejection_error :: request_failure
  rejection_digest :: "bytes option"

definition unattributed :: "request_failure \<Rightarrow> request_rejection" where
  "unattributed e = \<lparr>rejection_error = e, rejection_digest = None\<rparr>"

definition attributed :: "request_failure \<Rightarrow> bytes \<Rightarrow> request_rejection" where
  "attributed e d = \<lparr>rejection_error = e, rejection_digest = Some d\<rparr>"

section \<open>Semantic fallback, audit outcome and response\<close>

definition permits_semantic_fallback :: "request_failure \<Rightarrow> bool \<Rightarrow> bool" where
  "permits_semantic_fallback e token_mode =
     (\<not> token_mode \<and>
      (case e of
         ContextBudgetUnavailable \<Rightarrow> False
       | InvalidContextBudget \<Rightarrow> False
       | UnsupportedContextTokenizer \<Rightarrow> False
       | _ \<Rightarrow> True))"

fun rejection_outcome :: "request_failure \<Rightarrow> str option" where
  "rejection_outcome ContextBudgetUnavailable = Some ''unavailable''"
| "rejection_outcome UnsupportedContextTokenizer = Some ''malformed''"
| "rejection_outcome InvalidContextBudget = Some ''malformed''"
| "rejection_outcome Malformed = Some ''malformed''"
| "rejection_outcome (DatabaseInputRejected _) = Some ''malformed''"
| "rejection_outcome (BodyTimeout _) = Some ''malformed''"
| "rejection_outcome (BodyRead _) = Some ''malformed''"
| "rejection_outcome (JsonBody _) = Some ''malformed''"
| "rejection_outcome Unauthenticated = Some ''unauthenticated''"
| "rejection_outcome (AuthorityRejected _) = Some ''unauthenticated''"
| "rejection_outcome (Storage _) = Some ''storage_unavailable''"
| "rejection_outcome (StoredJson _) = Some ''storage_unavailable''"
| "rejection_outcome (AuthenticationTimeout _) = Some ''storage_unavailable''"
| "rejection_outcome (DatabaseStale _) = Some ''stale_context''"
| "rejection_outcome (DatabaseIdempotencyConflict _) = Some ''idempotency_conflict''"
| "rejection_outcome UnsupportedTimeSemantics = Some ''unsupported_time_semantics''"
| "rejection_outcome Unavailable = None"
| "rejection_outcome (DatabaseUnavailable _) = None"

record error_body =
  error_request_id :: str
  error_status :: str
  error_code :: str

text \<open>A response: the HTTP status and the JSON body, a success value or the error envelope.\<close>

datatype 'a response =
    Success nat 'a
  | Failure nat error_body

fun status_and_code :: "request_failure \<Rightarrow> nat \<times> str" where
  "status_and_code ContextBudgetUnavailable = (503, ''context_budget_unavailable'')"
| "status_and_code UnsupportedContextTokenizer = (400, ''unsupported_context_tokenizer'')"
| "status_and_code InvalidContextBudget = (400, ''invalid_context_budget'')"
| "status_and_code Malformed = (400, ''malformed'')"
| "status_and_code (DatabaseInputRejected _) = (400, ''malformed'')"
| "status_and_code (BodyTimeout _) = (400, ''malformed'')"
| "status_and_code (BodyRead _) = (400, ''malformed'')"
| "status_and_code (JsonBody _) = (400, ''malformed'')"
| "status_and_code Unauthenticated = (401, ''unauthenticated'')"
| "status_and_code (AuthorityRejected _) = (401, ''unauthenticated'')"
| "status_and_code Unavailable = (404, ''unavailable'')"
| "status_and_code (DatabaseUnavailable _) = (404, ''unavailable'')"
| "status_and_code (DatabaseStale _) = (409, ''stale_context'')"
| "status_and_code (DatabaseIdempotencyConflict _) = (409, ''idempotency_conflict'')"
| "status_and_code UnsupportedTimeSemantics = (422, ''unsupported_time_semantics'')"
| "status_and_code (Storage _) = (503, ''storage_unavailable'')"
| "status_and_code (StoredJson _) = (503, ''storage_unavailable'')"
| "status_and_code (AuthenticationTimeout _) = (503, ''storage_unavailable'')"

definition failure_response :: "request_failure \<Rightarrow> str \<Rightarrow> 'a response" where
  "failure_response e request_id =
     (case status_and_code e of (st, code) \<Rightarrow>
        Failure st \<lparr>error_request_id = request_id, error_status = code, error_code = code\<rparr>)"

text \<open>The outcome that \<open>finish_operation_error\<close> records, if any.\<close>

definition audit_outcome :: "request_operation \<Rightarrow> request_failure \<Rightarrow> str option" where
  "audit_outcome op e =
     (case e of
        Unavailable \<Rightarrow> (if op = ReadOp then None else Some ''unavailable'')
      | DatabaseUnavailable _ \<Rightarrow> (if op = ReadOp then None else Some ''unavailable'')
      | _ \<Rightarrow> rejection_outcome e)"

section \<open>Database errors\<close>

definition classify_database_error :: "sqlx_error \<Rightarrow> request_failure" where
  "classify_database_error err =
     (case sqlstate err of
        Some code \<Rightarrow>
          if code = ''22023'' then DatabaseInputRejected err
          else if code = ''42501'' then AuthorityRejected err
          else if code = ''P0003'' then DatabaseStale err
          else Storage err
      | None \<Rightarrow> Storage err)"

definition classify_create_database_error :: "sqlx_error \<Rightarrow> request_failure" where
  "classify_create_database_error err =
     (case sqlstate err of
        Some code \<Rightarrow>
          if code = ''22007'' \<or> code = ''22023'' then DatabaseInputRejected err
          else if code = ''42501'' then AuthorityRejected err
          else if code = ''P0002'' then DatabaseUnavailable err
          else if code = ''P0003'' then DatabaseStale err
          else if code = ''P0004'' then DatabaseIdempotencyConflict err
          else Storage err
      | None \<Rightarrow> Storage err)"

definition classify_list_database_error :: "sqlx_error \<Rightarrow> request_failure" where
  "classify_list_database_error err =
     (case sqlstate err of
        Some code \<Rightarrow>
          if code = ''22023'' then DatabaseInputRejected err
          else if code = ''42501'' then AuthorityRejected err
          else Storage err
      | None \<Rightarrow> Storage err)"

lemmas classify_defs = classify_database_error_def classify_create_database_error_def
  classify_list_database_error_def

text \<open>
  The contract the three classifiers share: every classifier keeps the error, maps an unknown
  or absent SQLSTATE to a storage failure, and never invents an authority decision.
\<close>

locale error_classifier =
  fixes classify :: "sqlx_error \<Rightarrow> request_failure"
  assumes authority: "sqlstate err = Some ''42501'' \<Longrightarrow> classify err = AuthorityRejected err"
    and input: "sqlstate err = Some ''22023'' \<Longrightarrow> classify err = DatabaseInputRejected err"
    and no_code: "sqlstate err = None \<Longrightarrow> classify err = Storage err"
    and shape: "classify err \<in> {Storage err, AuthorityRejected err, DatabaseInputRejected err,
                  DatabaseUnavailable err, DatabaseStale err, DatabaseIdempotencyConflict err}"
    and authority_only: "classify err = AuthorityRejected err \<Longrightarrow> sqlstate err = Some ''42501''"
begin

lemma unauthorized_iff:
  "fst (status_and_code (classify err)) = 401 \<longleftrightarrow> sqlstate err = Some ''42501''"
  using shape [of err] authority [of err] authority_only [of err] by auto

lemma status_range: "fst (status_and_code (classify err)) \<in> {400, 401, 404, 409, 503}"
  using shape [of err] by auto

lemma audited: "audit_outcome op (classify err) \<noteq> None \<or> op = ReadOp"
  using shape [of err] by (auto simp: audit_outcome_def)

end

interpretation read_errors: error_classifier classify_database_error
  by unfold_locales (auto simp: classify_defs split: option.splits if_splits)

interpretation write_errors: error_classifier classify_create_database_error
  by unfold_locales (auto simp: classify_defs split: option.splits if_splits)

interpretation list_errors: error_classifier classify_list_database_error
  by unfold_locales (auto simp: classify_defs split: option.splits if_splits)

end
