(* ===== verification/Digests.thy ===== *)
theory Digests
  imports Rust_Text "HOL-Library.Word"
begin

unbundle bit_operations_syntax

text \<open>
  Identifiers and digests (\<open>valid_opaque_id\<close>, \<open>mutation_request_digest\<close>,
  \<open>canonical_request_digest\<close>, \<open>new_request_id\<close> and \<open>deterministic_query_vector\<close> of
  \<open>src/src/lib.rs\<close>). SHA-256 comes from a library and is the parameter \<open>sha\<close>, a function from
  the hashed bytes to the digest; the theorems need no property of it. The framing of the hashed
  bytes and the formatting of numbers are modelled in full.
\<close>

section \<open>Opaque identifiers\<close>

definition opaque_byte :: "char \<Rightarrow> bool" where
  "opaque_byte c = (is_ascii_alphanumeric c \<or> c = CHR ''_'' \<or> c = CHR ''-'')"

definition valid_opaque_id :: "str \<Rightarrow> bool" where
  "valid_opaque_id value = (value \<noteq> [] \<and> length value \<le> 64 \<and> list_all opaque_byte value)"

text \<open>None of the characters that structure a query string or a path is an opaque byte.\<close>

lemma opaque_byte_not_structural:
  "opaque_byte c \<Longrightarrow> c \<notin> set ''&=/?#% ''"
  by (auto simp: opaque_byte_def byte_class_defs)

section \<open>Number formatting\<close>

definition digit_char :: "nat \<Rightarrow> char" where
  "digit_char d = (if d < 10 then char_of (48 + d) else char_of (87 + d))"

text \<open>The digits of a number in a base up to 16, most significant first.\<close>

fun radix_digits :: "nat \<Rightarrow> nat \<Rightarrow> str" where
  "radix_digits b n =
     (if n < b \<or> b < 2 then [digit_char n] else radix_digits b (n div b) @ [digit_char (n mod b)])"

declare radix_digits.simps [simp del]

definition zero_pad :: "nat \<Rightarrow> str \<Rightarrow> str" where
  "zero_pad w s = replicate (w - length s) (CHR ''0'') @ s"

definition hex_padded :: "nat \<Rightarrow> nat \<Rightarrow> str" where
  "hex_padded w n = zero_pad w (radix_digits 16 n)"

definition decimal :: "nat \<Rightarrow> str" where
  "decimal n = radix_digits 10 n"

text \<open>The inverse of formatting, used to state that formatting loses nothing.\<close>

definition digit_value :: "char \<Rightarrow> nat" where
  "digit_value c = (if byte c < 58 then byte c - 48 else byte c - 87)"

definition radix_value :: "nat \<Rightarrow> str \<Rightarrow> nat" where
  "radix_value b s = foldl (\<lambda>v c. v * b + digit_value c) 0 s"

lemma digit_value_char [simp]: "d < 16 \<Longrightarrow> digit_value (digit_char d) = d"
  by (simp add: digit_value_def digit_char_def)

lemma radix_value_append1 [simp]: "radix_value b (s @ [c]) = radix_value b s * b + digit_value c"
  by (simp add: radix_value_def)

lemma radix_value_digits: "2 \<le> b \<Longrightarrow> b \<le> 16 \<Longrightarrow> radix_value b (radix_digits b n) = n"
proof (induction b n rule: radix_digits.induct)
  case (1 b n)
  show ?case
  proof (cases "n < b")
    case True
    with "1.prems" show ?thesis
      by (subst radix_digits.simps) (simp add: radix_value_def)
  next
    case False
    have "n mod b < 16" using "1.prems" mod_less_divisor [of b n] by linarith
    with "1.IH" "1.prems" False show ?thesis
      by (subst radix_digits.simps) (simp add: not_less)
  qed
qed

lemma length_radix_digits:
  "2 \<le> b \<Longrightarrow> n < b ^ w \<Longrightarrow> 0 < w \<Longrightarrow> length (radix_digits b n) \<le> w"
proof (induction b n arbitrary: w rule: radix_digits.induct)
  case (1 b n)
  show ?case
  proof (cases "n < b")
    case True
    with "1.prems" show ?thesis by (subst radix_digits.simps) simp
  next
    case False
    then obtain v where v: "w = Suc v" "0 < v"
      using "1.prems" by (cases w; cases "w - 1") auto
    then have "n div b < b ^ v"
      using "1.prems" by (simp add: less_mult_imp_div_less mult.commute)
    then have "length (radix_digits b (n div b)) \<le> v"
      using "1.IH" "1.prems"(1) False v(2) by simp
    with v False "1.prems"(1) show ?thesis
      by (subst radix_digits.simps) simp
  qed
qed

lemma radix_value_zeros [simp]: "radix_value b (replicate k (CHR ''0'') @ s) = radix_value b s"
proof (induction k)
  case (Suc k)
  have "digit_value (CHR ''0'') = 0" by (simp add: digit_value_def)
  with Suc show ?case by (simp add: radix_value_def)
qed simp

lemma hex_padded_value [simp]: "radix_value 16 (hex_padded w n) = n"
  by (simp add: hex_padded_def zero_pad_def radix_value_digits)

lemma length_hex_padded: "n < 16 ^ w \<Longrightarrow> 0 < w \<Longrightarrow> length (hex_padded w n) = w"
  using length_radix_digits [of 16 n w] by (simp add: hex_padded_def zero_pad_def)

lemma hex_padded_inj: "hex_padded w m = hex_padded w n \<longleftrightarrow> m = n"
  by (metis hex_padded_value)

lemma decimal_value [simp]: "radix_value 10 (decimal n) = n"
  by (simp add: decimal_def radix_value_digits)

lemma decimal_inj: "decimal m = decimal n \<longleftrightarrow> m = n"
  by (metis decimal_value)

section \<open>Request digests\<close>

text \<open>\<open>u64::to_be_bytes\<close>.\<close>

definition u64_be :: "64 word \<Rightarrow> bytes" where
  "u64_be w = map (\<lambda>i. char_of (unat (drop_bit (8 * (7 - i)) w AND 255))) [0..<8]"

text \<open>The bytes \<open>Sha256::update\<close> receives, in order; \<open>finalize\<close> digests their concatenation.\<close>

definition hash_component :: "bytes \<Rightarrow> bytes \<Rightarrow> bytes" where
  "hash_component hasher component =
     (hasher @ u64_be (of_nat (length component))) @ component"

definition hash_components :: "bytes list \<Rightarrow> bytes" where
  "hash_components components = foldl hash_component [] components"

definition mutation_request_digest ::
    "(bytes \<Rightarrow> bytes) \<Rightarrow> str \<Rightarrow> str \<Rightarrow> bytes \<Rightarrow> bytes" where
  "mutation_request_digest sha method path body = sha (hash_components [method, path, body])"

definition canonical_request_digest :: "(bytes \<Rightarrow> bytes) \<Rightarrow> bytes \<Rightarrow> bytes" where
  "canonical_request_digest sha body =
     sha (hash_components [''POST'', ''/v1/memories'', body])"

lemma canonical_is_mutation_digest:
  "canonical_request_digest sha body = mutation_request_digest sha ''POST'' ''/v1/memories'' body"
  by (simp add: canonical_request_digest_def mutation_request_digest_def)

lemma length_u64_be [simp]: "length (u64_be w) = 8"
  by (simp add: u64_be_def)

lemma u64_be_inj: "u64_be v = u64_be w \<longleftrightarrow> v = w"
proof
  assume h: "u64_be v = u64_be w"
  have byte_eq: "drop_bit (8 * (7 - i)) v AND 255 = drop_bit (8 * (7 - i)) w AND 255"
    if "i < 8" for i
  proof -
    have lt: "unat (drop_bit (8 * (7 - i)) u AND 255) < 256" for u :: "64 word"
      using word_and_le1 [of "drop_bit (8 * (7 - i)) u" 255] by (simp add: word_le_nat_alt)
    have "u64_be v ! i = u64_be w ! i" using h by simp
    with that have "(char_of (unat (drop_bit (8 * (7 - i)) v AND 255)) :: char)
        = char_of (unat (drop_bit (8 * (7 - i)) w AND 255))"
      by (simp add: u64_be_def)
    then have "unat (drop_bit (8 * (7 - i)) v AND 255) = unat (drop_bit (8 * (7 - i)) w AND 255)"
      using lt [of v] lt [of w] by (metis of_char_of mod_less)
    then show ?thesis by (rule unsigned_word_eqI)
  qed
  show "v = w"
  proof (rule bit_word_eqI)
    fix n assume n: "n < LENGTH(64)"
    let ?i = "7 - n div 8"
    have i: "8 * (7 - ?i) + n mod 8 = n" using n by simp
    have b: "bit (255 :: 64 word) (n mod 8)"
      using bit_mask_iff [of 8 "n mod 8", where 'a = "64 word"] by (simp add: mask_eq_exp_minus_1)
    have "bit (drop_bit (8 * (7 - ?i)) v AND 255) (n mod 8)
        = bit (drop_bit (8 * (7 - ?i)) w AND 255) (n mod 8)"
      using byte_eq [of ?i] by simp
    with b i show "bit v n = bit w n"
      by (simp only: bit_and_iff bit_drop_bit_eq o_def add.commute simp_thms)
  qed
qed simp

lemma unat_of_length: "n < 2 ^ 64 \<Longrightarrow> unat (of_nat n :: 64 word) = n"
  by (rule of_nat_inverse) simp_all

lemma framed_append_inj:
  assumes "u64_be (of_nat (length a)) @ a @ r = u64_be (of_nat (length b)) @ b @ s"
    and "length a < 2 ^ 64" "length b < 2 ^ 64"
  shows "a = b \<and> r = s"
proof -
  have "u64_be (of_nat (length a)) = u64_be (of_nat (length b)) \<and> a @ r = b @ s"
    using assms(1) by (subst (asm) append_eq_append_conv) simp_all
  then have eq: "(of_nat (length a) :: 64 word) = of_nat (length b)" and rest: "a @ r = b @ s"
    by (simp_all only: u64_be_inj)
  have "length a = length b"
    using unat_of_length [OF assms(2)] unat_of_length [OF assms(3)] unfolding eq by (rule trans [OF sym])
  with rest show ?thesis by simp
qed

lemma hash_components_3:
  "hash_components [a, b, c] =
     u64_be (of_nat (length a)) @ a @ u64_be (of_nat (length b)) @ b
       @ u64_be (of_nat (length c)) @ c"
  by (simp add: hash_components_def hash_component_def)

text \<open>
  C26. The bytes a request digest is computed from determine the method, the path and the canonical
  body: for components shorter than 2^64 bytes, two requests with the same digest are the same
  request, or their framed encodings are two different byte strings with the same SHA-256 value.
  No choice of path or body can imitate another request by shifting a component boundary.
\<close>

theorem request_digest_binds_request:
  assumes "length m < 2 ^ 64" "length p < 2 ^ 64" "length b < 2 ^ 64"
    and "length m' < 2 ^ 64" "length p' < 2 ^ 64" "length b' < 2 ^ 64"
    and "mutation_request_digest sha m p b = mutation_request_digest sha m' p' b'"
  shows "(m, p, b) = (m', p', b')
    \<or> hash_components [m, p, b] \<noteq> hash_components [m', p', b']
      \<and> sha (hash_components [m, p, b]) = sha (hash_components [m', p', b'])"
proof (cases "hash_components [m, p, b] = hash_components [m', p', b']")
  case True
  then have eq: "u64_be (of_nat (length m)) @ m
        @ (u64_be (of_nat (length p)) @ p @ (u64_be (of_nat (length b)) @ b))
      = u64_be (of_nat (length m')) @ m'
        @ (u64_be (of_nat (length p')) @ p' @ (u64_be (of_nat (length b')) @ b'))"
    unfolding hash_components_3 by simp
  note 1 = framed_append_inj [OF eq assms(1,4)]
  note 2 = framed_append_inj [OF conjunct2 [OF 1] assms(2,5)]
  from 2 have "u64_be (of_nat (length b)) @ b @ [] = u64_be (of_nat (length b')) @ b' @ []"
    by simp
  from framed_append_inj [OF this assms(3,6)] 1 2 show ?thesis by blast
next
  case False
  with assms(7) show ?thesis by (simp add: mutation_request_digest_def)
qed

theorem request_digest_binds_request_witness:
  "(''PUT'', ''/v1/items/a'', ''{}'') = (''PUT'', ''/v1/items/a'', ''{}'')
    \<or> hash_components [''PUT'', ''/v1/items/a'', ''{}''] \<noteq> hash_components [''PUT'', ''/v1/items/a'', ''{}'']
      \<and> rev (hash_components [''PUT'', ''/v1/items/a'', ''{}''])
         = rev (hash_components [''PUT'', ''/v1/items/a'', ''{}''])"
  by (rule request_digest_binds_request [where sha = rev]) simp_all

section \<open>Request identifiers\<close>

text \<open>
  \<open>new_request_id\<close>: the low 64 bits of the clock in nanoseconds (0 for a clock before the epoch)
  above the process-wide request counter, formatted as five groups of hexadecimal digits. The
  counter is the state: \<open>fetch_add\<close> returns the old value and wraps at 2^64.
\<close>

definition request_value :: "128 word \<Rightarrow> 64 word \<Rightarrow> 128 word" where
  "request_value nanos sequence = (push_bit 64 (nanos AND mask 64)) OR ucast sequence"

definition format_request_id :: "128 word \<Rightarrow> str" where
  "format_request_id value =
     hex_padded 8 (unat (drop_bit 96 value)) @ ''-''
     @ hex_padded 4 (unat (drop_bit 80 value AND 0xffff)) @ ''-''
     @ hex_padded 4 (unat (drop_bit 64 value AND 0xffff)) @ ''-''
     @ hex_padded 4 (unat (drop_bit 48 value AND 0xffff)) @ ''-''
     @ hex_padded 12 (unat (value AND 0xffffffffffff))"

definition new_request_id :: "128 word option \<Rightarrow> 64 word \<Rightarrow> str \<times> 64 word" where
  "new_request_id since_epoch counter =
     (format_request_id
        (request_value (case since_epoch of None \<Rightarrow> 0 | Some nanos \<Rightarrow> nanos) counter),
      counter + 1)"

definition deterministic_query_vector :: "(bytes \<Rightarrow> bytes) \<Rightarrow> str \<Rightarrow> str" where
  "deterministic_query_vector sha query =
     (let digest = sha query in
      ''['' @ decimal (byte (digest ! 0) + 1) @ '','' @ decimal (byte (digest ! 1) + 1) @ '',''
        @ decimal (byte (digest ! 2) + 1) @ '']'')"

lemma request_value_nat:
  "unat (request_value n s) = unat n mod 2 ^ 64 * 2 ^ 64 + unat s"
proof -
  have s: "unat s < 2 ^ 64" using unsigned_less [of s] by simp
  have m: "unat (n AND mask 64) = unat n mod 2 ^ 64"
    by (simp only: take_bit_eq_mask [symmetric] unsigned_take_bit_eq take_bit_eq_mod [of _ "unat n"])
  have "push_bit 64 (n AND mask 64) AND (ucast s :: 128 word) = 0"
    by (rule bit_word_eqI) (auto simp: bit_simps dest: bit_imp_le_length)
  then have v: "request_value n s = push_bit 64 (n AND mask 64) + ucast s"
    by (simp add: request_value_def disjunctive_add_eq_or)
  have p: "unat (push_bit 64 (n AND mask 64)) = unat n mod 2 ^ 64 * 2 ^ 64"
  proof -
    have "unat n mod 2 ^ 64 * 2 ^ 64 < (2::nat) ^ 128"
      using mod_less_divisor [of "2 ^ 64" "unat n"] by simp
    then have "take_bit 128 (push_bit 64 (unat n mod 2 ^ 64)) = unat n mod 2 ^ 64 * 2 ^ 64"
      by (simp only: push_bit_eq_mult take_bit_eq_mod mod_less)
    then show ?thesis
      by (subst unsigned_push_bit_eq) (simp add: m del: unsigned_take_bit_eq)
  qed
  have u: "unat (ucast s :: 128 word) = unat s"
    using s by (simp add: unsigned_ucast_eq take_bit_nat_eq_self)
  have "unat n mod 2 ^ 64 * 2 ^ 64 + unat s < 2 ^ 128"
    using s mod_less_divisor [of "2 ^ 64" "unat n"] by simp
  then show ?thesis
    unfolding v unat_word_ariths p u by simp
qed

text \<open>The five groups as numbers.\<close>

definition id_groups :: "nat \<Rightarrow> nat list" where
  "id_groups v = [v div 2 ^ 96, v div 2 ^ 80 mod 2 ^ 16, v div 2 ^ 64 mod 2 ^ 16,
                  v div 2 ^ 48 mod 2 ^ 16, v mod 2 ^ 48]"

lemma div_step: "(v::nat) div 2 ^ k = v div 2 ^ (k + j) * 2 ^ j + v div 2 ^ k mod 2 ^ j"
proof -
  have "v div 2 ^ (k + j) = v div 2 ^ k div 2 ^ j"
    by (simp add: power_add div_mult2_eq)
  then show ?thesis by (simp only: div_mult_mod_eq)
qed

lemma id_groups_inj: "id_groups v = id_groups w \<longleftrightarrow> v = w"
proof
  assume h: "id_groups v = id_groups w"
  have "v div 2 ^ 80 = w div 2 ^ 80"
    using h div_step [of v 80 16] div_step [of w 80 16] by (simp add: id_groups_def)
  then have "v div 2 ^ 64 = w div 2 ^ 64"
    using h div_step [of v 64 16] div_step [of w 64 16] by (simp add: id_groups_def)
  then have "v div 2 ^ 48 = w div 2 ^ 48"
    using h div_step [of v 48 16] div_step [of w 48 16] by (simp add: id_groups_def)
  then show "v = w"
    using h div_step [of v 0 48] div_step [of w 0 48] by (simp add: id_groups_def)
qed simp

lemma unat_group: "unat (drop_bit k (v :: 128 word) AND 0xffff) = unat v div 2 ^ k mod 2 ^ 16"
proof -
  have "(0xffff :: 128 word) = mask 16" by (simp add: mask_eq_exp_minus_1)
  then have "unat (drop_bit k v AND 0xffff) = take_bit 16 (unat (drop_bit k v))"
    by (simp only: take_bit_eq_mask [symmetric] unsigned_take_bit_eq)
  moreover have "unat (drop_bit k v) = drop_bit k (unat v)"
    by (rule unat_drop_bit_eq)
  ultimately show ?thesis
    by (simp only: take_bit_eq_mod drop_bit_eq_div)
qed

lemma format_request_id_groups:
  "format_request_id v =
     hex_padded 8 (unat v div 2 ^ 96) @ ''-'' @ hex_padded 4 (unat v div 2 ^ 80 mod 2 ^ 16) @ ''-''
       @ hex_padded 4 (unat v div 2 ^ 64 mod 2 ^ 16) @ ''-''
       @ hex_padded 4 (unat v div 2 ^ 48 mod 2 ^ 16) @ ''-'' @ hex_padded 12 (unat v mod 2 ^ 48)"
proof -
  have "(0xffffffffffff :: 128 word) = mask 48" by (simp add: mask_eq_exp_minus_1)
  then have e: "unat (v AND 0xffffffffffff) = unat v mod 2 ^ 48"
    by (simp only: take_bit_eq_mask [symmetric] unsigned_take_bit_eq take_bit_eq_mod [of _ "unat v"])
  have a: "unat (drop_bit 96 v) = unat v div 2 ^ 96"
    by (simp only: unat_drop_bit_eq drop_bit_eq_div [of _ "unat v"])
  show ?thesis
    unfolding format_request_id_def unat_group e a by (rule refl)
qed

lemma id_group_bounds:
  "unat (v :: 128 word) div 2 ^ 96 < 16 ^ 8" "u div 2 ^ k mod 2 ^ 16 < (16::nat) ^ 4"
  "u mod 2 ^ 48 < (16::nat) ^ 12"
proof -
  have "unat v < 2 ^ 96 * 16 ^ 8" using unsigned_less [of v] by simp
  then show "unat v div 2 ^ 96 < 16 ^ 8"
    by (intro less_mult_imp_div_less) (simp add: mult.commute)
  show "u div 2 ^ k mod 2 ^ 16 < (16::nat) ^ 4" "u mod 2 ^ 48 < (16::nat) ^ 12"
    using mod_less_divisor [of "2 ^ 16" "u div 2 ^ k"] mod_less_divisor [of "2 ^ 48" u] by simp_all
qed

lemma length_id_groups:
  "length (hex_padded 8 (unat (v :: 128 word) div 2 ^ 96)) = 8"
  "length (hex_padded 4 (u div 2 ^ k mod 2 ^ 16)) = 4"
  "length (hex_padded 12 (u mod 2 ^ 48)) = 12"
  by (rule length_hex_padded, rule id_group_bounds, simp)+

lemma length_format_request_id: "length (format_request_id v) = 36"
  unfolding format_request_id_groups by (simp only: length_append length_id_groups) simp

lemma format_request_id_inj: "format_request_id v = format_request_id w \<longleftrightarrow> v = w"
proof
  assume h: "format_request_id v = format_request_id w"
  have "id_groups (unat v) = id_groups (unat w)"
    using h unfolding format_request_id_groups id_groups_def
    by (simp only: append_eq_append_conv length_id_groups length_append hex_padded_inj simp_thms)
  then have "unat v = unat w" by (simp only: id_groups_inj)
  then show "v = w" by (rule unsigned_word_eqI)
qed simp

text \<open>
  A request identifier has 36 characters and determines both the clock value it was made from,
  modulo 2^64, and the sequence number: two identifiers are equal exactly when both agree. As the
  counter advances by one per request, identifiers of one process repeat only when 2^64 requests
  later the clock shows the same nanosecond.
\<close>

theorem request_id_unique:
  "length (fst (new_request_id t c)) = 36
   \<and> snd (new_request_id t c) = c + 1
   \<and> (fst (new_request_id (Some n) c) = fst (new_request_id (Some n') c')
        \<longleftrightarrow> unat n mod 2 ^ 64 = unat n' mod 2 ^ 64 \<and> c = c')"
proof -
  have "request_value n c = request_value n' c'
      \<longleftrightarrow> unat n mod 2 ^ 64 = unat n' mod 2 ^ 64 \<and> c = c'"
  proof
    assume "request_value n c = request_value n' c'"
    then have h: "unat n mod 2 ^ 64 * 2 ^ 64 + unat c = unat n' mod 2 ^ 64 * 2 ^ 64 + unat c'"
      by (metis request_value_nat)
    have lt: "unat c < 2 ^ 64" "unat c' < 2 ^ 64"
      using unsigned_less [of c] unsigned_less [of c'] by simp_all
    have "unat n mod 2 ^ 64 = unat n' mod 2 ^ 64"
      using arg_cong [OF h, where f = "\<lambda>x. x div 2 ^ 64"] lt by simp
    moreover from this h have "unat c = unat c'" by (simp only: add_left_cancel)
    ultimately show "unat n mod 2 ^ 64 = unat n' mod 2 ^ 64 \<and> c = c'"
      by (blast intro: unsigned_word_eqI)
  next
    assume "unat n mod 2 ^ 64 = unat n' mod 2 ^ 64 \<and> c = c'"
    then have "unat (request_value n c) = unat (request_value n' c')"
      by (simp only: request_value_nat)
    then show "request_value n c = request_value n' c'" by (rule unsigned_word_eqI)
  qed
  then show ?thesis
    by (simp add: new_request_id_def length_format_request_id format_request_id_inj)
qed

end
