(* ===== verification/Query_Params.thy ===== *)
theory Query_Params
  imports Failures Digests
begin

text \<open>
  The query strings of the read routes (\<open>parse_list_query\<close>, \<open>parse_read_query\<close>, \<open>TimeMode\<close> and
  \<open>ReadQuery\<close> of \<open>src/src/lib.rs\<close>). Both parsers fold a step over the parameters between the
  ampersands and stop at the first error; the locale \<open>parameter_fold\<close> carries an invariant of
  the parsed state through such a fold.
\<close>

section \<open>Folding over parameters\<close>

fun try_fold :: "('s \<Rightarrow> 'a \<Rightarrow> 'e + 's) \<Rightarrow> 's \<Rightarrow> 'a list \<Rightarrow> 'e + 's" where
  "try_fold f s [] = Inr s"
| "try_fold f s (x # xs) = res_bind (f s x) (\<lambda>s'. try_fold f s' xs)"

locale parameter_fold =
  fixes step :: "'s \<Rightarrow> str \<Rightarrow> 'e + 's"
    and inv :: "'s \<Rightarrow> bool"
  assumes step_inv: "inv s \<Longrightarrow> step s p = Inr s' \<Longrightarrow> inv s'"
begin

lemma fold_inv: "inv s \<Longrightarrow> try_fold step s ps = Inr s' \<Longrightarrow> inv s'"
  by (induction ps arbitrary: s) (auto simp: result_simps dest: step_inv)

end

lemma try_fold_append:
  "try_fold f s (xs @ ys) = res_bind (try_fold f s xs) (\<lambda>s'. try_fold f s' ys)"
proof (induction xs arbitrary: s)
  case (Cons x xs)
  then show ?case by (cases "f s x") simp_all
qed simp

fun join_with :: "char \<Rightarrow> str list \<Rightarrow> str" where
  "join_with d [] = []"
| "join_with d [p] = p"
| "join_with d (p # q # ps) = p @ d # join_with d (q # ps)"

lemma split_on_join:
  "ps \<noteq> [] \<Longrightarrow> \<forall>p\<in>set ps. d \<notin> set p \<Longrightarrow> split_on d (join_with d ps) = ps"
  by (induction d ps rule: join_with.induct) (simp_all add: split_on_no_sep split_on_append)

section \<open>The list query\<close>

text \<open>The parsed limit and cursor, each absent until its parameter is seen.\<close>

type_synonym list_params = "int option \<times> str option"

text \<open>One iteration of the loop; \<open>Inl ()\<close> is its \<open>return None\<close>.\<close>

definition list_param :: "list_params \<Rightarrow> str \<Rightarrow> unit + list_params" where
  "list_param st parameter =
     (case st of (limit, cursor) \<Rightarrow>
        case split_once (CHR ''='') parameter of
          None \<Rightarrow> Inl ()
        | Some (name, value) \<Rightarrow>
            if name = ''limit'' \<and> limit = None then
              (case parse_i32 value of
                 None \<Rightarrow> Inl ()
               | Some parsed \<Rightarrow>
                   if \<not> (1 \<le> parsed \<and> parsed \<le> 100) then Inl ()
                   else Inr (Some parsed, cursor))
            else if name = ''cursor'' \<and> cursor = None \<and> length value = 32
                    \<and> list_all is_ascii_hexdigit value then
              Inr (limit, Some (to_ascii_lowercase value))
            else Inl ())"

definition parse_list_query :: "str option \<Rightarrow> (int \<times> str option) option" where
  "parse_list_query query =
     (case query of
        None \<Rightarrow> Some (20, None)
      | Some q \<Rightarrow>
          if q = [] then None
          else
            case try_fold list_param (None, None) (split_on (CHR ''&'') q) of
              Inl _ \<Rightarrow> None
            | Inr (limit, cursor) \<Rightarrow>
                Some (case limit of None \<Rightarrow> 20 | Some l \<Rightarrow> l, cursor))"

definition list_params_ok :: "list_params \<Rightarrow> bool" where
  "list_params_ok st =
     (case st of (limit, cursor) \<Rightarrow>
        (case limit of None \<Rightarrow> True | Some l \<Rightarrow> 1 \<le> l \<and> l \<le> 100)
        \<and> (case cursor of None \<Rightarrow> True
           | Some c \<Rightarrow> length c = 32 \<and> list_all is_ascii_hexdigit c \<and> to_ascii_lowercase c = c))"

lemma to_ascii_lowercase_idem [simp]: "to_ascii_lowercase (to_ascii_lowercase s) = to_ascii_lowercase s"
  by (simp add: to_ascii_lowercase_def)

lemma hexdigits_lowercase:
  "list_all is_ascii_hexdigit s \<Longrightarrow> list_all is_ascii_hexdigit (to_ascii_lowercase s)"
  by (auto simp: to_ascii_lowercase_def list_all_iff to_lower_hexdigit)

interpretation list_query: parameter_fold list_param list_params_ok
  by unfold_locales
    (auto simp: list_params_ok_def list_param_def hexdigits_lowercase
      split: prod.splits option.splits if_splits)

text \<open>The decimal text of a number parses back.\<close>

lemma digits_value_append:
  "digits_value acc (s @ [c]) =
     (case digits_value acc s of
        None \<Rightarrow> None
      | Some v \<Rightarrow> if is_ascii_digit c then Some (v * 10 + (int (byte c) - 48)) else None)"
  by (induction s arbitrary: acc) auto

lemma digit_char_decimal: "d < 10 \<Longrightarrow> is_ascii_digit (digit_char d) \<and> byte (digit_char d) = 48 + d"
  by (simp add: digit_char_def is_ascii_digit_def)

lemma digits_value_radix: "digits_value 0 (radix_digits 10 n) = Some (int n)"
proof (induction "10::nat" n rule: radix_digits.induct)
  case (1 n)
  show ?case
  proof (cases "n < 10")
    case True
    then show ?thesis
      by (subst radix_digits.simps) (simp add: digit_char_decimal)
  next
    case False
    then have "digits_value 0 (radix_digits 10 (n div 10)) = Some (int (n div 10))"
      using 1 by simp
    moreover have "int (n div 10) * 10 + int (n mod 10) = int n"
      by (metis div_mult_mod_eq of_nat_add of_nat_mult of_nat_numeral)
    ultimately show ?thesis using False
      by (subst radix_digits.simps) (simp add: digits_value_append digit_char_decimal)
  qed
qed

lemma decimal_head: "\<exists>c cs. decimal n = c # cs \<and> is_ascii_digit c"
  unfolding decimal_def
proof (induction "10::nat" n rule: radix_digits.induct)
  case (1 n)
  show ?case
  proof (cases "n < 10")
    case True
    then show ?thesis by (subst radix_digits.simps) (simp add: digit_char_decimal)
  next
    case False
    with 1 obtain c cs where "radix_digits 10 (n div 10) = c # cs" "is_ascii_digit c" by auto
    with False show ?thesis by (subst radix_digits.simps) simp
  qed
qed

lemma parse_i32_decimal: "n < 2 ^ 31 \<Longrightarrow> parse_i32 (decimal n) = Some (int n)"
proof -
  assume "n < 2 ^ 31"
  then have "in_i32 (int n)" by (simp add: in_i32_def)
  moreover obtain c cs where c: "decimal n = c # cs" "is_ascii_digit c"
    using decimal_head by blast
  then have "c \<noteq> CHR ''+''" "c \<noteq> CHR ''-''" by (auto simp: is_ascii_digit_def)
  moreover have "unsigned_value (c # cs) = Some (int n)"
    using digits_value_radix [of n] c(1) by (simp add: unsigned_value_def decimal_def)
  ultimately show ?thesis by (simp add: parse_i32_def c(1))
qed

lemma decimal_no_separator: "c \<in> set (decimal n) \<Longrightarrow> is_ascii_digit c"
  unfolding decimal_def
proof (induction "10::nat" n rule: radix_digits.induct)
  case (1 n)
  then show ?case
    by (subst (asm) (2) radix_digits.simps) (auto simp: digit_char_decimal split: if_splits)
qed

text \<open>
  The list query, both ways. Whatever is accepted yields a limit between 1 and 100 (20 when it
  is absent) and, if present, a cursor of exactly 32 lower-case hexadecimal digits. Conversely the
  query \<open>limit=<n>&cursor=<c>\<close>, and either parameter alone, parse to exactly these values, with
  the cursor in lower case.
\<close>

theorem parse_list_query_correct:
  assumes "1 \<le> n" "n \<le> 100" and "length c = 32" "list_all is_ascii_hexdigit c"
  shows "(\<forall>q l k. parse_list_query q = Some (l, k) \<longrightarrow> list_params_ok (Some l, k))
    \<and> parse_list_query None = Some (20, None)
    \<and> parse_list_query (Some (''limit='' @ decimal n)) = Some (int n, None)
    \<and> parse_list_query (Some (''cursor='' @ c)) = Some (20, Some (to_ascii_lowercase c))
    \<and> parse_list_query (Some (''limit='' @ decimal n @ ''&cursor='' @ c))
        = Some (int n, Some (to_ascii_lowercase c))"
proof -
  have sound: "list_params_ok (Some l, k)" if h: "parse_list_query q = Some (l, k)" for q l k
  proof (cases q)
    case None
    with h show ?thesis by (simp add: parse_list_query_def list_params_ok_def)
  next
    case (Some t)
    with h obtain l' where
      f: "try_fold list_param (None, None) (split_on (CHR ''&'') t) = Inr (l', k)"
      and l: "l = (case l' of None \<Rightarrow> 20 | Some l \<Rightarrow> l)"
      by (auto simp: parse_list_query_def split: if_splits sum.splits)
    have "list_params_ok (l', k)"
      by (rule list_query.fold_inv [OF _ f]) (simp add: list_params_ok_def)
    then show ?thesis by (cases l') (simp_all add: list_params_ok_def l)
  qed
  have amp_n: "CHR ''&'' \<notin> set (''limit='' @ decimal n)"
    using decimal_no_separator [of "CHR ''&''" n] by (auto simp: is_ascii_digit_def)
  have amp_c: "CHR ''&'' \<notin> set (''cursor='' @ c)"
    using assms(4) by (auto simp: list_all_iff byte_class_defs)
  have p_n: "list_param (None, k) (''limit='' @ decimal n) = Inr (Some (int n), k)" for k
    using assms(1,2) split_once_append [of "CHR ''=''" "''limit''" "decimal n"]
    by (simp add: list_param_def parse_i32_decimal)
  have p_c: "list_param (l, None) (''cursor='' @ c) = Inr (l, Some (to_ascii_lowercase c))" for l
    using assms(3,4) split_once_append [of "CHR ''=''" "''cursor''" c]
    by (simp add: list_param_def)
  have "split_on (CHR ''&'') (''limit='' @ decimal n @ ''&cursor='' @ c)
      = [''limit='' @ decimal n, ''cursor='' @ c]"
    using split_on_append [OF amp_n, of "''cursor='' @ c"] split_on_no_sep [OF amp_c] by simp
  then show ?thesis
    using sound split_on_no_sep [OF amp_n] split_on_no_sep [OF amp_c] p_n p_c
    by (simp add: parse_list_query_def)
qed

theorem parse_list_query_correct_witness:
  "parse_list_query (Some (''limit='' @ decimal 7 @ ''&cursor='' @ replicate 32 (CHR ''A'')))
     = Some (7, Some (replicate 32 (CHR ''a'')))"
proof -
  have "list_all is_ascii_hexdigit (replicate 32 (CHR ''A''))"
    by (simp add: list_all_iff byte_class_defs)
  moreover have "to_ascii_lowercase (replicate 32 (CHR ''A'')) = replicate 32 (CHR ''a'')"
    by code_simp
  ultimately show ?thesis
    using parse_list_query_correct [of 7 "replicate 32 (CHR ''A'')"] by simp
qed

text \<open>
  What a list query says, without an order: at most one \<open>limit\<close> and at most one \<open>cursor\<close>, each
  with an acceptable value.
\<close>

definition limit_params :: "int option \<Rightarrow> str list \<Rightarrow> bool" where
  "limit_params limit ps =
     (case limit of
        None \<Rightarrow> ps = []
      | Some n \<Rightarrow> 1 \<le> n \<and> n \<le> 100 \<and> (\<exists>v. ps = [''limit='' @ v] \<and> parse_i32 v = Some n))"

definition cursor_params :: "str option \<Rightarrow> str list \<Rightarrow> bool" where
  "cursor_params cursor ps =
     (case cursor of
        None \<Rightarrow> ps = []
      | Some c \<Rightarrow> (\<exists>v. ps = [''cursor='' @ v] \<and> length v = 32 \<and> list_all is_ascii_hexdigit v
                    \<and> c = to_ascii_lowercase v))"

definition asks :: "str list \<Rightarrow> int option \<Rightarrow> str option \<Rightarrow> bool" where
  "asks ps limit cursor =
     (limit_params limit (filter (prefix ''limit='') ps)
      \<and> cursor_params cursor (filter (\<lambda>p. \<not> prefix ''limit='' p) ps))"

text \<open>One more parameter, read in a state.\<close>

lemma list_param_limit:
  "list_param (l, k) (''limit='' @ v) = Inr st \<longleftrightarrow>
     l = None \<and> (\<exists>n. parse_i32 v = Some n \<and> 1 \<le> n \<and> n \<le> 100 \<and> st = (Some n, k))"
  using split_once_append [of "CHR ''=''" "''limit''" v]
  by (auto simp: list_param_def split: option.splits)

lemma list_param_cursor:
  "list_param (l, k) (''cursor='' @ v) = Inr st \<longleftrightarrow>
     k = None \<and> length v = 32 \<and> list_all is_ascii_hexdigit v \<and> st = (l, Some (to_ascii_lowercase v))"
  using split_once_append [of "CHR ''=''" "''cursor''" v]
  by (auto simp: list_param_def)

lemma list_param_name:
  assumes "list_param (l, k) p = Inr st"
  shows "(\<exists>v. p = ''limit='' @ v) \<or> (\<exists>v. p = ''cursor='' @ v)"
proof -
  from assms obtain name v where s: "split_once (CHR ''='') p = Some (name, v)"
    and n: "name = ''limit'' \<or> name = ''cursor''"
    by (auto simp: list_param_def split: option.splits if_splits)
  have "p = name @ CHR ''='' # v" using s by (simp add: split_once_Some)
  with n show ?thesis by auto
qed

lemma limit_params_simps:
  "limit_params l [] \<longleftrightarrow> l = None"
  "limit_params l ((''limit='' @ v) # ps) \<longleftrightarrow>
     limit_params None ps \<and> (\<exists>n. parse_i32 v = Some n \<and> 1 \<le> n \<and> n \<le> 100 \<and> l = Some n)"
  by (auto simp: limit_params_def split: option.splits)

lemma cursor_params_simps:
  "cursor_params k [] \<longleftrightarrow> k = None"
  "cursor_params k ((''cursor='' @ v) # ps) \<longleftrightarrow>
     cursor_params None ps \<and> length v = 32 \<and> list_all is_ascii_hexdigit v
     \<and> k = Some (to_ascii_lowercase v)"
  by (auto simp: cursor_params_def split: option.splits)

lemma asks_simps:
  "asks [] l k \<longleftrightarrow> l = None \<and> k = None"
  "asks ((''limit='' @ v) # ps) l k \<longleftrightarrow>
     (\<exists>n. parse_i32 v = Some n \<and> 1 \<le> n \<and> n \<le> 100 \<and> l = Some n \<and> asks ps None k)"
  "asks ((''cursor='' @ v) # ps) l k \<longleftrightarrow>
     length v = 32 \<and> list_all is_ascii_hexdigit v \<and> k = Some (to_ascii_lowercase v)
     \<and> asks ps l None"
  using limit_params_simps cursor_params_simps by (auto simp: asks_def)

lemma asks_name:
  "asks (p # ps) l k \<Longrightarrow> (\<exists>v. p = ''limit='' @ v) \<or> (\<exists>v. p = ''cursor='' @ v)"
  by (cases "prefix ''limit='' p")
    (auto simp: asks_def cursor_params_def elim!: prefixE split: option.splits)

text \<open>A value found later, after one that was found before: at most one of them.\<close>

fun adds :: "'a option \<Rightarrow> 'a option \<Rightarrow> 'a option \<Rightarrow> bool" where
  "adds old None result = (result = old)"
| "adds old (Some x) result = (old = None \<and> result = Some x)"

lemma adds_None [simp]: "adds None new result \<longleftrightarrow> result = new"
  by (cases new) auto

lemma adds_Some: "adds (Some a) new result \<longleftrightarrow> new = None \<and> result = Some a"
  by (cases new) auto

lemma fold_asks:
  "try_fold list_param (l0, k0) ps = Inr (l, k) \<longleftrightarrow>
     (\<exists>l1 k1. asks ps l1 k1 \<and> adds l0 l1 l \<and> adds k0 k1 k)"
proof (induction ps arbitrary: l0 k0)
  case Nil
  then show ?case by (auto simp: asks_simps)
next
  case (Cons p ps)
  consider v where "p = ''limit='' @ v" | v where "p = ''cursor='' @ v"
    | "\<nexists>v. p = ''limit='' @ v" "\<nexists>v. p = ''cursor='' @ v"
    by blast
  then show ?case
  proof cases
    case (1 v)
    show ?thesis
      unfolding 1 asks_simps try_fold.simps res_bind_Inr list_param_limit
      by (cases l0) (auto simp: Cons.IH adds_Some)
  next
    case (2 v)
    show ?thesis
      unfolding 2 asks_simps try_fold.simps res_bind_Inr list_param_cursor
      by (cases k0) (auto simp: Cons.IH adds_Some)
  next
    case 3
    have "list_param (l0, k0) p \<noteq> Inr st" for st
      using list_param_name 3 by blast
    moreover have "\<not> asks (p # ps) l1 k1" for l1 k1
      using asks_name 3 by blast
    ultimately show ?thesis by (simp add: res_bind_Inr)
  qed
qed

text \<open>
  C28. The list query parser accepts exactly the documented queries, with exactly their meaning: no
  query at all asks for 20 entries from the start; otherwise the parameters between the ampersands
  are, in either order, at most one \<open>limit\<close> with the decimal text of a number from 1 to 100 and at
  most one \<open>cursor\<close> with 32 hexadecimal digits, which is passed on in lower case, and nothing
  else. An absent limit means 20; an empty query string and a repeated parameter are refused.
\<close>

theorem parse_list_query_exact:
  "parse_list_query q = Some (l, k) \<longleftrightarrow>
     (case q of
        None \<Rightarrow> l = 20 \<and> k = None
      | Some t \<Rightarrow>
          (\<exists>limit. asks (split_on (CHR ''&'') t) limit k
             \<and> l = (case limit of None \<Rightarrow> 20 | Some n \<Rightarrow> n)))"
proof (cases q)
  case None
  then show ?thesis by (auto simp: parse_list_query_def)
next
  case (Some t)
  have "\<not> asks [[]] limit k" for limit k
    using asks_name [of "[]" "[]"] by blast
  then have "t \<noteq> []" if "asks (split_on (CHR ''&'') t) limit k" for limit k
    using that by (cases t) auto
  moreover have "asks ps limit k \<longleftrightarrow> try_fold list_param (None, None) ps = Inr (limit, k)" for ps limit k
    by (simp add: fold_asks)
  ultimately show ?thesis
    using Some by (cases "try_fold list_param (None, None) (split_on (CHR ''&'') t)")
      (auto simp: parse_list_query_def)
qed

section \<open>The read query\<close>

datatype time_mode = Current | ValidOn | KnownAsOf

definition parse_time_mode :: "str \<Rightarrow> time_mode option" where
  "parse_time_mode value =
     (if value = ''current'' then Some Current
      else if value = ''valid_on'' then Some ValidOn
      else if value = ''known_as_of'' then Some KnownAsOf
      else None)"

record read_query =
  expected_revision_id :: "str option"
  time_mode :: time_mode
  subject_ids :: "str list"

definition default_read_query :: read_query where
  "default_read_query = \<lparr>expected_revision_id = None, time_mode = Current, subject_ids = []\<rparr>"

text \<open>One iteration of the loop, on the parsed query and the flag \<open>time_mode_seen\<close>.\<close>

definition read_param ::
    "read_query \<times> bool \<Rightarrow> str \<Rightarrow> request_failure + read_query \<times> bool" where
  "read_param st parameter =
     (case st of (parsed, time_mode_seen) \<Rightarrow>
        case split_once (CHR ''='') parameter of
          None \<Rightarrow> Inl Malformed
        | Some (name, value) \<Rightarrow>
            if name = ''expected_revision_id'' \<and> expected_revision_id parsed = None then
              (if \<not> valid_opaque_id value then Inl Malformed
               else Inr (parsed\<lparr>expected_revision_id := Some value\<rparr>, time_mode_seen))
            else if name = ''time_mode'' \<and> \<not> time_mode_seen then
              (case parse_time_mode value of
                 None \<Rightarrow> Inl Malformed
               | Some mode \<Rightarrow> Inr (parsed\<lparr>time_mode := mode\<rparr>, True))
            else if name = ''subject_id'' \<and> length (subject_ids parsed) < 8 then
              (if \<not> valid_opaque_id value \<or> value \<in> set (subject_ids parsed) then Inl Malformed
               else Inr (parsed\<lparr>subject_ids := subject_ids parsed @ [value]\<rparr>, time_mode_seen))
            else Inl Malformed)"

definition parse_read_query :: "str option \<Rightarrow> request_failure + read_query" where
  "parse_read_query query =
     (case query of
        None \<Rightarrow> Inr default_read_query
      | Some q \<Rightarrow>
          if q = [] \<or> length q > 1024 then Inl Malformed
          else
            res_bind (try_fold read_param (default_read_query, False) (split_on (CHR ''&'') q))
              (\<lambda>(parsed, _).
                 if time_mode parsed \<noteq> Current then Inl UnsupportedTimeSemantics
                 else Inr parsed))"

definition read_params_ok :: "read_query \<Rightarrow> bool" where
  "read_params_ok r =
     ((case expected_revision_id r of None \<Rightarrow> True | Some e \<Rightarrow> valid_opaque_id e)
      \<and> length (subject_ids r) \<le> 8 \<and> distinct (subject_ids r)
      \<and> list_all valid_opaque_id (subject_ids r))"

interpretation read_query: parameter_fold read_param "\<lambda>st. read_params_ok (fst st)"
  by unfold_locales
    (auto simp: read_params_ok_def read_param_def split: prod.splits option.splits if_splits)

text \<open>The query string a client writes for given selectors.\<close>

definition read_query_params :: "read_query \<Rightarrow> str list" where
  "read_query_params r =
     (case expected_revision_id r of None \<Rightarrow> [] | Some e \<Rightarrow> [''expected_revision_id='' @ e])
     @ map (\<lambda>s. ''subject_id='' @ s) (subject_ids r)"

lemma opaque_id_no_separator: "valid_opaque_id s \<Longrightarrow> CHR ''&'' \<notin> set s"
  using opaque_byte_not_structural by (fastforce simp: valid_opaque_id_def list_all_iff)

lemma read_param_revision:
  "expected_revision_id r = None \<Longrightarrow> valid_opaque_id e \<Longrightarrow>
     read_param (r, b) (''expected_revision_id='' @ e) = Inr (r\<lparr>expected_revision_id := Some e\<rparr>, b)"
  using split_once_append [of "CHR ''=''" "''expected_revision_id''" e]
  by (simp add: read_param_def)

lemma read_param_subject:
  "length (subject_ids r) < 8 \<Longrightarrow> valid_opaque_id s \<Longrightarrow> s \<notin> set (subject_ids r) \<Longrightarrow>
     read_param (r, b) (''subject_id='' @ s) = Inr (r\<lparr>subject_ids := subject_ids r @ [s]\<rparr>, b)"
  using split_once_append [of "CHR ''=''" "''subject_id''" s]
  by (simp add: read_param_def)

lemma read_subjects_fold:
  "length (subject_ids r) + length ss \<le> 8 \<Longrightarrow> distinct (subject_ids r @ ss) \<Longrightarrow>
   list_all valid_opaque_id ss \<Longrightarrow>
     try_fold read_param (r, b) (map (\<lambda>s. ''subject_id='' @ s) ss)
       = Inr (r\<lparr>subject_ids := subject_ids r @ ss\<rparr>, b)"
proof (induction ss arbitrary: r)
  case (Cons s ss)
  let ?r = "r\<lparr>subject_ids := subject_ids r @ [s]\<rparr>"
  have "read_param (r, b) (''subject_id='' @ s) = Inr (?r, b)"
    using Cons.prems by (intro read_param_subject) simp_all
  moreover have "try_fold read_param (?r, b) (map (\<lambda>s. ''subject_id='' @ s) ss)
      = Inr (?r\<lparr>subject_ids := subject_ids ?r @ ss\<rparr>, b)"
    using Cons.prems by (intro Cons.IH) simp_all
  ultimately show ?case by simp
qed simp

text \<open>
  What a read query says, without an order between its kinds of parameters: the values of the
  parameters of one name, in order, and that there is no other parameter.
\<close>

definition values_of :: "str \<Rightarrow> str list \<Rightarrow> str list" where
  "values_of name ps = map (drop (length name + 1)) (filter (prefix (name @ ''='')) ps)"

definition known_parameter :: "str \<Rightarrow> bool" where
  "known_parameter p =
     (prefix ''expected_revision_id='' p \<or> prefix ''time_mode='' p \<or> prefix ''subject_id='' p)"

lemma read_param_time:
  "read_param (s, seen) (''time_mode='' @ v) = Inr st \<longleftrightarrow>
     \<not> seen \<and> (\<exists>m. parse_time_mode v = Some m \<and> st = (s\<lparr>time_mode := m\<rparr>, True))"
  using split_once_append [of "CHR ''=''" "''time_mode''" v]
  by (auto simp: read_param_def split: option.splits)

lemma read_param_expected:
  "read_param (s, seen) (''expected_revision_id='' @ v) = Inr st \<longleftrightarrow>
     expected_revision_id s = None \<and> valid_opaque_id v
     \<and> st = (s\<lparr>expected_revision_id := Some v\<rparr>, seen)"
  using split_once_append [of "CHR ''=''" "''expected_revision_id''" v]
  by (auto simp: read_param_def)

lemma read_param_subjects:
  "read_param (s, seen) (''subject_id='' @ v) = Inr st \<longleftrightarrow>
     length (subject_ids s) < 8 \<and> valid_opaque_id v \<and> v \<notin> set (subject_ids s)
     \<and> st = (s\<lparr>subject_ids := subject_ids s @ [v]\<rparr>, seen)"
  using split_once_append [of "CHR ''=''" "''subject_id''" v]
  by (auto simp: read_param_def)

lemma read_param_known:
  assumes "read_param (s, seen) p = Inr st"
  shows "known_parameter p"
proof -
  from assms obtain name v where "split_once (CHR ''='') p = Some (name, v)"
    and n: "name = ''expected_revision_id'' \<or> name = ''time_mode'' \<or> name = ''subject_id''"
    by (auto simp: read_param_def split: option.splits if_splits)
  then have "p = name @ CHR ''='' # v" by (simp add: split_once_Some)
  with n show ?thesis by (auto simp: known_parameter_def)
qed

text \<open>The parameters left over, read in the state \<open>(s, seen)\<close>, end in \<open>(r, seen')\<close>.\<close>

definition adds_revision :: "str option \<Rightarrow> str list \<Rightarrow> str option \<Rightarrow> bool" where
  "adds_revision old vs new =
     (list_all valid_opaque_id vs \<and> (if vs = [] then new = old else old = None \<and> vs = [hd vs] \<and> new = Some (hd vs)))"

definition adds_mode :: "time_mode \<times> bool \<Rightarrow> str list \<Rightarrow> time_mode \<times> bool \<Rightarrow> bool" where
  "adds_mode old vs new =
     (if vs = [] then new = old
      else \<not> snd old \<and> vs = [hd vs] \<and> parse_time_mode (hd vs) = Some (fst new) \<and> snd new)"

definition adds_subjects :: "str list \<Rightarrow> str list \<Rightarrow> str list \<Rightarrow> bool" where
  "adds_subjects old vs new =
     (new = old @ vs \<and> list_all valid_opaque_id vs \<and> distinct new \<and> length new \<le> 8)"

definition reads ::
    "str list \<Rightarrow> read_query \<times> bool \<Rightarrow> read_query \<times> bool \<Rightarrow> bool" where
  "reads ps st st' =
     (list_all known_parameter ps
      \<and> adds_revision (expected_revision_id (fst st)) (values_of ''expected_revision_id'' ps)
           (expected_revision_id (fst st'))
      \<and> adds_mode (time_mode (fst st), snd st) (values_of ''time_mode'' ps)
           (time_mode (fst st'), snd st')
      \<and> adds_subjects (subject_ids (fst st)) (values_of ''subject_id'' ps) (subject_ids (fst st')))"

lemma values_expected:
  "values_of ''expected_revision_id'' ((''expected_revision_id='' @ v) # ps)
     = v # values_of ''expected_revision_id'' ps"
  "values_of ''time_mode'' ((''expected_revision_id='' @ v) # ps) = values_of ''time_mode'' ps"
  "values_of ''subject_id'' ((''expected_revision_id='' @ v) # ps) = values_of ''subject_id'' ps"
  "known_parameter (''expected_revision_id='' @ v) = True"
  by (simp_all add: values_of_def known_parameter_def)

lemma values_mode:
  "values_of ''expected_revision_id'' ((''time_mode='' @ v) # ps)
     = values_of ''expected_revision_id'' ps"
  "values_of ''time_mode'' ((''time_mode='' @ v) # ps) = v # values_of ''time_mode'' ps"
  "values_of ''subject_id'' ((''time_mode='' @ v) # ps) = values_of ''subject_id'' ps"
  "known_parameter (''time_mode='' @ v) = True"
  by (simp_all add: values_of_def known_parameter_def)

lemma values_subject:
  "values_of ''expected_revision_id'' ((''subject_id='' @ v) # ps)
     = values_of ''expected_revision_id'' ps"
  "values_of ''time_mode'' ((''subject_id='' @ v) # ps) = values_of ''time_mode'' ps"
  "values_of ''subject_id'' ((''subject_id='' @ v) # ps) = v # values_of ''subject_id'' ps"
  "known_parameter (''subject_id='' @ v) = True"
  by (simp_all add: values_of_def known_parameter_def)

lemma adds_Cons:
  "adds_revision old (v # vs) new \<longleftrightarrow>
     old = None \<and> valid_opaque_id v \<and> adds_revision (Some v) vs new"
  "adds_mode (m, seen) (v # vs) after \<longleftrightarrow>
     \<not> seen \<and> (\<exists>m. parse_time_mode v = Some m \<and> adds_mode (m, True) vs after)"
  by (cases vs; cases new; auto simp: adds_revision_def)
    (cases vs; cases after; auto simp: adds_mode_def)

lemma adds_subjects_Cons:
  "distinct old \<Longrightarrow> length old \<le> 8 \<Longrightarrow>
   adds_subjects old (v # vs) new \<longleftrightarrow>
     length old < 8 \<and> valid_opaque_id v \<and> v \<notin> set old \<and> adds_subjects (old @ [v]) vs new"
  by (auto simp: adds_subjects_def)

lemma reads_Nil:
  "distinct (subject_ids s) \<Longrightarrow> length (subject_ids s) \<le> 8 \<Longrightarrow> reads [] (s, seen) st \<longleftrightarrow> st = (s, seen)"
  by (cases st; cases s; cases "fst st")
    (auto simp: reads_def values_of_def adds_revision_def adds_mode_def adds_subjects_def)

lemma reads_Cons:
  assumes "distinct (subject_ids s)" "length (subject_ids s) \<le> 8"
  shows "reads ((''expected_revision_id='' @ v) # ps) (s, seen) st \<longleftrightarrow>
      expected_revision_id s = None \<and> valid_opaque_id v
      \<and> reads ps (s\<lparr>expected_revision_id := Some v\<rparr>, seen) st"
    and "reads ((''time_mode='' @ v) # ps) (s, seen) st \<longleftrightarrow>
      \<not> seen \<and> (\<exists>m. parse_time_mode v = Some m \<and> reads ps (s\<lparr>time_mode := m\<rparr>, True) st)"
    and "reads ((''subject_id='' @ v) # ps) (s, seen) st \<longleftrightarrow>
      length (subject_ids s) < 8 \<and> valid_opaque_id v \<and> v \<notin> set (subject_ids s)
      \<and> reads ps (s\<lparr>subject_ids := subject_ids s @ [v]\<rparr>, seen) st"
  by (simp_all only: reads_def list.pred_inject(2) values_expected values_mode values_subject
      adds_Cons adds_subjects_Cons [OF assms] fst_conv snd_conv) auto

lemma fold_reads:
  assumes "distinct (subject_ids s)" "length (subject_ids s) \<le> 8"
  shows "try_fold read_param (s, seen) ps = Inr st \<longleftrightarrow> reads ps (s, seen) st"
  using assms
proof (induction ps arbitrary: s seen)
  case Nil
  then show ?case by (auto simp: reads_Nil)
next
  case (Cons p ps)
  show ?case
  proof (cases "known_parameter p")
    case False
    then have "\<not> reads (p # ps) (s, seen) st" by (simp add: reads_def)
    moreover have "read_param (s, seen) p \<noteq> Inr st1" for st1
      using read_param_known False by blast
    ultimately show ?thesis by (simp add: res_bind_Inr)
  next
    case True
    then consider v where "p = ''expected_revision_id='' @ v" | v where "p = ''time_mode='' @ v"
      | v where "p = ''subject_id='' @ v"
      unfolding known_parameter_def by (auto elim!: prefixE)
    then show ?thesis
    proof cases
      case (1 v)
      show ?thesis
        unfolding 1 reads_Cons [OF Cons.prems] try_fold.simps res_bind_Inr read_param_expected
        using Cons.IH [of "s\<lparr>expected_revision_id := Some v\<rparr>"] Cons.prems by auto
    next
      case (2 v)
      show ?thesis
        unfolding 2 reads_Cons [OF Cons.prems] try_fold.simps res_bind_Inr read_param_time
        using Cons.IH Cons.prems by auto
    next
      case (3 v)
      show ?thesis
        unfolding 3 reads_Cons [OF Cons.prems] try_fold.simps res_bind_Inr read_param_subjects
        using Cons.IH [of "s\<lparr>subject_ids := subject_ids s @ [v]\<rparr>"] Cons.prems by auto
    qed
  qed
qed

text \<open>The selection a query string asks for, parameter by parameter.\<close>

definition selects :: "str list \<Rightarrow> read_query \<Rightarrow> bool" where
  "selects ps r =
     (list_all known_parameter ps
      \<and> values_of ''expected_revision_id'' ps
          = (case expected_revision_id r of None \<Rightarrow> [] | Some e \<Rightarrow> [e])
      \<and> values_of ''time_mode'' ps \<in> {[], [''current'']}
      \<and> values_of ''subject_id'' ps = subject_ids r
      \<and> time_mode r = Current \<and> read_params_ok r)"

lemma parse_time_current: "parse_time_mode v = Some Current \<longleftrightarrow> v = ''current''"
  by (simp add: parse_time_mode_def)

lemma reads_selects:
  "(\<exists>seen. reads ps (default_read_query, False) (r, seen)) \<and> time_mode r = Current \<longleftrightarrow> selects ps r"
proof -
  have "adds_revision None vs e \<longleftrightarrow>
      vs = (case e of None \<Rightarrow> [] | Some x \<Rightarrow> [x]) \<and> (\<forall>x. e = Some x \<longrightarrow> valid_opaque_id x)" for vs e
    by (cases vs; cases e) (auto simp: adds_revision_def)
  moreover have "(\<exists>seen. adds_mode (Current, False) vs (Current, seen)) \<longleftrightarrow> vs \<in> {[], [''current'']}" for vs
    by (cases vs) (auto simp: adds_mode_def parse_time_current)
  moreover have "adds_subjects [] vs ss \<longleftrightarrow>
      vs = ss \<and> list_all valid_opaque_id ss \<and> distinct ss \<and> length ss \<le> 8" for vs ss
    by (auto simp: adds_subjects_def)
  ultimately show ?thesis
    by (cases "time_mode r = Current")
      (auto simp: reads_def selects_def default_read_query_def read_params_ok_def split: option.splits)
qed

lemma parse_read_query_selects:
  "parse_read_query q = Inr r \<longleftrightarrow>
     (case q of
        None \<Rightarrow> r = default_read_query
      | Some t \<Rightarrow> length t \<le> 1024 \<and> selects (split_on (CHR ''&'') t) r)"
proof (cases q)
  case None
  then show ?thesis by (auto simp: parse_read_query_def)
next
  case (Some t)
  let ?ps = "split_on (CHR ''&'') t"
  have ne: "t \<noteq> []" if "selects ?ps r"
    using that by (cases t) (auto simp: selects_def known_parameter_def)
  have fold: "try_fold read_param (default_read_query, False) ?ps = Inr st
      \<longleftrightarrow> reads ?ps (default_read_query, False) st" for st
    by (rule fold_reads) (simp_all add: default_read_query_def)
  have "parse_read_query q = Inr r \<longleftrightarrow> t \<noteq> [] \<and> length t \<le> 1024
      \<and> (\<exists>seen. try_fold read_param (default_read_query, False) ?ps = Inr (r, seen))
      \<and> time_mode r = Current"
    using Some by (auto simp: parse_read_query_def res_bind_Inr split: if_splits)
  with ne reads_selects [of ?ps r] show ?thesis
    by (auto simp: Some fold)
qed

lemma parse_read_query_sound:
  assumes h: "parse_read_query q = Inr r'"
  shows "read_params_ok r' \<and> time_mode r' = Current"
proof -
  have d: "read_params_ok default_read_query"
    by (simp add: read_params_ok_def default_read_query_def)
  show "read_params_ok r' \<and> time_mode r' = Current"
  proof (cases q)
    case None
    with h d show ?thesis by (auto simp: parse_read_query_def default_read_query_def)
  next
    case (Some t)
    with h obtain seen where
      "try_fold read_param (default_read_query, False) (split_on (CHR ''&'') t) = Inr (r', seen)"
      and "time_mode r' = Current"
      by (auto simp: parse_read_query_def result_simps split: if_splits)
    with d show ?thesis
      using read_query.fold_inv [of "(default_read_query, False)"] by fastforce
  qed
qed

text \<open>
  C29. The read query, both ways. Every selection of current semantics, at most one revision and at
  most eight distinct subjects, all well-formed identifiers, written as a query string of at most
  1024 bytes, parses back to itself. And a query is accepted exactly when it is such a selection, its
  parameters in any order: each revision, mode and subject it names is a parameter of that name, no
  other parameter occurs, none but the subjects repeats, and the mode is absent or current. A missing
  query is the empty selection.
\<close>

theorem parse_read_query_roundtrip:
  assumes "read_params_ok r" and "time_mode r = Current" and "read_query_params r \<noteq> []"
    and "length (join_with (CHR ''&'') (read_query_params r)) \<le> 1024"
  shows "parse_read_query (Some (join_with (CHR ''&'') (read_query_params r))) = Inr r
    \<and> (\<forall>q r'. parse_read_query q = Inr r' \<longleftrightarrow>
          (case q of
             None \<Rightarrow> r' = default_read_query
           | Some t \<Rightarrow> length t \<le> 1024 \<and> selects (split_on (CHR ''&'') t) r'))"
proof
  let ?ps = "read_query_params r"
  let ?r0 = "default_read_query\<lparr>expected_revision_id := expected_revision_id r\<rparr>"
  have valid: "list_all valid_opaque_id (subject_ids r)" "length (subject_ids r) \<le> 8"
    "distinct (subject_ids r)"
    using assms(1) by (simp_all add: read_params_ok_def)
  have "CHR ''&'' \<notin> set p" if "p \<in> set ?ps" for p
    using that assms(1) opaque_id_no_separator
    by (auto simp: read_query_params_def read_params_ok_def list_all_iff split: option.splits)
  then have split: "split_on (CHR ''&'') (join_with (CHR ''&'') ?ps) = ?ps"
    using assms(3) by (intro split_on_join) auto
  then have ne: "join_with (CHR ''&'') ?ps \<noteq> []"
    using assms(3) by (cases ?ps; cases "tl ?ps")
      (auto simp: read_query_params_def split: option.splits)
  have "try_fold read_param (?r0, False) (map (\<lambda>s. ''subject_id='' @ s) (subject_ids r))
      = Inr (?r0\<lparr>subject_ids := subject_ids ?r0 @ subject_ids r\<rparr>, False)"
    using valid by (intro read_subjects_fold) (simp_all add: default_read_query_def)
  moreover have "?r0\<lparr>subject_ids := subject_ids ?r0 @ subject_ids r\<rparr> = r"
    using assms(2) by (simp add: default_read_query_def)
  moreover have "try_fold read_param (default_read_query, False)
      (case expected_revision_id r of None \<Rightarrow> [] | Some e \<Rightarrow> [''expected_revision_id='' @ e])
      = Inr (?r0, False)"
  proof (cases "expected_revision_id r")
    case (Some e)
    with assms(1) have "valid_opaque_id e" by (simp add: read_params_ok_def)
    then have "read_param (default_read_query, False) (''expected_revision_id='' @ e) = Inr (?r0, False)"
      using Some by (subst read_param_revision) (simp_all add: default_read_query_def)
    with Some show ?thesis by simp
  qed (simp add: default_read_query_def)
  ultimately have "try_fold read_param (default_read_query, False) ?ps = Inr (r, False)"
    by (simp add: read_query_params_def try_fold_append)
  with assms(2,4) split ne show "parse_read_query (Some (join_with (CHR ''&'') ?ps)) = Inr r"
    by (simp add: parse_read_query_def)
  show "\<forall>q r'. parse_read_query q = Inr r' \<longleftrightarrow>
      (case q of
         None \<Rightarrow> r' = default_read_query
       | Some t \<Rightarrow> length t \<le> 1024 \<and> selects (split_on (CHR ''&'') t) r')"
    using parse_read_query_selects by blast
qed

theorem parse_read_query_roundtrip_witness:
  "parse_read_query (Some ''expected_revision_id=r1&subject_id=a&subject_id=b'')
     = Inr \<lparr>expected_revision_id = Some ''r1'', time_mode = Current, subject_ids = [''a'', ''b'']\<rparr>"
proof -
  let ?r = "\<lparr>expected_revision_id = Some ''r1'', time_mode = Current, subject_ids = [''a'', ''b'']\<rparr>"
  have "read_params_ok ?r"
    by (simp add: read_params_ok_def valid_opaque_id_def opaque_byte_def byte_class_defs)
  moreover have "join_with (CHR ''&'') (read_query_params ?r)
      = ''expected_revision_id=r1&subject_id=a&subject_id=b''"
    by (simp add: read_query_params_def)
  ultimately show ?thesis
    using parse_read_query_roundtrip [of ?r] by (simp add: read_query_params_def)
qed

end
