(* ===== verification/Json_Guard.thy ===== *)
theory Json_Guard
  imports Rust_Text
begin

text \<open>
  The structural guard on request bodies (\<open>bounded_json_structure_with_limit\<close> of
  \<open>src/src/lib.rs\<close>): one pass over the bytes, before the JSON parser runs, that bounds nesting at
  16 and the number of object members and array elements. The loop body is \<open>scan_byte\<close>, its early
  \<open>return false\<close> is \<open>None\<close>. The specification is a concrete syntax tree of a JSON document
  (every placement of white space included) with its nesting depth and its number of members and
  elements; the guard is proved to decide exactly the two bounds on every document.
\<close>

datatype container = CObject | CArray bool

record scan =
  stack :: "container list"
  in_string :: bool
  escaped :: bool
  members_and_elements :: nat

definition scan_start :: scan where
  "scan_start = \<lparr>stack = [], in_string = False, escaped = False, members_and_elements = 0\<rparr>"

text \<open>\<open>if let Some(Array { has_element }) = stack.last_mut() { *has_element = true }\<close>.\<close>

fun mark_top :: "container list \<Rightarrow> container list" where
  "mark_top (CArray _ # cs) = CArray True # cs"
| "mark_top cs = cs"

definition mark_element :: "scan \<Rightarrow> scan" where
  "mark_element st = st\<lparr>stack := mark_top (stack st)\<rparr>"

text \<open>The \<open>match byte\<close> of the loop; \<open>None\<close> is a closing bracket that closes nothing of its kind.\<close>

definition scan_structure :: "scan \<Rightarrow> char \<Rightarrow> scan option" where
  "scan_structure st c =
     (if c = CHR ''{'' then Some (st\<lparr>stack := CObject # stack st\<rparr>)
      else if c = CHR ''['' then Some (st\<lparr>stack := CArray False # stack st\<rparr>)
      else if c = CHR ''}'' then
        (case stack st of CObject # cs \<Rightarrow> Some (st\<lparr>stack := cs\<rparr>) | _ \<Rightarrow> None)
      else if c = CHR '']'' then
        (case stack st of
           CArray has_element # cs \<Rightarrow>
             Some (st\<lparr>stack := cs,
                      members_and_elements := members_and_elements st + of_bool has_element\<rparr>)
         | _ \<Rightarrow> None)
      else if c = CHR '':'' then
        Some (st\<lparr>members_and_elements := members_and_elements st + 1\<rparr>)
      else if c = CHR '','' then
        (case stack st of
           CArray _ # _ \<Rightarrow> Some (st\<lparr>members_and_elements := members_and_elements st + 1\<rparr>)
         | _ \<Rightarrow> Some st)
      else Some st)"

definition scan_byte :: "nat \<Rightarrow> scan \<Rightarrow> char \<Rightarrow> scan option" where
  "scan_byte member_limit st c =
     (if in_string st then
        Some (if escaped st then st\<lparr>escaped := False\<rparr>
              else if c = CHR 0x5C then st\<lparr>escaped := True\<rparr>
              else if c = CHR 0x22 then st\<lparr>in_string := False\<rparr>
              else st)
      else if c = CHR 0x22 then Some ((mark_element st)\<lparr>in_string := True\<rparr>)
      else if is_ascii_whitespace c then Some st
      else
        case scan_structure (if c = CHR '']'' \<or> c = CHR '','' then st else mark_element st) c of
          None \<Rightarrow> None
        | Some st' \<Rightarrow>
            if length (stack st') > 16 \<or> members_and_elements st' > member_limit then None
            else Some st')"

fun scan_run :: "nat \<Rightarrow> scan \<Rightarrow> bytes \<Rightarrow> scan option" where
  "scan_run lim st [] = Some st"
| "scan_run lim st (c # cs) =
     (case scan_byte lim st c of None \<Rightarrow> None | Some st' \<Rightarrow> scan_run lim st' cs)"

definition bounded_json_structure_with_limit :: "bytes \<Rightarrow> nat \<Rightarrow> bool" where
  "bounded_json_structure_with_limit body member_limit =
     (case scan_run member_limit scan_start body of
        None \<Rightarrow> False
      | Some st \<Rightarrow> \<not> in_string st \<and> stack st = [] \<and> members_and_elements st \<le> member_limit)"

definition bounded_json_structure :: "bytes \<Rightarrow> bool" where
  "bounded_json_structure body = bounded_json_structure_with_limit body 256"

section \<open>JSON documents\<close>

text \<open>
  A string is a list of plain bytes and escapes (\<open>\u00e9\<close> is the escape \<open>u\<close> and four plain bytes);
  a scalar is a number, \<open>true\<close>, \<open>false\<close> or \<open>null\<close>. The first field of an array or object is
  the white space inside an empty one; the other texts are the white space around the parts.
\<close>

datatype str_part = Plain char | Escape char

datatype json =
    JScalar str
  | JStr "str_part list"
  | JArr str json_elems
  | JObj str json_members
and json_elems = ENil | ECons str json str json_elems
and json_members = MNil | MCons str "str_part list" str str json str json_members

fun part_text :: "str_part \<Rightarrow> bytes" where
  "part_text (Plain c) = [c]"
| "part_text (Escape c) = [CHR 0x5C, c]"

definition quoted :: "str_part list \<Rightarrow> bytes" where
  "quoted ps = CHR 0x22 # concat (map part_text ps) @ [CHR 0x22]"

primrec render :: "json \<Rightarrow> bytes"
  and render_elems :: "json_elems \<Rightarrow> bytes"
  and render_members :: "json_members \<Rightarrow> bytes" where
  "render (JScalar s) = s"
| "render (JStr ps) = quoted ps"
| "render (JArr w es) = ''['' @ (if es = ENil then w else render_elems es) @ '']''"
| "render (JObj w ms) = ''{'' @ (if ms = MNil then w else render_members ms) @ ''}''"
| "render_elems ENil = []"
| "render_elems (ECons a v b es) =
     a @ render v @ b @ (if es = ENil then [] else '','' @ render_elems es)"
| "render_members MNil = []"
| "render_members (MCons a k b c v d ms) =
     a @ quoted k @ b @ '':'' @ c @ render v @ d
       @ (if ms = MNil then [] else '','' @ render_members ms)"

primrec depth :: "json \<Rightarrow> nat"
  and depth_elems :: "json_elems \<Rightarrow> nat"
  and depth_members :: "json_members \<Rightarrow> nat" where
  "depth (JScalar s) = 0"
| "depth (JStr ps) = 0"
| "depth (JArr w es) = Suc (depth_elems es)"
| "depth (JObj w ms) = Suc (depth_members ms)"
| "depth_elems ENil = 0"
| "depth_elems (ECons a v b es) = max (depth v) (depth_elems es)"
| "depth_members MNil = 0"
| "depth_members (MCons a k b c v d ms) = max (depth v) (depth_members ms)"

text \<open>The number of object members and array elements in the whole document.\<close>

primrec parts :: "json \<Rightarrow> nat"
  and parts_elems :: "json_elems \<Rightarrow> nat"
  and parts_members :: "json_members \<Rightarrow> nat" where
  "parts (JScalar s) = 0"
| "parts (JStr ps) = 0"
| "parts (JArr w es) = parts_elems es"
| "parts (JObj w ms) = parts_members ms"
| "parts_elems ENil = 0"
| "parts_elems (ECons a v b es) = Suc (parts v + parts_elems es)"
| "parts_members MNil = 0"
| "parts_members (MCons a k b c v d ms) = Suc (parts v + parts_members ms)"

definition scalar_byte :: "char \<Rightarrow> bool" where
  "scalar_byte c = (is_ascii_alphanumeric c \<or> c \<in> {CHR ''+'', CHR ''-'', CHR ''.''})"

definition white :: "str \<Rightarrow> bool" where
  "white w = list_all is_ascii_whitespace w"

fun part_ok :: "str_part \<Rightarrow> bool" where
  "part_ok (Plain c) = (c \<noteq> CHR 0x22 \<and> c \<noteq> CHR 0x5C)"
| "part_ok (Escape c) = True"

primrec json_ok :: "json \<Rightarrow> bool"
  and elems_ok :: "json_elems \<Rightarrow> bool"
  and members_ok :: "json_members \<Rightarrow> bool" where
  "json_ok (JScalar s) = (s \<noteq> [] \<and> list_all scalar_byte s)"
| "json_ok (JStr ps) = list_all part_ok ps"
| "json_ok (JArr w es) = (white w \<and> elems_ok es)"
| "json_ok (JObj w ms) = (white w \<and> members_ok ms)"
| "elems_ok ENil = True"
| "elems_ok (ECons a v b es) = (white a \<and> json_ok v \<and> white b \<and> elems_ok es)"
| "members_ok MNil = True"
| "members_ok (MCons a k b c v d ms) =
     (white a \<and> list_all part_ok k \<and> white b \<and> white c \<and> json_ok v \<and> white d \<and> members_ok ms)"

section \<open>The scan of a document\<close>

abbreviation at :: "container list \<Rightarrow> nat \<Rightarrow> scan" where
  "at cs n \<equiv> \<lparr>stack = cs, in_string = False, escaped = False, members_and_elements = n\<rparr>"

definition within :: "nat \<Rightarrow> container list \<Rightarrow> nat \<Rightarrow> nat \<Rightarrow> nat \<Rightarrow> scan option" where
  "within lim cs n d k = (if length cs + d \<le> 16 \<and> n + k \<le> lim then Some (at cs (n + k)) else None)"

lemma scan_run_append:
  "scan_run lim st (xs @ ys) =
     (case scan_run lim st xs of None \<Rightarrow> None | Some st' \<Rightarrow> scan_run lim st' ys)"
  by (induction xs arbitrary: st) (auto split: option.splits)

lemma length_mark_top [simp]: "length (mark_top cs) = length cs"
  by (cases cs rule: mark_top.cases) auto

lemma mark_top_idem [simp]: "mark_top (mark_top cs) = mark_top cs"
  by (cases cs rule: mark_top.cases) auto

lemma scan_white: "white w \<Longrightarrow> scan_run lim (at cs n) w = Some (at cs n)"
proof (induction w)
  case (Cons c w)
  then have "c \<noteq> CHR 0x22" "is_ascii_whitespace c"
    by (auto simp: white_def is_ascii_whitespace_def)
  with Cons show ?case by (simp add: scan_byte_def white_def)
qed simp

lemma scan_string_body:
  "list_all part_ok ps \<Longrightarrow>
     scan_run lim (at cs n\<lparr>in_string := True\<rparr>) (concat (map part_text ps) @ [CHR 0x22])
       = Some (at cs n)"
proof (induction ps)
  case Nil
  then show ?case by (simp add: scan_byte_def)
next
  case (Cons p ps)
  then show ?case by (cases p) (simp_all add: scan_byte_def)
qed

lemma scan_quoted:
  "list_all part_ok ps \<Longrightarrow> scan_run lim (at cs n) (quoted ps) = Some (at (mark_top cs) n)"
  using scan_string_body [of ps lim "mark_top cs" n]
  by (simp add: quoted_def scan_byte_def mark_element_def)

lemma scalar_byte_plain:
  assumes "scalar_byte c"
  shows "c \<noteq> CHR 0x22" "\<not> is_ascii_whitespace c" "c \<noteq> CHR ''{''" "c \<noteq> CHR ''[''"
    "c \<noteq> CHR ''}''" "c \<noteq> CHR '']''" "c \<noteq> CHR '':''" "c \<noteq> CHR '',''"
  using assms by (auto simp: scalar_byte_def byte_class_defs)

lemma scan_scalar_byte:
  assumes "scalar_byte c" "length cs \<le> 16" "n \<le> lim"
  shows "scan_byte lim (at cs n) c = Some (at (mark_top cs) n)"
  using assms scalar_byte_plain [OF assms(1)]
  by (simp add: scan_byte_def scan_structure_def mark_element_def)

lemma scan_scalar:
  assumes "list_all scalar_byte s" "s \<noteq> []" "length cs \<le> 16" "n \<le> lim"
  shows "scan_run lim (at cs n) s = Some (at (mark_top cs) n)"
  using assms
proof (induction s arbitrary: cs)
  case (Cons c s)
  then show ?case by (cases "s = []") (simp_all add: scan_scalar_byte)
qed simp

lemma scan_open:
  assumes "c = CHR ''['' \<and> new = CArray False \<or> c = CHR ''{'' \<and> new = CObject" "n \<le> lim"
  shows "scan_byte lim (at cs n) c =
    (if length cs < 16 then Some (at (new # mark_top cs) n) else None)"
  using assms
  by (auto simp: scan_byte_def scan_structure_def mark_element_def is_ascii_whitespace_def)

lemma scan_close_array:
  assumes "length cs \<le> 16"
  shows "scan_byte lim (at (CArray h # cs) n) (CHR '']'') =
    (if n + of_bool h \<le> lim then Some (at cs (n + of_bool h)) else None)"
  using assms by (auto simp: scan_byte_def scan_structure_def is_ascii_whitespace_def)

lemma scan_close_object:
  assumes "length cs \<le> 16" "n \<le> lim"
  shows "scan_byte lim (at (CObject # cs) n) (CHR ''}'') = Some (at cs n)"
  using assms
  by (auto simp: scan_byte_def scan_structure_def is_ascii_whitespace_def mark_element_def)

lemma scan_comma_array:
  assumes "length cs < 16"
  shows "scan_byte lim (at (CArray h # cs) n) (CHR '','') =
    (if n < lim then Some (at (CArray h # cs) (Suc n)) else None)"
  using assms by (auto simp: scan_byte_def scan_structure_def is_ascii_whitespace_def)

lemma scan_comma_object:
  assumes "length cs < 16" "n \<le> lim"
  shows "scan_byte lim (at (CObject # cs) n) (CHR '','') = Some (at (CObject # cs) n)"
  using assms by (auto simp: scan_byte_def scan_structure_def is_ascii_whitespace_def)

lemma scan_colon_object:
  assumes "length cs < 16"
  shows "scan_byte lim (at (CObject # cs) n) (CHR '':'') =
    (if n < lim then Some (at (CObject # cs) (Suc n)) else None)"
  using assms
  by (auto simp: scan_byte_def scan_structure_def is_ascii_whitespace_def mark_element_def)

lemmas scan_steps = scan_open scan_close_array scan_close_object scan_comma_array
  scan_comma_object scan_colon_object scan_white scan_quoted scan_run_append

lemma parts_elems_pos: "es \<noteq> ENil \<Longrightarrow> 0 < parts_elems es"
  by (cases es) auto

lemma scan_document:
  "json_ok v \<Longrightarrow> length cs \<le> 16 \<Longrightarrow> n \<le> lim \<Longrightarrow>
     scan_run lim (at cs n) (render v) = within lim (mark_top cs) n (depth v) (parts v)"
  "elems_ok es \<Longrightarrow> es \<noteq> ENil \<Longrightarrow> length ds < 16 \<Longrightarrow> m \<le> lim \<Longrightarrow>
     scan_run lim (at (CArray h # ds) m) (render_elems es)
       = within lim (CArray True # ds) m (depth_elems es) (parts_elems es - 1)"
  "members_ok ms \<Longrightarrow> ms \<noteq> MNil \<Longrightarrow> length fs < 16 \<Longrightarrow> l \<le> lim \<Longrightarrow>
     scan_run lim (at (CObject # fs) l) (render_members ms)
       = within lim (CObject # fs) l (depth_members ms) (parts_members ms)"
proof (induction v and es and ms arbitrary: cs n and h ds m and fs l)
  case (JScalar s)
  then show ?case by (simp add: scan_scalar within_def)
next
  case (JStr ps)
  then show ?case by (simp add: scan_quoted within_def)
next
  case (JArr w es)
  show ?case
  proof (cases "es = ENil")
    case True
    with JArr.prems show ?thesis
      by (auto simp: scan_steps within_def)
  next
    case False
    note pos = parts_elems_pos [OF False]
    have "scan_run lim (at (CArray False # mark_top cs) n) (render_elems es)
        = within lim (CArray True # mark_top cs) n (depth_elems es) (parts_elems es - 1)"
      if "length cs < 16"
      using JArr.IH [where ds = "mark_top cs"] JArr.prems False that by simp
    with False JArr.prems pos show ?thesis
      by (auto simp: scan_steps within_def)
  qed
next
  case (JObj w ms)
  show ?case
  proof (cases "ms = MNil")
    case True
    with JObj.prems show ?thesis
      by (auto simp: scan_steps within_def)
  next
    case False
    have "scan_run lim (at (CObject # mark_top cs) n) (render_members ms)
        = within lim (CObject # mark_top cs) n (depth_members ms) (parts_members ms)"
      if "length cs < 16"
      using JObj.IH [where fs = "mark_top cs"] JObj.prems False that by simp
    with False JObj.prems show ?thesis
      by (auto simp: scan_steps within_def)
  qed
next
  case ENil
  then show ?case by simp
next
  case (ECons a v b es)
  have v: "scan_run lim (at (CArray h # ds) m) (render v)
      = within lim (CArray True # ds) m (depth v) (parts v)"
    using ECons.IH(1) [of "CArray h # ds"] ECons.prems by simp
  show ?case
  proof (cases "es = ENil")
    case True
    with v ECons.prems show ?thesis
      by (simp add: scan_run_append scan_white within_def)
  next
    case False
    have es: "scan_run lim (at (CArray True # ds) k) (render_elems es)
        = within lim (CArray True # ds) k (depth_elems es) (parts_elems es - 1)" if "k \<le> lim" for k
      using ECons.IH(2) [of ds k True] ECons.prems False that by simp
    show ?thesis
      using v es [of "Suc (m + parts v)"] False ECons.prems parts_elems_pos [OF False]
      by (auto simp: scan_run_append scan_white scan_comma_array within_def)
  qed
next
  case MNil
  then show ?case by simp
next
  case (MCons a k b c v d ms)
  have v: "scan_run lim (at (CObject # fs) j) (render v)
      = within lim (CObject # fs) j (depth v) (parts v)" if "j \<le> lim" for j
    using MCons.IH(1) [of "CObject # fs" j] MCons.prems that by simp
  have key: "scan_run lim (at (CObject # fs) l) (quoted k) = Some (at (CObject # fs) l)"
    using MCons.prems by (simp add: scan_quoted)
  show ?case
  proof (cases "ms = MNil")
    case True
    with v [of "Suc l"] key MCons.prems show ?thesis
      by (auto simp: scan_run_append scan_white scan_colon_object within_def)
  next
    case False
    have ms: "scan_run lim (at (CObject # fs) j) (render_members ms)
        = within lim (CObject # fs) j (depth_members ms) (parts_members ms)" if "j \<le> lim" for j
      using MCons.IH(2) [of fs j] MCons.prems False that by simp
    show ?thesis
      using v [of "Suc l"] ms [of "Suc (l + parts v)"] key False MCons.prems
      by (auto simp: scan_run_append scan_white scan_colon_object scan_comma_object within_def)
  qed
qed

text \<open>
  C22. The guard decides its two bounds exactly. For every JSON document, written with any white
  space, \<open>bounded_json_structure_with_limit\<close> accepts its bytes if and only if the document nests
  at most 16 containers deep and has at most \<open>member_limit\<close> object members and array elements in
  total; brackets, colons, commas and quotes inside strings are never counted.
\<close>

theorem bounded_json_structure_exact:
  assumes "json_ok v" and "white a" and "white b"
  shows "bounded_json_structure_with_limit (a @ render v @ b) lim
    \<longleftrightarrow> depth v \<le> 16 \<and> parts v \<le> lim"
proof -
  have "scan_run lim (at [] 0) (render v) = within lim [] 0 (depth v) (parts v)"
    using scan_document(1) [OF assms(1), of "[]" 0] by simp
  with assms(2,3) show ?thesis
    by (simp add: bounded_json_structure_with_limit_def scan_start_def scan_run_append scan_white
        within_def)
qed

theorem bounded_json_structure_exact_witness:
  "let v = JObj [] (MCons [] [Plain (CHR ''['')] [] [] (JArr [] (ECons [] (JScalar ''1'') [] ENil)) [] MNil)
   in render v = ''{'' @ [CHR 0x22, CHR ''['', CHR 0x22] @ '':[1]}''
     \<and> bounded_json_structure_with_limit ('' '' @ render v @ []) 2
     \<and> \<not> bounded_json_structure_with_limit ('' '' @ render v @ []) 1"
proof -
  let ?v = "JObj [] (MCons [] [Plain (CHR ''['')] [] []
      (JArr [] (ECons [] (JScalar ''1'') [] ENil)) [] MNil)"
  have ok: "json_ok ?v" "white '' ''" "white []"
    by (simp_all add: white_def scalar_byte_def byte_class_defs)
  have "render ?v = ''{'' @ [CHR 0x22, CHR ''['', CHR 0x22] @ '':[1]}''"
    by (simp add: quoted_def)
  moreover note bounded_json_structure_exact [OF ok, of 2] bounded_json_structure_exact [OF ok, of 1]
  ultimately show ?thesis by (simp add: Let_def)
qed

end
