(* ===== verification/Rows.thy ===== *)
theory Rows
  imports Failures
begin

text \<open>
  Database rows and the values read from them (\<open>ReadItem\<close>, \<open>ListEntry\<close>, \<open>SearchItem\<close>,
  \<open>SearchCitation\<close>, \<open>read_item_row\<close>, \<open>list_entry\<close> and \<open>passage_source_key\<close> of
  \<open>src/src/lib.rs\<close>). A row of the database driver is what the code can do with it: the typed
  \<open>try_get\<close> of a named column, a function that returns the value or the driver's error. Nothing is
  assumed of it. \<open>row_of\<close> builds a row from a table of cells, for evaluation on concrete rows.
\<close>

section \<open>Rows\<close>

record pg_row =
  get_text :: "str \<Rightarrow> sqlx_error + str"
  get_opt_text :: "str \<Rightarrow> sqlx_error + str option"
  get_bool :: "str \<Rightarrow> sqlx_error + bool"
  get_texts :: "str \<Rightarrow> sqlx_error + str list"
  get_opt_int :: "str \<Rightarrow> sqlx_error + int option"

text \<open>\<open>row.try_get(name).map_err(RequestFailure::storage)\<close>.\<close>

definition column :: "(pg_row \<Rightarrow> str \<Rightarrow> sqlx_error + 'a) \<Rightarrow> pg_row \<Rightarrow> str \<Rightarrow> request_failure + 'a" where
  "column get row name = map_err Storage (get row name)"

lemma column_Inr [result_simps]: "column get row name = Inr v \<longleftrightarrow> get row name = Inr v"
  by (simp add: column_def result_simps)

lemma column_Inl [result_simps]:
  "column get row name = Inl e \<longleftrightarrow> (\<exists>d. get row name = Inl d \<and> e = Storage d)"
  by (simp add: column_def result_simps)

text \<open>\<open>rows.first().map(|row| row.try_get(name)).transpose()\<close>.\<close>

definition first_column ::
    "(pg_row \<Rightarrow> str \<Rightarrow> sqlx_error + 'a) \<Rightarrow> pg_row list \<Rightarrow> str \<Rightarrow> request_failure + 'a option" where
  "first_column get rows name =
     (case rows of
        [] \<Rightarrow> Inr None
      | row # _ \<Rightarrow> map_ok Some (column get row name))"

datatype cell = Text str | Null | Truth bool | Texts "str list" | Whole int

definition missing :: sqlx_error where
  "missing = \<lparr>sqlstate = None, sql_detail = ''column''\<rparr>"

definition row_of :: "(str \<times> cell) list \<Rightarrow> pg_row" where
  "row_of cells =
     \<lparr>get_text = (\<lambda>n. case map_of cells n of Some (Text t) \<Rightarrow> Inr t | _ \<Rightarrow> Inl missing),
      get_opt_text = (\<lambda>n. case map_of cells n of
          Some (Text t) \<Rightarrow> Inr (Some t) | Some Null \<Rightarrow> Inr None | _ \<Rightarrow> Inl missing),
      get_bool = (\<lambda>n. case map_of cells n of Some (Truth b) \<Rightarrow> Inr b | _ \<Rightarrow> Inl missing),
      get_texts = (\<lambda>n. case map_of cells n of Some (Texts ts) \<Rightarrow> Inr ts | _ \<Rightarrow> Inl missing),
      get_opt_int = (\<lambda>n. case map_of cells n of
          Some (Whole i) \<Rightarrow> Inr (Some i) | Some Null \<Rightarrow> Inr None | _ \<Rightarrow> Inl missing)\<rparr>"

section \<open>One item\<close>

record read_item =
  ri_request_id :: str
  ri_status :: str
  ri_item_id :: str
  ri_revision_id :: str
  ri_content :: str
  ri_recorded_at :: str
  ri_valid_from :: "str option"
  ri_valid_until :: "str option"
  ri_validity_status :: str

definition read_item_row :: "pg_row \<Rightarrow> str \<Rightarrow> request_failure + read_item" where
  "read_item_row row request_id =
     res_bind (column get_text row ''item_id'') (\<lambda>item_id.
     res_bind (column get_text row ''revision_id'') (\<lambda>revision_id.
     res_bind (column get_text row ''content'') (\<lambda>content.
     res_bind (column get_text row ''recorded_at'') (\<lambda>recorded_at.
     res_bind (column get_opt_text row ''valid_from'') (\<lambda>valid_from.
     res_bind (column get_opt_text row ''valid_until'') (\<lambda>valid_until.
     res_bind (column get_text row ''validity_status'') (\<lambda>validity_status.
       Inr \<lparr>ri_request_id = request_id, ri_status = ''ready'', ri_item_id = item_id,
            ri_revision_id = revision_id, ri_content = content, ri_recorded_at = recorded_at,
            ri_valid_from = valid_from, ri_valid_until = valid_until,
            ri_validity_status = validity_status\<rparr>)))))))"

section \<open>List entries\<close>

datatype list_kind = Collections | Items

fun list_kind_str :: "list_kind \<Rightarrow> str" where
  "list_kind_str Collections = ''collections''"
| "list_kind_str Items = ''items''"

record collection_list_item =
  cl_collection_id :: str
  cl_audience_kind :: str

record item_list_item =
  il_item_id :: str
  il_revision_id :: str
  il_collection_id :: str
  il_recorded_at :: "str option"
  il_valid_from :: "str option"
  il_valid_until :: "str option"
  il_validity_status :: str

datatype list_entry = Collection collection_list_item | Item item_list_item

fun read_list_entry :: "pg_row \<Rightarrow> list_kind \<Rightarrow> request_failure + list_entry" where
  "read_list_entry row Collections =
     res_bind (column get_text row ''resource_id'') (\<lambda>collection_id.
     res_bind (column get_text row ''audience_kind'') (\<lambda>audience_kind.
       Inr (Collection \<lparr>cl_collection_id = collection_id, cl_audience_kind = audience_kind\<rparr>)))"
| "read_list_entry row Items =
     res_bind (column get_text row ''resource_id'') (\<lambda>item_id.
     res_bind (column get_text row ''revision_id'') (\<lambda>revision_id.
     res_bind (column get_text row ''collection_id'') (\<lambda>collection_id.
     res_bind (column get_opt_text row ''recorded_at'') (\<lambda>recorded_at.
     res_bind (column get_opt_text row ''valid_from'') (\<lambda>valid_from.
     res_bind (column get_opt_text row ''valid_until'') (\<lambda>valid_until.
     res_bind (column get_text row ''validity_status'') (\<lambda>validity_status.
       Inr (Item \<lparr>il_item_id = item_id, il_revision_id = revision_id,
                 il_collection_id = collection_id, il_recorded_at = recorded_at,
                 il_valid_from = valid_from, il_valid_until = valid_until,
                 il_validity_status = validity_status\<rparr>))))))))"

lemma read_list_entry_storage: "read_list_entry row kind = Inl e \<Longrightarrow> \<exists>d. e = Storage d"
  by (cases kind) (auto simp: result_simps)

lemma read_list_entry_kind:
  "read_list_entry row kind = Inr entry \<Longrightarrow> (case entry of Collection _ \<Rightarrow> kind = Collections
     | Item _ \<Rightarrow> kind = Items)"
  by (cases kind) (auto simp: result_simps)

section \<open>Search items\<close>

type_synonym json_value = str \<comment> \<open>a \<open>serde_json::Value\<close>, never inspected\<close>

record search_citation =
  source_revision_id :: str
  extraction_set_id :: str
  passage_id :: str
  locator :: json_value

record search_item =
  item_id :: str
  revision_id :: str
  excerpt :: str
  recorded_at :: str
  valid_from :: "str option"
  valid_until :: "str option"
  validity_status :: str
  reason :: str
  semantic_status :: str
  citation :: "search_citation option"

definition passage_kind :: "str \<Rightarrow> bool" where
  "passage_kind hit_kind =
     (hit_kind = ''passage'' \<or> hit_kind = ''semantic_passage''
      \<or> hit_kind = ''adjacent_continuation'')"

type_synonym passage_source = "str \<times> str \<times> str \<times> str"

definition passage_source_key :: "pg_row \<Rightarrow> bool \<Rightarrow> request_failure + passage_source option" where
  "passage_source_key row passage_hit =
     (if \<not> passage_hit then Inr None
      else
        res_bind (column get_text row ''item_id'') (\<lambda>item_id.
        res_bind (column get_text row ''revision_id'') (\<lambda>revision_id.
        res_bind (column get_text row ''source_revision_id'') (\<lambda>source_revision_id.
        res_bind (column get_text row ''extraction_set_id'') (\<lambda>extraction_set_id.
          Inr (Some (item_id, revision_id, source_revision_id, extraction_set_id)))))))"

lemma passage_source_key_Some:
  "passage_source_key row hit = Inr (Some (i, r, s, x)) \<longleftrightarrow>
     hit \<and> get_text row ''item_id'' = Inr i \<and> get_text row ''revision_id'' = Inr r
     \<and> get_text row ''source_revision_id'' = Inr s \<and> get_text row ''extraction_set_id'' = Inr x"
  by (auto simp: passage_source_key_def result_simps)

lemma passage_source_key_hit: "passage_source_key row hit = Inr k \<Longrightarrow> (k = None) = (\<not> hit)"
  by (auto simp: passage_source_key_def result_simps split: if_splits)

text \<open>
  The source and the passage of a finished item, as its citation names them. An item with no
  citation is a whole memory, of no passage.
\<close>

definition item_source :: "search_item \<Rightarrow> passage_source option" where
  "item_source item =
     (case citation item of
        None \<Rightarrow> None
      | Some c \<Rightarrow> Some (item_id item, revision_id item, source_revision_id c, extraction_set_id c))"

definition item_passage :: "search_item \<Rightarrow> (passage_source \<times> str) option" where
  "item_passage item =
     (case citation item of
        None \<Rightarrow> None
      | Some c \<Rightarrow>
          Some ((item_id item, revision_id item, source_revision_id c, extraction_set_id c),
                passage_id c))"

end
