(* ===== verification/Float_Norm.thy ===== *)
theory Float_Norm
  imports Rust_Text "HOL-Library.Word"
begin

unbundle bit_operations_syntax

text \<open>
  The floating point that the external query vector needs (\<open>external_semantic_plan\<close> of
  \<open>src/src/lib.rs\<close> sums the squares of its \<open>f32\<close> components in \<open>f64\<close>). An \<open>f32\<close> is its bit pattern. A
  sum of squares is never negative, so an \<open>f64\<close> is here a natural number of units of
  \<open>2\<^sup>-\<^sup>2\<^sup>9\<^sup>8\<close> (the unit of the square of the smallest \<open>f32\<close>), infinity or not a number. That unit lies
  far above the subnormal range of \<open>f64\<close>, so rounding keeps the 53 leading bits, to nearest with
  ties to even, and a value of \<open>2\<^sup>1\<^sup>0\<^sup>2\<^sup>4\<close> or more, \<open>2\<^sup>1\<^sup>3\<^sup>2\<^sup>2\<close> units, overflows.
\<close>

type_synonym f32 = "32 word"

definition f32_exponent :: "f32 \<Rightarrow> nat" where
  "f32_exponent v = unat (drop_bit 23 v AND 0xFF)"

definition f32_mantissa :: "f32 \<Rightarrow> nat" where
  "f32_mantissa v = unat (v AND 0x7FFFFF)"

definition f32_is_finite :: "f32 \<Rightarrow> bool" where
  "f32_is_finite v = (f32_exponent v \<noteq> 255)"

text \<open>The magnitude of a finite \<open>f32\<close> in units of \<open>2\<^sup>-\<^sup>1\<^sup>4\<^sup>9\<close>.\<close>

definition f32_magnitude :: "f32 \<Rightarrow> nat" where
  "f32_magnitude v =
     (if f32_exponent v = 0 then f32_mantissa v
      else (2 ^ 23 + f32_mantissa v) * 2 ^ (f32_exponent v - 1))"

definition f32_is_zero :: "f32 \<Rightarrow> bool" where
  "f32_is_zero v = (f32_exponent v = 0 \<and> f32_mantissa v = 0)"

datatype f64 = Units nat | Infinite | Not_a_number

fun bit_length :: "nat \<Rightarrow> nat" where
  "bit_length n = (if n = 0 then 0 else Suc (bit_length (n div 2)))"

declare bit_length.simps [simp del]

definition round53 :: "nat \<Rightarrow> nat" where
  "round53 n =
     (let k = bit_length n - 53; q = n div 2 ^ k; r = n mod 2 ^ k in
      if k = 0 then n
      else if r > 2 ^ (k - 1) \<or> (r = 2 ^ (k - 1) \<and> odd q) then (q + 1) * 2 ^ k
      else q * 2 ^ k)"

definition to_f64 :: "nat \<Rightarrow> f64" where
  "to_f64 n = (if round53 n < 2 ^ 1322 then Units (round53 n) else Infinite)"

definition f64_square :: "f32 \<Rightarrow> f64" where
  "f64_square v =
     (if f32_is_finite v then to_f64 (f32_magnitude v * f32_magnitude v)
      else if f32_mantissa v = 0 then Infinite
      else Not_a_number)"

fun f64_add :: "f64 \<Rightarrow> f64 \<Rightarrow> f64" where
  "f64_add Not_a_number _ = Not_a_number"
| "f64_add _ Not_a_number = Not_a_number"
| "f64_add Infinite _ = Infinite"
| "f64_add _ Infinite = Infinite"
| "f64_add (Units a) (Units b) = to_f64 (a + b)"

definition squared_norm :: "f32 list \<Rightarrow> f64" where
  "squared_norm vector = foldl (\<lambda>sum value. f64_add sum (f64_square value)) (Units 0) vector"

fun f64_is_finite :: "f64 \<Rightarrow> bool" where
  "f64_is_finite (Units _) = True"
| "f64_is_finite _ = False"

fun f64_positive :: "f64 \<Rightarrow> bool" where
  "f64_positive (Units n) = (n > 0)"
| "f64_positive Infinite = True"
| "f64_positive Not_a_number = False"

section \<open>Rounding\<close>

lemma bit_length_bounds: "n \<noteq> 0 \<Longrightarrow> 2 ^ (bit_length n - 1) \<le> n \<and> n < 2 ^ bit_length n"
proof (induction n rule: bit_length.induct)
  case (1 n)
  show ?case
  proof (cases "n div 2 = 0")
    case True
    with 1(2) have "n = 1" by simp
    then show ?thesis by (simp add: bit_length.simps)
  next
    case False
    have b: "bit_length n = Suc (bit_length (n div 2))"
      using 1(2) by (subst bit_length.simps) simp
    have "0 < bit_length (n div 2)" using False by (subst bit_length.simps) simp
    then obtain j where j: "bit_length (n div 2) = Suc j" using gr0_implies_Suc by blast
    have "2 ^ j \<le> n div 2" "n div 2 < 2 ^ Suc j"
      using 1(1) [OF 1(2) False] j by simp_all
    then have "2 * 2 ^ j \<le> n" "n < 2 * 2 ^ Suc j" by linarith+
    then show ?thesis using b j by simp
  qed
qed

lemma bit_length_zero [simp]: "bit_length 0 = 0"
  by (subst bit_length.simps) simp

lemma round53_zero [simp]: "round53 0 = 0"
  by (simp add: round53_def)

lemma round53_ge_top:
  assumes "n \<noteq> 0"
  shows "round53 n \<noteq> 0"
proof -
  let ?k = "bit_length n - 53"
  have "0 < n div 2 ^ ?k"
  proof -
    have "2 ^ ?k \<le> (2::nat) ^ (bit_length n - 1)" by (rule power_increasing) auto
    then have "2 ^ ?k \<le> n" using bit_length_bounds [OF assms] by linarith
    then show ?thesis by (simp add: div_greater_zero_iff)
  qed
  with assms show ?thesis by (auto simp: round53_def Let_def)
qed

text \<open>A bound that has at most 53 significant bits is not crossed by rounding.\<close>

lemma round53_bound:
  assumes "n \<le> c * 2 ^ p" and "c \<le> 2 ^ 53"
  shows "round53 n \<le> c * 2 ^ p"
proof (cases "bit_length n - 53 = 0")
  case True
  then show ?thesis using assms(1) by (simp add: round53_def)
next
  case False
  define k q r where "k = bit_length n - 53" and "q = n div 2 ^ k" and "r = n mod 2 ^ k"
  have n: "n = q * 2 ^ k + r" unfolding q_def r_def by (rule div_mult_mod_eq [symmetric])
  have k: "0 < k" using False by (simp add: k_def)
  have eq: "round53 n = (if r > 2 ^ (k - 1) \<or> (r = 2 ^ (k - 1) \<and> odd q) then (q + 1) * 2 ^ k
      else q * 2 ^ k)"
    using k unfolding round53_def Let_def k_def [symmetric] q_def [symmetric] r_def [symmetric]
    by (simp only: neq0_conv [symmetric] if_False)
  have le: "round53 n \<le> (if r = 0 then n else (q + 1) * 2 ^ k)"
    unfolding eq using n by (cases "r = 0") simp_all
  show ?thesis
  proof (cases "r = 0")
    case True
    then show ?thesis using le assms(1) by simp
  next
    case r: False
    have "k \<le> p"
    proof (rule ccontr)
      assume "\<not> k \<le> p"
      then have "c * 2 ^ p \<le> 2 ^ 53 * 2 ^ (k - 1)"
        using assms(2) by (intro mult_le_mono power_increasing) auto
      also have "2 ^ 53 * 2 ^ (k - 1) = (2::nat) ^ (52 + k)"
      proof -
        have "53 + (k - 1) = 52 + k" using k by simp
        then show ?thesis by (simp only: power_add [symmetric])
      qed
      finally have up: "n \<le> 2 ^ (52 + k)" by (rule order.trans [OF assms(1)])
      have "bit_length n - 1 = 52 + k" using k by (simp add: k_def)
      moreover have "n \<noteq> 0" using k k_def bit_length_zero by (metis diff_0_eq_0 less_irrefl)
      ultimately have "2 ^ (52 + k) \<le> n" using bit_length_bounds [of n] by simp
      with up have "n = 2 ^ (52 + k)" by (rule order.antisym)
      then have "n = 2 ^ 52 * 2 ^ k" by (simp only: power_add)
      then show False using r by (simp add: r_def)
    qed
    then have m: "c * 2 ^ p = (c * 2 ^ (p - k)) * 2 ^ k"
      by (simp add: power_add [symmetric] mult.assoc)
    have "q * 2 ^ k < (c * 2 ^ (p - k)) * 2 ^ k"
      using n r assms(1) m by linarith
    then have "q + 1 \<le> c * 2 ^ (p - k)" by (simp add: Suc_le_eq)
    then have "(q + 1) * 2 ^ k \<le> c * 2 ^ p" unfolding m by (rule mult_le_mono1)
    with le r show ?thesis by simp
  qed
qed

lemma to_f64_bound:
  assumes "n \<le> c * 2 ^ 554" and "c \<le> 2 ^ 53"
  shows "to_f64 n = Units (round53 n) \<and> round53 n \<le> c * 2 ^ 554"
proof -
  have b: "round53 n \<le> c * 2 ^ 554" using assms by (rule round53_bound)
  have "c * 2 ^ 554 \<le> 2 ^ 53 * (2::nat) ^ 554" using assms(2) by (rule mult_le_mono1)
  also have "\<dots> = 2 ^ 607" by (subst power_add [symmetric]) simp
  also have "\<dots> < (2::nat) ^ 1322" by (rule power_strict_increasing) auto
  finally have "round53 n < 2 ^ 1322" using b by (rule order.strict_trans1 [rotated])
  with b show ?thesis unfolding to_f64_def by (simp only: if_True simp_thms)
qed

section \<open>Sums of squares\<close>

lemma f32_mantissa_bound: "f32_mantissa v < 2 ^ 23"
proof -
  have "f32_mantissa v \<le> unat (0x7FFFFF :: f32)"
    unfolding f32_mantissa_def by (rule word_le_nat_alt [THEN iffD1]) (rule word_and_le1)
  then show ?thesis by simp
qed

lemma f32_exponent_bound: "f32_exponent v \<le> 255"
proof -
  have "f32_exponent v \<le> unat (0xFF :: f32)"
    unfolding f32_exponent_def by (rule word_le_nat_alt [THEN iffD1]) (rule word_and_le1)
  then show ?thesis by simp
qed

lemma f32_magnitude_bound:
  assumes "f32_is_finite v"
  shows "f32_magnitude v \<le> 2 ^ 277"
proof (cases "f32_exponent v = 0")
  case True
  have "(2::nat) ^ 23 \<le> 2 ^ 277" by (rule power_increasing) auto
  moreover have "f32_magnitude v = f32_mantissa v" using True by (simp add: f32_magnitude_def)
  ultimately show ?thesis
    using f32_mantissa_bound [of v] by linarith
next
  case False
  have "f32_exponent v - 1 \<le> 253"
    using assms f32_exponent_bound [of v] by (simp add: f32_is_finite_def)
  then have "(2::nat) ^ (f32_exponent v - 1) \<le> 2 ^ 253" by (rule power_increasing) simp
  moreover have "2 ^ 23 + f32_mantissa v \<le> 2 ^ 24" using f32_mantissa_bound [of v] by simp
  ultimately have "(2 ^ 23 + f32_mantissa v) * 2 ^ (f32_exponent v - 1) \<le> 2 ^ 24 * 2 ^ 253"
    by (intro mult_le_mono)
  then have "f32_magnitude v \<le> 2 ^ 24 * 2 ^ 253"
    using False by (simp only: f32_magnitude_def if_False)
  moreover have "(2::nat) ^ 24 * 2 ^ 253 = 2 ^ 277" by (subst power_add [symmetric]) simp
  ultimately show ?thesis by (simp only:)
qed

lemma f32_magnitude_zero: "f32_is_finite v \<Longrightarrow> f32_magnitude v = 0 \<longleftrightarrow> f32_is_zero v"
  by (simp add: f32_magnitude_def f32_is_zero_def)

lemma f64_square_finite:
  assumes "f32_is_finite v"
  shows "\<exists>n. f64_square v = Units n \<and> n \<le> 2 ^ 554 \<and> (n = 0 \<longleftrightarrow> f32_is_zero v)"
proof -
  let ?m = "f32_magnitude v"
  have "?m * ?m \<le> 2 ^ 277 * 2 ^ 277"
    by (intro mult_le_mono f32_magnitude_bound [OF assms])
  moreover have "(2::nat) ^ 277 * 2 ^ 277 = 1 * 2 ^ 554" by (subst power_add [symmetric]) simp
  ultimately have "?m * ?m \<le> 1 * 2 ^ 554" by (simp only:)
  moreover have "(1::nat) \<le> 2 ^ 53" by simp
  ultimately have t: "to_f64 (?m * ?m) = Units (round53 (?m * ?m))
      \<and> round53 (?m * ?m) \<le> 1 * 2 ^ 554"
    by (rule to_f64_bound)
  then have b: "round53 (?m * ?m) \<le> 2 ^ 554" by (simp only: mult_1)
  have "f64_square v = Units (round53 (?m * ?m))"
    using assms t by (simp only: f64_square_def if_True)
  moreover have "round53 (?m * ?m) = 0 \<longleftrightarrow> f32_is_zero v"
    using round53_ge_top [of "?m * ?m"] f32_magnitude_zero [OF assms]
    by (metis mult_is_0 round53_zero)
  ultimately show ?thesis using b by (intro exI [of _ "round53 (?m * ?m)"] conjI)
qed

lemma squared_norm_append:
  "squared_norm (vs @ [v]) = f64_add (squared_norm vs) (f64_square v)"
  by (simp add: squared_norm_def)

lemma squared_norm_finite:
  assumes "list_all f32_is_finite vs" and "length vs \<le> 2 ^ 53"
  shows "\<exists>n. squared_norm vs = Units n \<and> n \<le> length vs * 2 ^ 554
    \<and> (n = 0 \<longleftrightarrow> list_all f32_is_zero vs)"
  using assms
proof (induction vs rule: rev_induct)
  case Nil
  then show ?case by (simp add: squared_norm_def)
next
  case (snoc v vs)
  then obtain n where n: "squared_norm vs = Units n" "n \<le> length vs * 2 ^ 554"
    "n = 0 \<longleftrightarrow> list_all f32_is_zero vs"
    by auto
  obtain s where s: "f64_square v = Units s" "s \<le> 2 ^ 554" "s = 0 \<longleftrightarrow> f32_is_zero v"
    using f64_square_finite snoc.prems(1) by auto
  have "length (vs @ [v]) * 2 ^ 554 = length vs * 2 ^ 554 + 2 ^ 554"
    by (simp only: length_append_singleton mult_Suc add.commute)
  then have "n + s \<le> length (vs @ [v]) * 2 ^ 554"
    using n(2) s(2) by (simp only: add_mono)
  note b = to_f64_bound [OF this snoc.prems(2)]
  have "squared_norm (vs @ [v]) = Units (round53 (n + s))"
    using b n(1) s(1) by (simp only: squared_norm_append f64_add.simps)
  moreover have "round53 (n + s) = 0 \<longleftrightarrow> list_all f32_is_zero (vs @ [v])"
    using round53_ge_top [of "n + s"] n(3) s(3) by (cases "n + s = 0") auto
  ultimately show ?case
    using conjunct2 [OF b] by (intro exI [of _ "round53 (n + s)"] conjI)
qed

text \<open>
  The finiteness checks of a query vector amount to: every component is finite and one of them is
  not zero. In particular the sum cannot overflow and rounding cannot lose a non-zero component.
\<close>

lemma norm_checks_iff:
  assumes "length vs \<le> 2 ^ 53"
  shows "list_all f32_is_finite vs \<and> f64_is_finite (squared_norm vs) \<and> f64_positive (squared_norm vs)
    \<longleftrightarrow> list_all f32_is_finite vs \<and> \<not> list_all f32_is_zero vs"
  using squared_norm_finite [OF _ assms] by force

end
