(* ===== verification/Request_Inputs.thy ===== *)
theory Request_Inputs
  imports Search_Limits Query_Params Json_Guard Rows Float_Norm
begin

text \<open>
  Request bodies (\<open>SearchInput\<close>, \<open>SearchScope\<close>, \<open>SemanticQueryInput\<close>, \<open>Allowance\<close>,
  \<open>CreateMemoryInput\<close>, \<open>CorrectMemoryInput\<close>, \<open>ForgetMemoryInput\<close>, their validation and the
  body parsers of \<open>src/src/lib.rs\<close> and \<open>src/src/context_tokens.rs\<close>). The library code that the
  program calls but that is not part of it (SHA-256, the derived JSON decoders and encoders of
  \<open>serde_json\<close>, the tokenizer) is the record \<open>library\<close> of functions, an argument of every
  definition that uses it.
\<close>

section \<open>Input records\<close>

record allowance =
  tokenizer :: str
  max_tokens :: "16 word"

record semantic_query_input =
  sq_generation_id :: "str option"
  sq_model_version :: "str option"
  sq_input_recipe_version :: "str option"
  sq_dimensions :: "nat option"
  sq_original_query_sha256 :: "str option"
  sq_vector :: "f32 list option"

datatype query_mode = BoundedV1 | DisjunctiveV2 | DisjunctiveV3

record search_input =
  query :: str
  query_mode :: query_mode
  semantic :: bool
  semantic_query :: "semantic_query_input option"
  scope :: "str list option" \<comment> \<open>the subjects of the optional scope\<close>
  input_context_bytes :: "16 word option"
  context_token_budget :: "allowance option"
  input_time_mode :: time_mode

record create_memory_input =
  create_content :: str
  create_subjects :: "str list"
  create_valid_from :: "str option"
  create_valid_until :: "str option"

record correct_memory_input =
  correct_expected_revision_id :: str
  correct_content :: str
  correct_subjects :: "str list"
  correct_valid_from :: "str option"
  correct_valid_until :: "str option"

record forget_memory_input =
  forget_expected_revision_id :: str

section \<open>Library functions\<close>

record evidence =
  ev_item_id :: str
  ev_revision_id :: str
  ev_text :: str
  ev_citation :: "search_citation option"

record library =
  sha256_of :: "bytes \<Rightarrow> bytes"
  decode_search :: "bytes \<Rightarrow> json_error + search_input"
  decode_create :: "bytes \<Rightarrow> json_error + create_memory_input"
  decode_correct :: "bytes \<Rightarrow> json_error + correct_memory_input"
  decode_forget :: "bytes \<Rightarrow> json_error + forget_memory_input"
  encode_create :: "create_memory_input \<Rightarrow> json_error + bytes"
  encode_correct :: "correct_memory_input \<Rightarrow> json_error + bytes"
  encode_forget :: "forget_memory_input \<Rightarrow> json_error + bytes"
  decode_value :: "str \<Rightarrow> json_error + json_value"
  vector_text :: "f32 list \<Rightarrow> str"
  envelope_writes :: "evidence list \<Rightarrow> bytes list"
  load_tokenizer :: bool
  encode_tokens :: "str \<Rightarrow> nat option"

text \<open>
  \<open>OptionalTimestamp::deserialize\<close>, \<open>OptionalSearchScope::deserialize\<close>,
  \<open>present_context_bytes\<close> and \<open>context_tokens::present\<close>, as functions of the result of the
  inner decoder: a present field is never absent, whatever its value, so \<open>null\<close> is an error of
  the inner decoder rather than an omitted field.
\<close>

definition deserialize_optional_timestamp :: "json_error + str \<Rightarrow> json_error + str option" where
  "deserialize_optional_timestamp inner =
     res_bind inner (\<lambda>value.
       if CHR 0x00 \<in> set value then Inl ''invalid timestamp'' else Inr (Some value))"

definition deserialize_present :: "json_error + 'a \<Rightarrow> json_error + 'a option" where
  "deserialize_present inner = map_ok Some inner"

section \<open>Validation\<close>

definition TOKENIZER :: str where
  "TOKENIZER = ''o200k_base:tiktoken-rs-0.12.0''"

definition validate_allowance :: "allowance \<Rightarrow> request_failure + unit" where
  "validate_allowance a =
     (if tokenizer a \<noteq> TOKENIZER then Inl UnsupportedContextTokenizer
      else if max_tokens a = 0 then Inl InvalidContextBudget
      else Inr ())"

definition default_search_context_bytes :: "search_input \<Rightarrow> search_limits \<Rightarrow> 16 word" where
  "default_search_context_bytes input limits =
     (case input_context_bytes input of
        Some b \<Rightarrow> b
      | None \<Rightarrow>
          if context_token_budget input \<noteq> None then max_context_bytes limits
          else default_context_bytes limits)"

text \<open>The subject checks that search, create and correct share.\<close>

definition invalid_subjects :: "str list \<Rightarrow> bool" where
  "invalid_subjects subjects =
     (\<not> (1 \<le> length subjects \<and> length subjects \<le> 8)
      \<or> list_ex (\<lambda>s. \<not> valid_opaque_id s) subjects
      \<or> repeats subjects)"

definition contains_nul :: "str \<Rightarrow> bool" where
  "contains_nul s = (CHR 0x00 \<in> set s)"

definition validate_search_input_with_limits ::
    "search_input \<Rightarrow> search_limits \<Rightarrow> request_failure + unit" where
  "validate_search_input_with_limits input limits =
     res_bind
       (case context_token_budget input of
          None \<Rightarrow> Inr ()
        | Some allowance \<Rightarrow> validate_allowance allowance)
       (\<lambda>_.
         let budget = (case input_context_bytes input of
                         None \<Rightarrow> default_context_bytes limits
                       | Some b \<Rightarrow> b)
         in
         if \<not> (1 \<le> length (query input) \<and> length (query input) \<le> 4096)
            \<or> trim_is_empty (query input)
            \<or> contains_nul (query input)
            \<or> \<not> (1 \<le> budget \<and> budget \<le> max_context_bytes limits)
            \<or> (case scope input of None \<Rightarrow> False | Some subjects \<Rightarrow> invalid_subjects subjects)
         then Inl Malformed
         else if query_mode input \<noteq> BoundedV1
                 \<and> (semantic input \<or> semantic_query input \<noteq> None)
         then Inl Malformed
         else if input_time_mode input \<noteq> Current then Inl UnsupportedTimeSemantics
         else Inr ())"

definition subjects_ok :: "str list \<Rightarrow> bool" where
  "subjects_ok ss = (ss \<noteq> [] \<and> length ss \<le> 8 \<and> distinct ss \<and> list_all valid_opaque_id ss)"

lemma invalid_subjects_iff [simp]: "invalid_subjects ss = (\<not> subjects_ok ss)"
  by (auto simp: invalid_subjects_def subjects_ok_def list_ex_iff list_all_iff Suc_le_eq)

lemma validate_allowance_ok [simp]:
  "validate_allowance a = Inr () \<longleftrightarrow> tokenizer a = TOKENIZER \<and> max_tokens a \<noteq> 0"
  by (simp add: validate_allowance_def)

text \<open>
  The specification of an acceptable search, independent of the order of the checks: what the
  documented limits say of each field.
\<close>

definition search_input_ok :: "search_input \<Rightarrow> search_limits \<Rightarrow> bool" where
  "search_input_ok input limits =
     (1 \<le> length (query input) \<and> length (query input) \<le> 4096
      \<and> \<not> trim_is_empty (query input) \<and> CHR 0x00 \<notin> set (query input)
      \<and> (\<forall>b. input_context_bytes input = Some b \<longrightarrow> 1 \<le> b \<and> b \<le> max_context_bytes limits)
      \<and> (\<forall>ss. scope input = Some ss \<longrightarrow> subjects_ok ss)
      \<and> (\<forall>a. context_token_budget input = Some a \<longrightarrow> tokenizer a = TOKENIZER \<and> max_tokens a \<noteq> 0)
      \<and> (query_mode input = BoundedV1 \<or> \<not> semantic input \<and> semantic_query input = None)
      \<and> input_time_mode input = Current)"

definition context_bytes_ok :: "16 word option \<Rightarrow> search_limits \<Rightarrow> bool" where
  "context_bytes_ok b limits =
     (case b of None \<Rightarrow> True | Some b \<Rightarrow> 1 \<le> b \<and> b \<le> max_context_bytes limits)"

lemma limits_okD:
  "limits_ok l \<Longrightarrow> 1 \<le> default_context_bytes l \<and> default_context_bytes l \<le> max_context_bytes l"
  by (auto simp: limits_ok_def word_le_nat_alt word_less_nat_alt)

lemma context_bytes_check:
  "limits_ok limits \<Longrightarrow>
     (let budget = (case b of None \<Rightarrow> default_context_bytes limits | Some b \<Rightarrow> b)
      in 1 \<le> budget \<and> budget \<le> max_context_bytes limits) = context_bytes_ok b limits"
  using limits_okD [of limits] by (cases b) (simp_all add: context_bytes_ok_def)

lemma allowance_check:
  "(case a of None \<Rightarrow> Inr () | Some allowance \<Rightarrow> validate_allowance allowance) = Inr u
     \<longleftrightarrow> (\<forall>x. a = Some x \<longrightarrow> tokenizer x = TOKENIZER \<and> max_tokens x \<noteq> 0)"
  by (cases a) simp_all

lemma guard_chain:
  "(if a then Inl x else if b then Inl y else if c then Inl z else Inr ()) = Inr ()
     \<longleftrightarrow> \<not> a \<and> \<not> b \<and> \<not> c"
  by simp

lemma validate_search_input_iff:
  assumes "limits_ok limits"
  shows "validate_search_input_with_limits i limits = Inr () \<longleftrightarrow> search_input_ok i limits"
proof -
  have s: "(case scope i of None \<Rightarrow> False | Some subjects \<Rightarrow> invalid_subjects subjects)
      = (\<not> (\<forall>ss. scope i = Some ss \<longrightarrow> subjects_ok ss))"
    by (cases "scope i") simp_all
  have b: "context_bytes_ok (input_context_bytes i) limits
      = (\<forall>b. input_context_bytes i = Some b \<longrightarrow> 1 \<le> b \<and> b \<le> max_context_bytes limits)"
    by (cases "input_context_bytes i") (simp_all add: context_bytes_ok_def)
  note check = context_bytes_check [OF assms, of "input_context_bytes i", unfolded Let_def]
  show ?thesis
    unfolding validate_search_input_with_limits_def search_input_ok_def contains_nul_def Let_def
      s check res_bind_Inr allowance_check guard_chain b [symmetric]
    by blast
qed

lemma default_bytes_ok:
  assumes "limits_ok limits" and "context_bytes_ok (input_context_bytes i) limits"
  shows "1 \<le> default_search_context_bytes i limits
    \<and> default_search_context_bytes i limits \<le> max_context_bytes limits"
  using limits_okD [OF assms(1)] assms(2) order_trans
  by (cases "input_context_bytes i")
    (auto simp: default_search_context_bytes_def context_bytes_ok_def)

text \<open>
  C25. Validation accepts exactly the documented searches: under well-formed operator limits a
  request passes if and only if its query, byte allowance, scope, token allowance, query mode and
  time mode are each within their documented bounds. The byte allowance that
  \<open>default_search_context_bytes\<close> fills in never turns an acceptable request into a rejected one,
  and lies between 1 and the operator's maximum.
\<close>

theorem validate_search_input_exact:
  assumes "limits_ok limits"
  shows "(validate_search_input_with_limits input limits = Inr () \<longleftrightarrow> search_input_ok input limits)
    \<and> (search_input_ok input limits \<longrightarrow>
        (let b = default_search_context_bytes input limits;
             prepared = input\<lparr>input_context_bytes := Some b\<rparr>
         in 1 \<le> b \<and> b \<le> max_context_bytes limits
            \<and> validate_search_input_with_limits prepared limits = Inr ()))"
proof -
  let ?b = "default_search_context_bytes input limits"
  have "search_input_ok input limits \<Longrightarrow> 1 \<le> ?b \<and> ?b \<le> max_context_bytes limits"
    by (rule default_bytes_ok [OF assms])
      (auto simp: search_input_ok_def context_bytes_ok_def split: option.split)
  moreover from this have "search_input_ok input limits
      \<Longrightarrow> search_input_ok (input\<lparr>input_context_bytes := Some ?b\<rparr>) limits"
    by (simp add: search_input_ok_def)
  ultimately show ?thesis
    unfolding validate_search_input_iff [OF assms] Let_def by blast
qed

definition sample_search :: search_input where
  "sample_search = \<lparr>query = ''Cedar payment terms'', query_mode = BoundedV1, semantic = False,
     semantic_query = None, scope = Some [''sub_1''], input_context_bytes = None,
     context_token_budget = None, input_time_mode = Current\<rparr>"

theorem validate_search_input_exact_witness:
  "limits_ok default_search_limits
   \<and> validate_search_input_with_limits sample_search default_search_limits = Inr ()
   \<and> default_search_context_bytes sample_search default_search_limits = 8192"
proof -
  have "\<not> trim_is_empty ''Cedar payment terms''" and "subjects_ok [''sub_1'']"
    by code_simp+
  then have ok: "search_input_ok sample_search default_search_limits"
    by (simp add: search_input_ok_def sample_search_def)
  have bytes: "default_search_context_bytes sample_search default_search_limits = 8192"
    by (simp add: default_search_context_bytes_def sample_search_def default_search_limits_def)
  show ?thesis
    using conjunct1 [OF validate_search_input_exact [OF default_limits_ok]] ok default_limits_ok bytes
    by blast
qed

section \<open>Write bodies\<close>

definition parse_create_body ::
    "library \<Rightarrow> bytes \<Rightarrow> request_failure + create_memory_input \<times> bytes" where
  "parse_create_body lib body =
     (if \<not> bounded_json_structure body then Inl Malformed
      else
        res_bind (map_err JsonBody (decode_create lib body)) (\<lambda>input.
          if \<not> (1 \<le> length (create_content input) \<and> length (create_content input) \<le> 32 * 1024)
             \<or> contains_nul (create_content input)
             \<or> invalid_subjects (create_subjects input)
          then Inl Malformed
          else
            res_bind (map_err JsonBody (encode_create lib input)) (\<lambda>canonical_body.
              Inr (input, canonical_request_digest (sha256_of lib) canonical_body))))"

definition parse_correct_body ::
    "library \<Rightarrow> bytes \<Rightarrow> request_failure + correct_memory_input" where
  "parse_correct_body lib body =
     (if \<not> bounded_json_structure body then Inl Malformed
      else
        res_bind (map_err JsonBody (decode_correct lib body)) (\<lambda>input.
          if \<not> valid_opaque_id (correct_expected_revision_id input)
             \<or> \<not> (1 \<le> length (correct_content input) \<and> length (correct_content input) \<le> 32 * 1024)
             \<or> contains_nul (correct_content input)
             \<or> invalid_subjects (correct_subjects input)
          then Inl Malformed
          else Inr input))"

definition parse_forget_body ::
    "library \<Rightarrow> bytes \<Rightarrow> request_failure + forget_memory_input \<times> bytes" where
  "parse_forget_body lib body =
     (if \<not> bounded_json_structure body then Inl Malformed
      else
        res_bind (map_err JsonBody (decode_forget lib body)) (\<lambda>input.
          if \<not> valid_opaque_id (forget_expected_revision_id input) then Inl Malformed
          else
            res_bind (map_err JsonBody (encode_forget lib input)) (\<lambda>canonical.
              Inr (input, canonical))))"

definition content_ok :: "str \<Rightarrow> bool" where
  "content_ok c = (1 \<le> length c \<and> length c \<le> 32768 \<and> CHR 0x00 \<notin> set c)"

text \<open>
  The contract of a body parser towards the write routes: it accepts only bodies that pass the
  structural guard and whose decoded value meets the documented bounds, and every rejection is a
  malformed-request failure.
\<close>

locale body_parser =
  fixes parse :: "library \<Rightarrow> bytes \<Rightarrow> request_failure + 'r"
    and ok :: "'r \<Rightarrow> bool"
  assumes parsed_ok: "parse lib body = Inr r \<Longrightarrow> ok r"
    and parsed_guarded: "parse lib body = Inr r \<Longrightarrow> bounded_json_structure body"
    and rejected: "parse lib body = Inl e \<Longrightarrow> e = Malformed \<or> (\<exists>j. e = JsonBody j)"
begin

lemma rejection_is_400: "parse lib body = Inl e \<Longrightarrow> status_and_code e = (400, ''malformed'')"
  by (auto dest: rejected)

lemma rejection_outcome_malformed:
  "parse lib body = Inl e \<Longrightarrow> audit_outcome op e = Some ''malformed''"
  by (auto dest: rejected simp: audit_outcome_def)

lemma accepts_or_rejects_400:
  "(\<exists>r. parse lib body = Inr r \<and> ok r \<and> bounded_json_structure body)
   \<or> (\<exists>e. parse lib body = Inl e \<and> status_and_code e = (400, ''malformed''))"
  using parsed_ok parsed_guarded rejection_is_400 by (cases "parse lib body") blast+

end

interpretation create_body: body_parser parse_create_body
  "\<lambda>(i, d). content_ok (create_content i) \<and> subjects_ok (create_subjects i)"
  by unfold_locales
    (auto simp: parse_create_body_def content_ok_def contains_nul_def result_simps split: if_splits)

interpretation correct_body: body_parser parse_correct_body
  "\<lambda>i. valid_opaque_id (correct_expected_revision_id i) \<and> content_ok (correct_content i)
       \<and> subjects_ok (correct_subjects i)"
  by unfold_locales
    (auto simp: parse_correct_body_def content_ok_def contains_nul_def result_simps split: if_splits)

interpretation forget_body: body_parser parse_forget_body
  "\<lambda>(i, c). valid_opaque_id (forget_expected_revision_id i)"
  by unfold_locales
    (auto simp: parse_forget_body_def result_simps split: if_splits)

end
