(* ===== verification/Token_Budget.thy ===== *)
theory Token_Budget
  imports Request_Inputs
begin

text \<open>
  The token allowance of a search (\<open>src/src/context_tokens.rs\<close>): the bounded writer, the
  rendering of an evidence envelope, and \<open>Work\<close>, which counts the tokens of each candidate
  envelope and keeps the last accepted one. The serializer and the tokenizer are library
  functions: \<open>envelope_writes\<close> is the sequence of \<open>write_all\<close> calls \<open>serde_json\<close> makes for an
  envelope and \<open>encode_tokens\<close> the number of tokens of a text, if the tokenizer accepts it.
\<close>

definition MAX_SERIALIZED_BYTES :: nat where
  "MAX_SERIALIZED_BYTES = 512 * 1024"

definition MAX_COUNTS :: nat where
  "MAX_COUNTS = 83"

section \<open>The bounded writer\<close>

datatype io_error = Serialization_Bound | Write_Zero

definition bounded_write :: "bytes \<Rightarrow> bytes \<Rightarrow> io_error + nat \<times> bytes" where
  "bounded_write written buf =
     (if length buf > MAX_SERIALIZED_BYTES - length written then Inl Serialization_Bound
      else Inr (length buf, written @ buf))"

text \<open>The standard library's \<open>write_all\<close>: \<open>write\<close> until the buffer is empty.\<close>

function write_all :: "bytes \<Rightarrow> bytes \<Rightarrow> io_error + bytes" where
  "write_all written buf =
     (if buf = [] then Inr written
      else
        case bounded_write written buf of
          Inl e \<Rightarrow> Inl e
        | Inr (n, written') \<Rightarrow>
            if n = 0 then Inl Write_Zero else write_all written' (drop n buf))"
  by pat_completeness auto

termination write_all
  by (relation "measure (\<lambda>(_, buf). length buf)") auto

declare write_all.simps [simp del]

fun to_writer :: "bytes \<Rightarrow> bytes list \<Rightarrow> io_error + bytes" where
  "to_writer written [] = Inr written"
| "to_writer written (chunk # chunks) =
     res_bind (write_all written chunk) (\<lambda>w. to_writer w chunks)"

lemma write_all_eq:
  "length written \<le> MAX_SERIALIZED_BYTES \<Longrightarrow>
     write_all written buf =
       (if length written + length buf \<le> MAX_SERIALIZED_BYTES then Inr (written @ buf)
        else Inl Serialization_Bound)"
  by (subst write_all.simps, cases "buf = []")
    (auto simp: bounded_write_def write_all.simps [of _ "[]"])

lemma to_writer_iff:
  "length written \<le> MAX_SERIALIZED_BYTES \<Longrightarrow>
     to_writer written chunks = Inr text \<longleftrightarrow>
       text = written @ concat chunks \<and> length text \<le> MAX_SERIALIZED_BYTES"
  by (induction chunks arbitrary: written) (auto simp: write_all_eq)

section \<open>Rendering\<close>

definition evidence_of :: "search_item \<Rightarrow> evidence" where
  "evidence_of item =
     \<lparr>ev_item_id = item_id item, ev_revision_id = revision_id item,
      ev_text = excerpt item, ev_citation = citation item\<rparr>"

definition render_evidence ::
    "library \<Rightarrow> search_item list \<Rightarrow> search_item option \<Rightarrow> request_failure + str" where
  "render_evidence lib items candidate =
     (if length items + (if candidate = None then 0 else 1) > 12 then Inl ContextBudgetUnavailable
      else
        let chain = items @ (case candidate of None \<Rightarrow> [] | Some c \<Rightarrow> [c]) in
        res_bind
          (map_err (\<lambda>_. ContextBudgetUnavailable)
            (to_writer [] (envelope_writes lib (map evidence_of chain))))
          (\<lambda>text. if utf8_valid text then Inr text else Inl ContextBudgetUnavailable))"

text \<open>The whole envelope of a list of items, as one text.\<close>

definition envelope :: "library \<Rightarrow> search_item list \<Rightarrow> str" where
  "envelope lib items = concat (envelope_writes lib (map evidence_of items))"

lemma render_evidence_iff:
  "render_evidence lib items candidate = Inr text \<longleftrightarrow>
     (let chain = items @ (case candidate of None \<Rightarrow> [] | Some c \<Rightarrow> [c]) in
        length chain \<le> 12 \<and> text = envelope lib chain
        \<and> length text \<le> MAX_SERIALIZED_BYTES \<and> is_utf8 text)"
  by (cases candidate)
    (auto simp: render_evidence_def envelope_def to_writer_iff utf8_valid_iff result_simps Let_def)

lemma render_evidence_error: "render_evidence lib items c = Inl e \<Longrightarrow> e = ContextBudgetUnavailable"
  by (auto simp: render_evidence_def result_simps Let_def split: if_splits)

section \<open>Counting\<close>

record token_context =
  context_format :: str
  context_tokenizer :: str
  context_max_tokens :: "16 word"
  token_count :: nat
  context_text :: str

record work =
  work_context :: token_context
  counts :: nat
  counted_bytes :: nat

definition checked_add_usize :: "nat \<Rightarrow> nat \<Rightarrow> nat option" where
  "checked_add_usize a b = (if a + b < 2 ^ 64 then Some (a + b) else None)"

definition work_count :: "library \<Rightarrow> work \<Rightarrow> str \<Rightarrow> request_failure + nat \<times> work" where
  "work_count lib w text =
     (if MAX_COUNTS \<le> counts w
         \<or> length text > MAX_SERIALIZED_BYTES
         \<or> (case checked_add_usize (counted_bytes w) (length text) of
              None \<Rightarrow> True
            | Some n \<Rightarrow> n > MAX_COUNTS * MAX_SERIALIZED_BYTES)
      then Inl ContextBudgetUnavailable
      else
        let w' = w\<lparr>counts := counts w + 1, counted_bytes := counted_bytes w + length text\<rparr> in
        case encode_tokens lib text of
          None \<Rightarrow> Inl ContextBudgetUnavailable
        | Some n \<Rightarrow> Inr (n, w'))"

definition work_new :: "library \<Rightarrow> allowance \<Rightarrow> request_failure + work" where
  "work_new lib a =
     res_bind (validate_allowance a) (\<lambda>_.
       if \<not> load_tokenizer lib then Inl ContextBudgetUnavailable
       else
         let work = \<lparr>work_context =
                       \<lparr>context_format = ''native-evidence-json-v1'',
                        context_tokenizer = TOKENIZER, context_max_tokens = max_tokens a,
                        token_count = 0, context_text = []\<rparr>,
                     counts = 0, counted_bytes = 0\<rparr>
         in
         res_bind (render_evidence lib [] None) (\<lambda>text.
         res_bind (work_count lib work text) (\<lambda>(count, work).
           if count > unat (max_tokens a) then Inl InvalidContextBudget
           else
             Inr (work\<lparr>work_context :=
               (work_context work)\<lparr>context_text := text, token_count := count\<rparr>\<rparr>))))"

definition work_admit ::
    "library \<Rightarrow> work \<Rightarrow> search_item list \<Rightarrow> search_item \<Rightarrow> request_failure + bool \<times> work" where
  "work_admit lib w items candidate =
     res_bind (render_evidence lib items (Some candidate)) (\<lambda>text.
     res_bind (work_count lib w text) (\<lambda>(count, w).
       if count \<le> unat (context_max_tokens (work_context w)) then
         Inr (True, w\<lparr>work_context :=
           (work_context w)\<lparr>context_text := text, token_count := count\<rparr>\<rparr>)
       else Inr (False, w)))"

text \<open>
  The invariant of a token budget in front of a list of accepted items: its context is the
  envelope of exactly those items, counted by the tokenizer and within the allowance, and the
  bytes counted so far are bounded by the number of counts.
\<close>

definition work_for :: "library \<Rightarrow> search_item list \<Rightarrow> work \<Rightarrow> bool" where
  "work_for lib items w =
     (context_text (work_context w) = envelope lib items
      \<and> encode_tokens lib (envelope lib items) = Some (token_count (work_context w))
      \<and> token_count (work_context w) \<le> unat (context_max_tokens (work_context w))
      \<and> counted_bytes w \<le> counts w * MAX_SERIALIZED_BYTES)"

lemma work_count_iff:
  assumes "counted_bytes w \<le> counts w * MAX_SERIALIZED_BYTES"
  shows "work_count lib w text = Inr (n, w') \<longleftrightarrow>
     counts w < MAX_COUNTS \<and> length text \<le> MAX_SERIALIZED_BYTES
     \<and> encode_tokens lib text = Some n
     \<and> w' = w\<lparr>counts := counts w + 1, counted_bytes := counted_bytes w + length text\<rparr>"
proof -
  have "counted_bytes w + length text \<le> MAX_COUNTS * MAX_SERIALIZED_BYTES"
    if "counts w < MAX_COUNTS" "length text \<le> MAX_SERIALIZED_BYTES"
  proof -
    have "counts w * MAX_SERIALIZED_BYTES + MAX_SERIALIZED_BYTES \<le> MAX_COUNTS * MAX_SERIALIZED_BYTES"
      using mult_le_mono1 [of "Suc (counts w)" MAX_COUNTS MAX_SERIALIZED_BYTES] that(1) by simp
    with assms that(2) show ?thesis by linarith
  qed
  moreover have "MAX_COUNTS * MAX_SERIALIZED_BYTES < 2 ^ 64"
    by (simp add: MAX_COUNTS_def MAX_SERIALIZED_BYTES_def)
  ultimately show ?thesis
    by (cases "encode_tokens lib text")
      (auto simp: work_count_def checked_add_usize_def Let_def not_le)
qed

lemma work_count_error: "work_count lib w text = Inl e \<Longrightarrow> e = ContextBudgetUnavailable"
  by (auto simp: work_count_def Let_def split: if_splits option.splits)

lemma work_new_ok:
  assumes "work_new lib a = Inr w"
  shows "work_for lib [] w \<and> context_max_tokens (work_context w) = max_tokens a \<and> counts w = 1"
proof -
  from assms obtain rendered count w0 w1 where
    r: "render_evidence lib [] None = Inr rendered" and
    c: "work_count lib w0 rendered = Inr (count, w1)" and
    w0: "counts w0 = 0" "counted_bytes w0 = 0" "context_max_tokens (work_context w0) = max_tokens a"
    and le: "count \<le> unat (max_tokens a)" and
    w: "w = w1\<lparr>work_context := (work_context w1)\<lparr>context_text := rendered, token_count := count\<rparr>\<rparr>"
    by (auto simp: work_new_def Let_def result_simps split: if_splits)
  have c': "encode_tokens lib rendered = Some count" "length rendered \<le> MAX_SERIALIZED_BYTES"
    "w1 = w0\<lparr>counts := counts w0 + 1, counted_bytes := counted_bytes w0 + length rendered\<rparr>"
    using c w0 by (simp_all add: work_count_iff)
  with r w w0 le show ?thesis
    by (simp add: work_for_def render_evidence_iff)
qed

text \<open>
  What an admission does, for the packing loop: an accepted candidate extends the envelope, a
  refused one leaves it as it was, and either costs one count.
\<close>

lemma work_admit_cases:
  assumes "work_for lib items w" and "work_admit lib w items c = Inr (ok, w')"
  shows "(if ok then work_for lib (items @ [c]) w' else work_for lib items w')
    \<and> counts w' = counts w + 1
    \<and> context_max_tokens (work_context w') = context_max_tokens (work_context w)
    \<and> ok = (\<exists>n. encode_tokens lib (envelope lib (items @ [c])) = Some n
                \<and> n \<le> unat (context_max_tokens (work_context w)))"
proof -
  from assms(2) obtain rendered count w1 where
    r: "render_evidence lib items (Some c) = Inr rendered" and
    n: "work_count lib w rendered = Inr (count, w1)" and
    k: "if count \<le> unat (context_max_tokens (work_context w1))
        then ok \<and> w' = w1\<lparr>work_context :=
               (work_context w1)\<lparr>context_text := rendered, token_count := count\<rparr>\<rparr>
        else \<not> ok \<and> w' = w1"
    by (auto simp: work_admit_def result_simps split: if_splits)
  have b: "counted_bytes w \<le> counts w * MAX_SERIALIZED_BYTES"
    using assms(1) by (simp add: work_for_def)
  note n' = n [unfolded work_count_iff [OF b]]
  from r n' k assms(1) show ?thesis
    by (auto simp: work_for_def render_evidence_iff split: if_splits)
qed

lemma work_admit_error: "work_admit lib w items c = Inl e \<Longrightarrow> e = ContextBudgetUnavailable"
  by (auto simp: work_admit_def result_simps split: if_splits
      dest: render_evidence_error work_count_error)

text \<open>
  The reasons an admission can fail at all: the count limit, an envelope that cannot be rendered,
  or a text that the tokenizer rejects.
\<close>

lemma work_admit_defined:
  assumes "work_for lib items w" and "counts w < MAX_COUNTS" and "length items < 12"
    and "length (envelope lib (items @ [c])) \<le> MAX_SERIALIZED_BYTES"
    and "is_utf8 (envelope lib (items @ [c]))"
    and "encode_tokens lib (envelope lib (items @ [c])) = Some n"
  shows "\<exists>ok w'. work_admit lib w items c = Inr (ok, w')"
proof -
  have r: "render_evidence lib items (Some c) = Inr (envelope lib (items @ [c]))"
    using assms(3-5) by (simp add: render_evidence_iff)
  have "counted_bytes w \<le> counts w * MAX_SERIALIZED_BYTES"
    using assms(1) by (simp add: work_for_def)
  then obtain w' where "work_count lib w (envelope lib (items @ [c])) = Inr (n, w')"
    using assms(2,4,6) by (simp add: work_count_iff)
  with r show ?thesis by (cases "n \<le> unat (context_max_tokens (work_context w'))")
      (auto simp: work_admit_def)
qed

text \<open>
  C20. The serialized envelope and the token count can be trusted: when the budget admits or
  refuses a candidate, the text it keeps is the complete envelope of exactly the accepted items,
  at most 512 KiB of valid UTF-8, its recorded token count is the tokenizer's count of that text
  and is within the allowance, and it refuses exactly when the extended envelope has more tokens
  than the allowance. The guard on the total bytes counted never decides: the count limit of 83
  implies it.
\<close>

theorem work_admit_exact:
  assumes "work_for lib items w" and "work_admit lib w items c = Inr (ok, w')"
  shows "work_for lib (if ok then items @ [c] else items) w'
    \<and> ok = (\<exists>n. encode_tokens lib (envelope lib (items @ [c])) = Some n
                \<and> n \<le> unat (context_max_tokens (work_context w)))
    \<and> (ok \<longrightarrow> length (context_text (work_context w')) \<le> 512 * 1024
             \<and> is_utf8 (context_text (work_context w')))
    \<and> counts w' = counts w + 1 \<and> counts w' \<le> 83"
proof -
  from assms(2) obtain rendered count w1 where
    r: "render_evidence lib items (Some c) = Inr rendered" and
    n: "work_count lib w rendered = Inr (count, w1)"
    by (auto simp: work_admit_def result_simps)
  have b: "counted_bytes w \<le> counts w * MAX_SERIALIZED_BYTES"
    using assms(1) by (simp add: work_for_def)
  have "counts w < MAX_COUNTS" and t: "length rendered \<le> 512 * 1024" "is_utf8 rendered"
    "rendered = envelope lib (items @ [c])"
    using n [unfolded work_count_iff [OF b]] r
    by (auto simp: render_evidence_iff MAX_SERIALIZED_BYTES_def)
  with work_admit_cases [OF assms] show ?thesis
    by (auto simp: work_for_def MAX_COUNTS_def)
qed

text \<open>A small library for concrete runs: one token for every four bytes of the envelope.\<close>

definition sample_library :: library where
  "sample_library =
     \<lparr>sha256_of = (\<lambda>s. replicate 32 CHR 0x00),
      decode_search = (\<lambda>_. Inl ''unused''), decode_create = (\<lambda>_. Inl ''unused''),
      decode_correct = (\<lambda>_. Inl ''unused''), decode_forget = (\<lambda>_. Inl ''unused''),
      encode_create = (\<lambda>_. Inl ''unused''), encode_correct = (\<lambda>_. Inl ''unused''),
      encode_forget = (\<lambda>_. Inl ''unused''),
      decode_value = (\<lambda>s. Inr s), vector_text = (\<lambda>_. []),
      envelope_writes = (\<lambda>es. ''['' # map ev_text es @ ['']'']),
      load_tokenizer = True,
      encode_tokens = (\<lambda>s. Some (length s div 4))\<rparr>"

definition sample_item :: "str \<Rightarrow> search_item" where
  "sample_item text =
     \<lparr>item_id = ''i'', revision_id = ''r'', excerpt = text, recorded_at = ''t'', valid_from = None,
      valid_until = None, validity_status = ''current'', reason = ''lexical'',
      semantic_status = ''not_requested'', citation = None\<rparr>"

definition sample_work :: work where
  "sample_work =
     \<lparr>work_context = \<lparr>context_format = ''native-evidence-json-v1'',
        context_tokenizer = TOKENIZER, context_max_tokens = 2, token_count = 0,
        context_text = ''[]''\<rparr>, counts = 1, counted_bytes = 2\<rparr>"

lemmas sample_defs =
  sample_library_def sample_item_def sample_work_def work_new_def work_admit_def work_count_def
  render_evidence_def evidence_of_def write_all_eq checked_add_usize_def
  MAX_COUNTS_def MAX_SERIALIZED_BYTES_def

theorem work_admit_exact_witness:
  "work_new sample_library \<lparr>tokenizer = TOKENIZER, max_tokens = 2\<rparr> = Inr sample_work
   \<and> (\<exists>w'. work_admit sample_library sample_work [] (sample_item ''abcd'') = Inr (True, w')
        \<and> work_for sample_library [sample_item ''abcd''] w')
   \<and> (\<exists>w'. work_admit sample_library sample_work [] (sample_item ''abcdefghijklm'') = Inr (False, w')
        \<and> work_for sample_library [] w')"
proof (intro conjI)
  show new: "work_new sample_library \<lparr>tokenizer = TOKENIZER, max_tokens = 2\<rparr> = Inr sample_work"
    by (simp add: sample_defs validate_allowance_def)
  have w: "work_for sample_library [] sample_work"
    using work_new_ok [OF new] by simp
  let ?a = "work_admit sample_library sample_work [] (sample_item ''abcd'')"
  have "\<exists>w'. ?a = Inr (True, w')"
    by (simp add: sample_defs)
  then obtain w' where a: "?a = Inr (True, w')" ..
  with work_admit_exact [OF w a]
  show "\<exists>w'. ?a = Inr (True, w') \<and> work_for sample_library [sample_item ''abcd''] w'"
    by auto
  let ?b = "work_admit sample_library sample_work [] (sample_item ''abcdefghijklm'')"
  have "\<exists>w'. ?b = Inr (False, w')"
    by (simp add: sample_defs)
  then obtain w' where b: "?b = Inr (False, w')" ..
  with work_admit_exact [OF w b]
  show "\<exists>w'. ?b = Inr (False, w') \<and> work_for sample_library [] w'"
    by auto
qed

end
