(* ===== verification/Excerpts.thy ===== *)
theory Excerpts
  imports Rust_Text "HOL-Library.Word"
begin

text \<open>
  The excerpt budget of a search response (\<open>ExcerptBudget\<close> and \<open>bounded_excerpt\<close> of
  \<open>src/src/lib.rs\<close>). The budget counts UTF-8 bytes; \<open>take\<close> shortens a memory to at most 512
  bytes, on a character boundary, and \<open>take_whole\<close> accepts a passage whole or not at all. Both
  are admissions in the sense of the locale \<open>byte_admission\<close>: what they accept is exactly
  what they charge, and a refusal marks the response truncated and charges nothing. The packing
  loop is proved against that interface.
\<close>

section \<open>Bounded excerpts\<close>

text \<open>
  \<open>while !content.is_char_boundary(end) { end -= 1 }\<close>: offset 0 is a boundary, so the loop
  stops and the subtraction never underflows.
\<close>

fun boundary_below :: "str \<Rightarrow> nat \<Rightarrow> nat" where
  "boundary_below s 0 = 0"
| "boundary_below s (Suc n) = (if is_char_boundary s (Suc n) then Suc n else boundary_below s n)"

definition bounded_excerpt :: "str \<Rightarrow> nat \<Rightarrow> str" where
  "bounded_excerpt content max_bytes =
     take (boundary_below content (min (length content) max_bytes)) content"

text \<open>
  The same loop as the code runs it, on a 64-bit \<open>usize\<close>, where \<open>- 1\<close> wraps below 0: a value
  exists only if the loop ends.
\<close>

partial_function (option) boundary_loop :: "str \<Rightarrow> 64 word \<Rightarrow> 64 word option" where
  "boundary_loop s stop =
     (if \<not> is_char_boundary s (unat stop) then boundary_loop s (stop - 1) else Some stop)"

declare boundary_loop.simps [code]

lemma unat_usize: "n < 2 ^ 64 \<Longrightarrow> unat (word_of_nat n :: 64 word) = n"
  by (simp add: unsigned_of_nat take_bit_nat_eq_self)

lemma boundary_loop_of_nat:
  "n < 2 ^ 64 \<Longrightarrow> boundary_loop s (word_of_nat n) = Some (word_of_nat (boundary_below s n))"
proof (induction n)
  case 0
  then show ?case by (simp add: boundary_loop.simps)
next
  case (Suc n)
  then have "unat (word_of_nat (Suc n) :: 64 word) = Suc n"
    by (intro unat_usize)
  moreover have "word_of_nat (Suc n) - 1 = (word_of_nat n :: 64 word)" by simp
  ultimately show ?case
    using Suc by (subst boundary_loop.simps) (simp del: of_nat_Suc)
qed

lemma boundary_below_le: "boundary_below s n \<le> n"
  by (induction n) auto

lemma boundary_below_is_boundary: "is_char_boundary s (boundary_below s n)"
  by (induction n) auto

lemma boundary_below_greatest: "j \<le> n \<Longrightarrow> is_char_boundary s j \<Longrightarrow> j \<le> boundary_below s n"
  by (induction n) (auto simp: le_Suc_eq)

lemma boundary_below_fixed: "is_char_boundary s n \<Longrightarrow> boundary_below s n = n"
  by (cases n) auto

lemma length_bounded_excerpt:
  "length (bounded_excerpt s m) = boundary_below s (min (length s) m)"
  using boundary_below_le [of s "min (length s) m"] by (simp add: bounded_excerpt_def)

lemma bounded_excerpt_le [simp]: "length (bounded_excerpt s m) \<le> m"
  using boundary_below_le [of s "min (length s) m"] by (simp add: length_bounded_excerpt)

lemma bounded_excerpt_le_length [simp]: "length (bounded_excerpt s m) \<le> length s"
  using boundary_below_le [of s "min (length s) m"] by (simp add: length_bounded_excerpt)

lemma bounded_excerpt_whole: "length s \<le> m \<Longrightarrow> bounded_excerpt s m = s"
  by (simp add: bounded_excerpt_def boundary_below_fixed)

lemma bounded_excerpt_prefix: "prefix (bounded_excerpt s m) s"
  by (simp add: bounded_excerpt_def take_is_prefix)

lemma bounded_excerpt_full_length:
  "length (bounded_excerpt s m) = length s \<Longrightarrow> bounded_excerpt s m = s"
  using boundary_below_le [of s "min (length s) m"]
  by (simp add: length_bounded_excerpt) (simp add: bounded_excerpt_def)

lemma boundary_below_near:
  assumes "is_utf8 s"
  shows "min (length s) m \<le> boundary_below s (min (length s) m) + 3"
proof -
  let ?n = "min (length s) m"
  from assms obtain cps where cps: "list_all is_scalar cps" and s: "s = utf8_str cps"
    by (auto simp: is_utf8_def)
  obtain j where "j \<le> ?n" "is_char_boundary s j" "?n \<le> j + 3"
    using boundary_within_three [OF cps, of ?n] s by auto
  then show ?thesis using boundary_below_greatest [of j ?n s] by simp
qed

lemma bounded_excerpt_utf8: "is_utf8 s \<Longrightarrow> is_utf8 (bounded_excerpt s m)"
  unfolding bounded_excerpt_def by (rule is_utf8_take [OF _ boundary_below_is_boundary])

text \<open>
  C21. A bounded excerpt of a UTF-8 text is a prefix of it that is again valid UTF-8, never exceeds
  the byte bound, is the whole text when that fits, and otherwise gives up at most three bytes of
  the bound to stay on a character boundary.
\<close>

theorem bounded_excerpt_correct:
  assumes "is_utf8 s"
  shows "prefix (bounded_excerpt s m) s \<and> is_utf8 (bounded_excerpt s m)
    \<and> length (bounded_excerpt s m) \<le> m
    \<and> (if length s \<le> m then bounded_excerpt s m = s else m \<le> length (bounded_excerpt s m) + 3)"
proof -
  show ?thesis
    using bounded_excerpt_utf8 [OF assms] bounded_excerpt_le [of s m] boundary_below_near [OF assms, of m]
    by (auto simp: bounded_excerpt_prefix bounded_excerpt_whole length_bounded_excerpt)
qed

theorem bounded_excerpt_correct_witness:
  "let s = utf8_str [0xE9, 0xE9] in bounded_excerpt s 3 = utf8_str [0xE9]
     \<and> prefix (bounded_excerpt s 3) s \<and> 3 \<le> length (bounded_excerpt s 3) + 3"
proof -
  have u: "is_utf8 (utf8_str [0xE9, 0xE9])"
    unfolding is_utf8_def by (intro exI [of _ "[0xE9, 0xE9]"]) (simp add: is_scalar_def)
  have "bounded_excerpt (utf8_str [0xE9, 0xE9]) 3 = utf8_str [0xE9]"
    by code_simp
  then show ?thesis
    using bounded_excerpt_correct [OF u, of 3] by (simp add: Let_def utf8_encode_def)
qed

text \<open>
  C30. Shortening always ends: for every text that fits the address space and every bound, the loop
  that looks for a character boundary stops, never steps below offset 0, and takes at most three
  steps when the text is valid UTF-8. Where it stops is where the excerpt ends.
\<close>

theorem bounded_excerpt_terminates:
  assumes "length s < 2 ^ 64"
  shows "\<exists>stop. boundary_loop s (word_of_nat (min (length s) m)) = Some stop
    \<and> bounded_excerpt s m = take (unat stop) s
    \<and> unat stop \<le> min (length s) m
    \<and> (is_utf8 s \<longrightarrow> min (length s) m - unat stop \<le> 3)"
proof -
  let ?n = "min (length s) m"
  have n: "?n < 2 ^ 64" using assms by (simp add: min_less_iff_disj)
  moreover have "boundary_below s ?n < 2 ^ 64"
    using boundary_below_le [of s ?n] n by linarith
  then have "unat (word_of_nat (boundary_below s ?n) :: 64 word) = boundary_below s ?n"
    by (intro unat_usize)
  moreover have "?n - boundary_below s ?n \<le> 3" if "is_utf8 s"
    using boundary_below_near [OF that, of m] by linarith
  ultimately show ?thesis
    using boundary_loop_of_nat [OF n, of s] boundary_below_le [of s ?n]
    by (intro exI conjI) (auto simp: bounded_excerpt_def)
qed

theorem bounded_excerpt_terminates_witness:
  "\<exists>stop. boundary_loop (utf8_str [0xE9, 0xE9]) 3 = Some stop
     \<and> bounded_excerpt (utf8_str [0xE9, 0xE9]) 3 = take (unat stop) (utf8_str [0xE9, 0xE9])
     \<and> unat stop \<le> 3"
proof -
  let ?s = "utf8_str [0xE9, 0xE9]"
  have l: "length ?s = 4" by code_simp
  have m: "min (length ?s) 3 = 3" unfolding l by simp
  have "length ?s < 2 ^ 64" unfolding l by simp
  from bounded_excerpt_terminates [OF this, of 3, unfolded m]
  show ?thesis unfolding of_nat_numeral by blast
qed

section \<open>The budget\<close>

record excerpt_budget =
  remaining :: nat
  truncated :: bool

definition new_budget :: "nat \<Rightarrow> excerpt_budget" where
  "new_budget limit = \<lparr>remaining = limit, truncated = False\<rparr>"

definition take_excerpt :: "excerpt_budget \<Rightarrow> str \<Rightarrow> str option \<times> excerpt_budget" where
  "take_excerpt b content =
     (if remaining b = 0 then (None, b\<lparr>truncated := True\<rparr>)
      else
        let excerpt = bounded_excerpt content (min (remaining b) 512)
        in if excerpt = [] \<and> content \<noteq> [] then (None, b\<lparr>truncated := True\<rparr>)
           else (Some excerpt,
                 b\<lparr>remaining := remaining b - length excerpt,
                   truncated := (truncated b \<or> length excerpt < length content)\<rparr>))"

definition take_whole :: "excerpt_budget \<Rightarrow> str \<Rightarrow> str option \<times> excerpt_budget" where
  "take_whole b content =
     (if length content > remaining b then (None, b\<lparr>truncated := True\<rparr>)
      else (Some content, b\<lparr>remaining := remaining b - length content\<rparr>))"

locale byte_admission =
  fixes admit :: "excerpt_budget \<Rightarrow> str \<Rightarrow> str option \<times> excerpt_budget"
  assumes accepted: "admit b s = (Some x, b') \<Longrightarrow> length x + remaining b' = remaining b"
    and accepted_prefix: "admit b s = (Some x, b') \<Longrightarrow> prefix x s"
    and accepted_short: "admit b s = (Some x, b') \<Longrightarrow> truncated b' = (truncated b \<or> x \<noteq> s)"
    and accepted_text: "admit b s = (Some x, b') \<Longrightarrow> is_utf8 s \<Longrightarrow> is_utf8 x"
    and refused: "admit b s = (None, b') \<Longrightarrow> b' = b\<lparr>truncated := True\<rparr>"
begin

lemma remaining_mono: "admit b s = (r, b') \<Longrightarrow> remaining b' \<le> remaining b"
  by (cases r) (auto dest: accepted refused)

lemma truncated_mono: "admit b s = (r, b') \<Longrightarrow> truncated b \<Longrightarrow> truncated b'"
  by (cases r) (auto dest: accepted_short refused)

lemma untruncated_whole: "admit b s = (r, b') \<Longrightarrow> \<not> truncated b' \<Longrightarrow> r = Some s"
  by (cases r) (auto dest: accepted_short refused)

end

lemma take_excerpt_Some:
  assumes "take_excerpt b s = (Some x, b')"
  shows "remaining b \<noteq> 0" and "x = bounded_excerpt s (min (remaining b) 512)"
    and "b' = b\<lparr>remaining := remaining b - length x,
              truncated := (truncated b \<or> length x < length s)\<rparr>"
  using assms by (auto simp add: take_excerpt_def Let_def split: if_splits)

lemma take_excerpt_None: "take_excerpt b s = (None, b') \<Longrightarrow> b' = b\<lparr>truncated := True\<rparr>"
  by (simp add: take_excerpt_def Let_def split: if_splits)

lemma take_whole_cases:
  "take_whole b s = (Some x, b') \<longleftrightarrow>
     length s \<le> remaining b \<and> x = s \<and> b' = b\<lparr>remaining := remaining b - length s\<rparr>"
  "take_whole b s = (None, b') \<longleftrightarrow> remaining b < length s \<and> b' = b\<lparr>truncated := True\<rparr>"
  by (auto simp: take_whole_def)

interpretation excerpt: byte_admission take_excerpt
proof
  fix b s x b'
  assume h: "take_excerpt b s = (Some x, b')"
  note x = take_excerpt_Some [OF h]
  have "length x \<le> remaining b"
    using bounded_excerpt_le [of s "min (remaining b) 512"] unfolding x(2) by linarith
  then show "length x + remaining b' = remaining b"
    by (simp add: x(3))
  show "prefix x s"
    unfolding x(2) by (rule bounded_excerpt_prefix)
  show "is_utf8 x" if "is_utf8 s"
    unfolding x(2) using that by (rule bounded_excerpt_utf8)
  have "length x < length s \<longleftrightarrow> x \<noteq> s"
    using bounded_excerpt_full_length [of s] bounded_excerpt_le_length [of s] unfolding x(2)
    by (metis le_neq_implies_less less_irrefl)
  then show "truncated b' = (truncated b \<or> x \<noteq> s)"
    by (simp add: x(3))
qed (rule take_excerpt_None)

interpretation whole: byte_admission take_whole
  by unfold_locales (auto simp: take_whole_cases)

end
