(* ===== verification/Packing.thy ===== *)
theory Packing
  imports Token_Budget Excerpts
begin

text \<open>
  Packing of ranked rows into a search response (\<open>search_item_row\<close> and \<open>pack_search_rows\<close> of
  \<open>src/src/lib.rs\<close>, \<open>pack\<close> of \<open>src/src/context_tokens.rs\<close>). The loop body is \<open>pack_row\<close>, whose
  result says whether the loop continues or breaks; \<open>pack_step\<close> is its relational reading, one
  rule for each way a row can be handled, and the invariants are proved by cases on that relation.
\<close>

section \<open>One candidate\<close>

definition reason_of :: "str \<Rightarrow> str" where
  "reason_of hit_kind =
     (if hit_kind = ''adjacent_continuation'' then ''adjacent_continuation''
      else if hit_kind = ''semantic_memory'' \<or> hit_kind = ''semantic_passage'' then ''semantic''
      else ''lexical'')"

definition row_citation ::
    "library \<Rightarrow> pg_row \<Rightarrow> bool \<Rightarrow> request_failure + search_citation option" where
  "row_citation lib row passage_hit =
     (if \<not> passage_hit then Inr None
      else
        res_bind (column get_text row ''locator'') (\<lambda>encoded.
        res_bind (map_err StoredJson (decode_value lib encoded)) (\<lambda>locator.
        res_bind (column get_text row ''source_revision_id'') (\<lambda>source_revision_id.
        res_bind (column get_text row ''extraction_set_id'') (\<lambda>extraction_set_id.
        res_bind (column get_text row ''passage_id'') (\<lambda>passage_id.
          Inr (Some \<lparr>source_revision_id = source_revision_id,
                     extraction_set_id = extraction_set_id,
                     passage_id = passage_id, locator = locator\<rparr>)))))))"

definition row_item ::
    "library \<Rightarrow> pg_row \<Rightarrow> str \<Rightarrow> str \<Rightarrow> str \<Rightarrow> request_failure + search_item" where
  "row_item lib row hit_kind status taken =
     res_bind (row_citation lib row (passage_kind hit_kind)) (\<lambda>citation.
     res_bind (column get_text row ''item_id'') (\<lambda>item_id.
     res_bind (column get_text row ''revision_id'') (\<lambda>revision_id.
     res_bind (column get_text row ''recorded_at'') (\<lambda>recorded_at.
     res_bind (column get_opt_text row ''valid_from'') (\<lambda>valid_from.
     res_bind (column get_opt_text row ''valid_until'') (\<lambda>valid_until.
     res_bind (column get_text row ''validity_status'') (\<lambda>validity_status.
       Inr \<lparr>item_id = item_id, revision_id = revision_id, excerpt = taken,
            recorded_at = recorded_at, valid_from = valid_from, valid_until = valid_until,
            validity_status = validity_status, reason = reason_of hit_kind,
            semantic_status = status, citation = citation\<rparr>)))))))"

definition admit_content :: "bool \<Rightarrow> excerpt_budget \<Rightarrow> str \<Rightarrow> str option \<times> excerpt_budget" where
  "admit_content whole_only budget content =
     (if whole_only then take_whole budget content else take_excerpt budget content)"

definition search_item_row ::
    "library \<Rightarrow> pg_row \<Rightarrow> excerpt_budget \<Rightarrow> str \<Rightarrow> bool
      \<Rightarrow> request_failure + search_item option \<times> excerpt_budget" where
  "search_item_row lib row budget status whole_only =
     res_bind (column get_text row ''content'') (\<lambda>content.
     res_bind (column get_text row ''hit_kind'') (\<lambda>hit_kind.
       case admit_content (passage_kind hit_kind \<or> whole_only) budget content of
         (None, budget) \<Rightarrow> Inr (None, budget)
       | (Some taken, budget) \<Rightarrow>
           res_bind (row_item lib row hit_kind status taken) (\<lambda>item. Inr (Some item, budget))))"

text \<open>
  What an item says of its row: the identity, the times and the citation are the row's, the
  excerpt is a prefix of its content, again a text, and the whole of it for a passage.
\<close>

definition item_of_row :: "library \<Rightarrow> str \<Rightarrow> pg_row \<Rightarrow> search_item \<Rightarrow> bool" where
  "item_of_row lib status row item =
     (get_text row ''item_id'' = Inr (item_id item)
      \<and> get_text row ''revision_id'' = Inr (revision_id item)
      \<and> get_text row ''recorded_at'' = Inr (recorded_at item)
      \<and> get_opt_text row ''valid_from'' = Inr (valid_from item)
      \<and> get_opt_text row ''valid_until'' = Inr (valid_until item)
      \<and> get_text row ''validity_status'' = Inr (validity_status item)
      \<and> semantic_status item = status
      \<and> (\<exists>content. get_text row ''content'' = Inr content \<and> prefix (excerpt item) content
           \<and> (is_utf8 content \<longrightarrow> is_utf8 (excerpt item))
           \<and> (citation item \<noteq> None \<longrightarrow> excerpt item = content))
      \<and> (\<exists>hit_kind. get_text row ''hit_kind'' = Inr hit_kind \<and> reason item = reason_of hit_kind
           \<and> (case citation item of
                None \<Rightarrow> \<not> passage_kind hit_kind
              | Some c \<Rightarrow>
                  passage_kind hit_kind
                  \<and> get_text row ''source_revision_id'' = Inr (source_revision_id c)
                  \<and> get_text row ''extraction_set_id'' = Inr (extraction_set_id c)
                  \<and> get_text row ''passage_id'' = Inr (passage_id c)
                  \<and> (\<exists>t. get_text row ''locator'' = Inr t \<and> decode_value lib t = Inr (locator c)))))"

lemma row_citation_cases:
  "row_citation lib row hit = Inr c \<Longrightarrow>
     (case c of
        None \<Rightarrow> \<not> hit
      | Some c \<Rightarrow>
          hit \<and> get_text row ''source_revision_id'' = Inr (source_revision_id c)
          \<and> get_text row ''extraction_set_id'' = Inr (extraction_set_id c)
          \<and> get_text row ''passage_id'' = Inr (passage_id c)
          \<and> (\<exists>t. get_text row ''locator'' = Inr t \<and> decode_value lib t = Inr (locator c)))"
  by (auto simp: row_citation_def result_simps split: if_splits)

text \<open>Either kind of admission meets the byte contract.\<close>

interpretation content: byte_admission "admit_content w" for w
proof (cases w)
  case True
  then have "admit_content w = take_whole" by (simp add: admit_content_def fun_eq_iff)
  then show "byte_admission (admit_content w)" by (simp add: whole.byte_admission_axioms)
next
  case False
  then have "admit_content w = take_excerpt" by (simp add: admit_content_def fun_eq_iff)
  then show "byte_admission (admit_content w)" by (simp add: excerpt.byte_admission_axioms)
qed

lemma admit_content_whole: "admit_content True b c = (Some x, b') \<Longrightarrow> x = c"
  by (simp add: admit_content_def take_whole_cases)

lemma row_item_fields:
  assumes "row_item lib row h status t = Inr item"
  shows "excerpt item = t" "semantic_status item = status" "reason item = reason_of h"
    "row_citation lib row (passage_kind h) = Inr (citation item)"
    "get_text row ''item_id'' = Inr (item_id item)"
    "get_text row ''revision_id'' = Inr (revision_id item)"
    "get_text row ''recorded_at'' = Inr (recorded_at item)"
    "get_opt_text row ''valid_from'' = Inr (valid_from item)"
    "get_opt_text row ''valid_until'' = Inr (valid_until item)"
    "get_text row ''validity_status'' = Inr (validity_status item)"
  using assms by (auto simp: row_item_def result_simps)

lemma search_item_row_Inr:
  "search_item_row lib row b status whole = Inr (r, b') \<longleftrightarrow>
     (\<exists>c h t. get_text row ''content'' = Inr c \<and> get_text row ''hit_kind'' = Inr h
        \<and> admit_content (passage_kind h \<or> whole) b c = (t, b')
        \<and> (case t of None \<Rightarrow> r = None
            | Some t \<Rightarrow> \<exists>item. row_item lib row h status t = Inr item \<and> r = Some item))"
proof (cases "\<exists>c h. get_text row ''content'' = Inr c \<and> get_text row ''hit_kind'' = Inr h")
  case True
  then obtain c h where "get_text row ''content'' = Inr c" "get_text row ''hit_kind'' = Inr h"
    by blast
  moreover obtain t b'' where "admit_content (passage_kind h \<or> whole) b c = (t, b'')"
    by fastforce
  ultimately show ?thesis
    by (cases t) (auto simp: search_item_row_def column_def result_simps)
qed (auto simp: search_item_row_def result_simps)

lemma search_item_row_None:
  "search_item_row lib row b status whole = Inr (None, b') \<Longrightarrow> b' = b\<lparr>truncated := True\<rparr>"
  by (auto simp: search_item_row_Inr dest: content.refused split: option.splits)

lemma search_item_row_Some:
  assumes "search_item_row lib row b status whole = Inr (Some item, b')"
  shows "item_of_row lib status row item"
    and "length (excerpt item) + remaining b' = remaining b"
    and "get_text row ''content'' = Inr content \<Longrightarrow>
           truncated b' = (truncated b \<or> excerpt item \<noteq> content)"
    and "whole \<Longrightarrow> get_text row ''content'' = Inr (excerpt item)"
proof -
  from assms obtain c h t where
    c: "get_text row ''content'' = Inr c" and h: "get_text row ''hit_kind'' = Inr h" and
    a: "admit_content (passage_kind h \<or> whole) b c = (Some t, b')" and
    i: "row_item lib row h status t = Inr item"
    by (auto simp: search_item_row_Inr split: option.splits)
  note f = row_item_fields [OF i]
  note ci = row_citation_cases [OF f(4)]
  have w: "excerpt item = c" if "citation item \<noteq> None"
    using that a ci f(1) by (auto dest: admit_content_whole)
  show "item_of_row lib status row item"
    unfolding item_of_row_def
    using c h f w ci content.accepted_prefix [OF a] content.accepted_text [OF a]
    by (cases "citation item") auto
  show "length (excerpt item) + remaining b' = remaining b"
    using content.accepted [OF a] f(1) by simp
  show "get_text row ''content'' = Inr content \<Longrightarrow>
           truncated b' = (truncated b \<or> excerpt item \<noteq> content)"
    using content.accepted_short [OF a] f(1) c by simp
  show "whole \<Longrightarrow> get_text row ''content'' = Inr (excerpt item)"
    using a f(1) c by (auto dest: admit_content_whole)
qed

lemma row_item_error:
  "row_item lib row h status t = Inl e \<Longrightarrow> (\<exists>d. e = Storage d) \<or> (\<exists>j. e = StoredJson j)"
  by (auto simp: row_item_def row_citation_def result_simps split: if_splits)

lemma search_item_row_error:
  "search_item_row lib row b status whole = Inl e \<Longrightarrow> (\<exists>d. e = Storage d) \<or> (\<exists>j. e = StoredJson j)"
proof (cases "\<exists>c h. get_text row ''content'' = Inr c \<and> get_text row ''hit_kind'' = Inr h")
  case True
  then obtain c h where "get_text row ''content'' = Inr c" "get_text row ''hit_kind'' = Inr h"
    by blast
  moreover obtain t b'' where "admit_content (passage_kind h \<or> whole) b c = (t, b'')"
    by fastforce
  moreover assume "search_item_row lib row b status whole = Inl e"
  ultimately show ?thesis
    by (cases t) (auto simp: search_item_row_def column_def result_simps dest: row_item_error)
qed (auto simp: search_item_row_def result_simps)

section \<open>The loop body\<close>

record pack_state =
  budget :: excerpt_budget
  items :: "search_item list"
  source_contributions :: "passage_source \<Rightarrow> nat option"
  accepted_passages :: "(passage_source \<times> str) set"
  accepted_direct_passages :: "(passage_source \<times> str) set"
  source_contribution_omitted :: bool
  token_work :: "work option"

datatype loop_control = Continue pack_state | Break pack_state

text \<open>\<open>if let Some(work) = tokens && !work.admit(..)?\<close>: with no allowance everything is admitted.\<close>

definition offer ::
    "library \<Rightarrow> work option \<Rightarrow> search_item list \<Rightarrow> search_item
      \<Rightarrow> request_failure + bool \<times> work option" where
  "offer lib tokens accepted item =
     (case tokens of
        None \<Rightarrow> Inr (True, None)
      | Some w \<Rightarrow> map_ok (\<lambda>(ok, w). (ok, Some w)) (work_admit lib w accepted item))"

definition omit :: "pack_state \<Rightarrow> pack_state" where
  "omit st = st\<lparr>source_contribution_omitted := True\<rparr>"

definition contributions :: "pack_state \<Rightarrow> passage_source \<Rightarrow> nat" where
  "contributions st key = (case source_contributions st key of None \<Rightarrow> 0 | Some n \<Rightarrow> n)"

definition accept ::
    "str \<Rightarrow> passage_source option \<Rightarrow> (passage_source \<times> str) option \<Rightarrow> search_item
      \<Rightarrow> pack_state \<Rightarrow> pack_state" where
  "accept hit_kind source_key passage_identity item st =
     (let st1 = (case source_key of
                   None \<Rightarrow> st
                 | Some key \<Rightarrow> st\<lparr>source_contributions :=
                     (source_contributions st)(key \<mapsto> contributions st key + 1)\<rparr>);
          st2 = (case passage_identity of
                   None \<Rightarrow> st1
                 | Some identity \<Rightarrow>
                     st1\<lparr>accepted_passages := insert identity (accepted_passages st1),
                         accepted_direct_passages :=
                           (if hit_kind = ''passage'' then insert identity (accepted_direct_passages st1)
                            else accepted_direct_passages st1)\<rparr>)
      in st2\<lparr>items := items st2 @ [item]\<rparr>)"

definition consider_row ::
    "library \<Rightarrow> str \<Rightarrow> pg_row \<Rightarrow> str \<Rightarrow> passage_source option \<Rightarrow> (passage_source \<times> str) option
      \<Rightarrow> pack_state \<Rightarrow> request_failure + loop_control" where
  "consider_row lib status row hit_kind source_key passage_identity st =
     (let remaining_before = remaining (budget st) in
      res_bind (search_item_row lib row (budget st) status (token_work st \<noteq> None)) (\<lambda>(found, b).
        case found of
          None \<Rightarrow>
            if remaining b > 0 then Inr (Continue (st\<lparr>budget := b\<rparr>))
            else Inr (Break (st\<lparr>budget := b\<rparr>))
        | Some item \<Rightarrow>
            res_bind (offer lib (token_work st) (items st) item) (\<lambda>(ok, tokens).
              if \<not> ok then
                Inr (Continue
                  (st\<lparr>budget := b\<lparr>remaining := remaining_before, truncated := True\<rparr>,
                      token_work := tokens\<rparr>))
              else
                Inr (Continue
                  (accept hit_kind source_key passage_identity item
                    (st\<lparr>budget := b, token_work := tokens\<rparr>))))))"

definition identify ::
    "pg_row \<Rightarrow> passage_source option \<Rightarrow> request_failure + (passage_source \<times> str) option" where
  "identify row source_key =
     transpose_map
       (\<lambda>key. res_bind (column get_text row ''passage_id'') (\<lambda>passage_id. Inr (key, passage_id)))
       source_key"

definition orphan ::
    "pg_row \<Rightarrow> str \<Rightarrow> passage_source option \<Rightarrow> pack_state \<Rightarrow> request_failure + bool" where
  "orphan row hit_kind source_key st =
     (if hit_kind \<noteq> ''adjacent_continuation'' then Inr False
      else
        res_bind (column get_texts row ''parent_passage_ids'') (\<lambda>parent_passage_ids.
          Inr (\<not> list_ex (\<lambda>p. (the source_key, p) \<in> accepted_direct_passages st)
                    parent_passage_ids)))"

definition pack_row ::
    "library \<Rightarrow> str \<Rightarrow> pg_row \<Rightarrow> pack_state \<Rightarrow> request_failure + loop_control" where
  "pack_row lib status row st =
     (if length (items st) = 12 then Inr (Break st)
      else
        res_bind (column get_text row ''hit_kind'') (\<lambda>hit_kind.
        res_bind (passage_source_key row (passage_kind hit_kind)) (\<lambda>source_key.
        res_bind (identify row source_key) (\<lambda>passage_identity.
        res_bind (orphan row hit_kind source_key st) (\<lambda>no_parent.
          if no_parent then Inr (Continue (omit st))
          else if (case passage_identity of None \<Rightarrow> False | Some i \<Rightarrow> i \<in> accepted_passages st)
          then Inr (Continue (omit st))
          else if (case source_key of None \<Rightarrow> False | Some key \<Rightarrow> contributions st key = 4)
          then Inr (Continue (omit st))
          else consider_row lib status row hit_kind source_key passage_identity st)))))"

fun pack_rows :: "library \<Rightarrow> str \<Rightarrow> pg_row list \<Rightarrow> pack_state \<Rightarrow> request_failure + pack_state" where
  "pack_rows lib status [] st = Inr st"
| "pack_rows lib status (row # rows) st =
     res_bind (pack_row lib status row st) (\<lambda>control.
       case control of
         Continue st \<Rightarrow> pack_rows lib status rows st
       | Break st \<Rightarrow> Inr st)"

definition pack_start :: "nat \<Rightarrow> work option \<Rightarrow> pack_state" where
  "pack_start limit tokens =
     \<lparr>budget = new_budget limit, items = [], source_contributions = Map.empty,
      accepted_passages = {}, accepted_direct_passages = {},
      source_contribution_omitted = False, token_work = tokens\<rparr>"

definition pack_search_rows ::
    "library \<Rightarrow> pg_row list \<Rightarrow> 16 word \<Rightarrow> str \<Rightarrow> work option
      \<Rightarrow> request_failure + (search_item list \<times> nat \<times> bool) \<times> work option" where
  "pack_search_rows lib rows byte_limit status tokens =
     res_bind (first_column get_bool rows ''candidate_omitted'') (\<lambda>first.
     let candidate_omitted = (case first of None \<Rightarrow> False | Some b \<Rightarrow> b) in
     res_bind (pack_rows lib status rows (pack_start (unat byte_limit) tokens)) (\<lambda>st.
       Inr ((items st,
             unat byte_limit - remaining (budget st),
             candidate_omitted \<or> source_contribution_omitted st \<or> truncated (budget st)
               \<or> length rows > length (items st)),
            token_work st)))"

section \<open>The loop as a step relation\<close>

text \<open>
  \<open>pack_step lib status row st taken st'\<close>: the loop visits \<open>row\<close> in state \<open>st\<close>, takes an item from
  it or none, and goes on in \<open>st'\<close>. One rule for a row left out for its source, one for a row that
  does not fit the bytes, one for a row that does not fit the tokens, one for an accepted row.
\<close>

inductive pack_step ::
    "library \<Rightarrow> str \<Rightarrow> pg_row \<Rightarrow> pack_state \<Rightarrow> search_item option \<Rightarrow> pack_state \<Rightarrow> bool"
  for lib status where
  left_out: "length (items st) \<noteq> 12 \<Longrightarrow> pack_step lib status row st None (omit st)"
| no_bytes: "length (items st) \<noteq> 12 \<Longrightarrow>
    pack_step lib status row st None (st\<lparr>budget := (budget st)\<lparr>truncated := True\<rparr>\<rparr>)"
| no_tokens: "length (items st) \<noteq> 12 \<Longrightarrow>
    offer lib (token_work st) (items st) item = Inr (False, tokens) \<Longrightarrow>
    pack_step lib status row st None
      (st\<lparr>budget := (budget st)\<lparr>truncated := True\<rparr>, token_work := tokens\<rparr>)"
| taken: "length (items st) \<noteq> 12 \<Longrightarrow>
    item_of_row lib status row item \<Longrightarrow>
    get_text row ''hit_kind'' = Inr h \<Longrightarrow>
    h = ''adjacent_continuation'' \<longrightarrow>
      (\<exists>ps p key. get_texts row ''parent_passage_ids'' = Inr ps \<and> p \<in> set ps
         \<and> item_source item = Some key \<and> (key, p) \<in> accepted_direct_passages st) \<Longrightarrow>
    \<forall>i. item_passage item = Some i \<longrightarrow> i \<notin> accepted_passages st \<Longrightarrow>
    \<forall>k. item_source item = Some k \<longrightarrow> contributions st k \<noteq> 4 \<Longrightarrow>
    length (excerpt item) + remaining b = remaining (budget st) \<Longrightarrow>
    truncated b = (truncated (budget st) \<or> get_text row ''content'' \<noteq> Inr (excerpt item)) \<Longrightarrow>
    token_work st \<noteq> None \<longrightarrow> get_text row ''content'' = Inr (excerpt item) \<Longrightarrow>
    offer lib (token_work st) (items st) item = Inr (True, tokens) \<Longrightarrow>
    pack_step lib status row st (Some item)
      (accept h (item_source item) (item_passage item) item
        (st\<lparr>budget := b, token_work := tokens\<rparr>))"

text \<open>
  \<open>packed lib status limit tokens seen acc st\<close>: the loop can be in state \<open>st\<close> after it has visited
  the rows \<open>seen\<close> and accepted the pairs \<open>acc\<close> of a row and its item.
\<close>

inductive packed ::
    "library \<Rightarrow> str \<Rightarrow> nat \<Rightarrow> work option \<Rightarrow> pg_row list \<Rightarrow> (pg_row \<times> search_item) list
      \<Rightarrow> pack_state \<Rightarrow> bool"
  for lib status limit tokens where
  start: "packed lib status limit tokens [] [] (pack_start limit tokens)"
| skip: "packed lib status limit tokens seen acc st \<Longrightarrow> pack_step lib status row st None st' \<Longrightarrow>
    packed lib status limit tokens (seen @ [row]) acc st'"
| keep: "packed lib status limit tokens seen acc st \<Longrightarrow>
    pack_step lib status row st (Some item) st' \<Longrightarrow>
    packed lib status limit tokens (seen @ [row]) (acc @ [(row, item)]) st'"

inductive_cases skip_cases: "pack_step lib status row st None st'"
inductive_cases keep_cases: "pack_step lib status row st (Some item) st'"

lemma identified:
  assumes "item_of_row lib status row item"
    and "get_text row ''hit_kind'' = Inr h"
    and "passage_source_key row (passage_kind h) = Inr key"
    and "identify row key = Inr identity"
  shows "key = item_source item \<and> identity = item_passage item"
proof (cases "citation item")
  case None
  with assms have "\<not> passage_kind h" by (auto simp: item_of_row_def)
  then have "key = None" using assms(3) passage_source_key_hit by blast
  with None assms(4) show ?thesis by (simp add: item_source_def item_passage_def identify_def)
next
  case (Some c)
  with assms(1,2) have c: "passage_kind h" "get_text row ''item_id'' = Inr (item_id item)"
    "get_text row ''revision_id'' = Inr (revision_id item)"
    "get_text row ''source_revision_id'' = Inr (source_revision_id c)"
    "get_text row ''extraction_set_id'' = Inr (extraction_set_id c)"
    "get_text row ''passage_id'' = Inr (passage_id c)"
    by (auto simp: item_of_row_def)
  then have "key = item_source item"
    using assms(3) Some by (simp add: passage_source_key_def column_def item_source_def)
  with assms(4) Some c show ?thesis
    by (simp add: identify_def item_source_def item_passage_def column_def)
qed

lemma budget_restored: "(b :: excerpt_budget)\<lparr>truncated := t, remaining := remaining b\<rparr> = b\<lparr>truncated := t\<rparr>"
  by (cases b) simp

lemma budget_eq: "remaining b = r \<Longrightarrow> (b'::excerpt_budget)\<lparr>remaining := r, truncated := t\<rparr> = b\<lparr>truncated := t\<rparr>"
  by (cases b; cases b') simp

fun control_state :: "loop_control \<Rightarrow> pack_state" where
  "control_state (Continue st) = st"
| "control_state (Break st) = st"

lemma consider_row_step:
  assumes "length (items st) \<noteq> 12"
    and h: "get_text row ''hit_kind'' = Inr h"
    and key: "passage_source_key row (passage_kind h) = Inr key"
    and identity: "identify row key = Inr identity"
    and parent: "h = ''adjacent_continuation'' \<longrightarrow>
      (\<exists>ps p k. get_texts row ''parent_passage_ids'' = Inr ps \<and> p \<in> set ps
         \<and> key = Some k \<and> (k, p) \<in> accepted_direct_passages st)"
    and new: "\<forall>i. identity = Some i \<longrightarrow> i \<notin> accepted_passages st"
    and few: "\<forall>k. key = Some k \<longrightarrow> contributions st k \<noteq> 4"
    and c: "consider_row lib status row h key identity st = Inr control"
  shows "(\<exists>taken. pack_step lib status row st taken (control_state control))
    \<and> (\<forall>st'. control = Break st' \<longrightarrow>
          pack_step lib status row st None st' \<and> truncated (budget st'))"
proof -
  obtain found b where s: "search_item_row lib row (budget st) status (token_work st \<noteq> None)
      = Inr (found, b)"
    using c by (auto simp: consider_row_def Let_def result_simps)
  show ?thesis
  proof (cases found)
    case None
    have "b = (budget st)\<lparr>truncated := True\<rparr>"
      using s None by (auto dest: search_item_row_None)
    moreover have "control_state control = st\<lparr>budget := b\<rparr>"
      using c s None by (auto simp: consider_row_def Let_def split: if_splits)
    ultimately have "pack_step lib status row st None (control_state control)"
      "truncated (budget (control_state control))"
      using no_bytes [OF assms(1)] by simp_all
    then show ?thesis by auto
  next
    case (Some item)
    note i = search_item_row_Some [OF s [unfolded Some]]
    obtain content where content: "get_text row ''content'' = Inr content"
      using i(1) by (auto simp: item_of_row_def)
    have ids: "key = item_source item" "identity = item_passage item"
      using identified [OF i(1) h key identity] by simp_all
    obtain ok tokens where o: "offer lib (token_work st) (items st) item = Inr (ok, tokens)"
      using c s Some by (auto simp: consider_row_def Let_def result_simps)
    show ?thesis
    proof (cases ok)
      case True
      then have "control = Continue (accept h key identity item
          (st\<lparr>budget := b, token_work := tokens\<rparr>))"
        using c s Some o by (simp add: consider_row_def Let_def)
      moreover have "pack_step lib status row st (Some item)
          (accept h (item_source item) (item_passage item) item
             (st\<lparr>budget := b, token_work := tokens\<rparr>))"
        by (rule taken [OF assms(1) i(1) h])
          (use parent new few ids i(2-4) content o True in auto)
      ultimately show ?thesis using ids by auto
    next
      case False
      then have "control = Continue (st\<lparr>budget := b\<lparr>remaining := remaining (budget st),
            truncated := True\<rparr>, token_work := tokens\<rparr>)"
        using c s Some o by (simp add: consider_row_def Let_def)
      moreover have "b\<lparr>remaining := remaining (budget st), truncated := True\<rparr>
          = (budget st)\<lparr>truncated := True\<rparr>"
        by (rule budget_eq) simp
      ultimately show ?thesis
        using no_tokens [OF assms(1), of lib item tokens status row] o False by auto
    qed
  qed
qed

lemma pack_row_step:
  assumes "pack_row lib status row st = Inr control"
  shows "(control = Break st \<and> length (items st) = 12)
    \<or> (\<exists>taken. pack_step lib status row st taken (control_state control))
       \<and> (\<forall>st'. control = Break st' \<longrightarrow>
            pack_step lib status row st None st' \<and> truncated (budget st'))"
proof (cases "length (items st) = 12")
  case True
  then show ?thesis using assms by (simp add: pack_row_def)
next
  case False
  then obtain h key identity no_parent where
    h: "get_text row ''hit_kind'' = Inr h" and
    key: "passage_source_key row (passage_kind h) = Inr key" and
    identity: "identify row key = Inr identity" and
    p: "orphan row h key st = Inr no_parent" and
    r: "(if no_parent then Inr (Continue (omit st))
          else if (case identity of None \<Rightarrow> False | Some i \<Rightarrow> i \<in> accepted_passages st)
          then Inr (Continue (omit st))
          else if (case key of None \<Rightarrow> False | Some key \<Rightarrow> contributions st key = 4)
          then Inr (Continue (omit st))
          else consider_row lib status row h key identity st) = Inr control"
    using assms by (auto simp: pack_row_def result_simps)
  have out: "pack_step lib status row st None (omit st)"
    by (rule left_out [OF False])
  show ?thesis
  proof (cases "no_parent \<or> (\<exists>i. identity = Some i \<and> i \<in> accepted_passages st)
      \<or> (\<exists>k. key = Some k \<and> contributions st k = 4)")
    case True
    then have "control = Continue (omit st)"
      using r by (auto split: if_splits option.splits)
    with out show ?thesis by auto
  next
    case c: False
    have "(k = None) = (\<not> passage_kind h)" if "k = key" for k
      using passage_source_key_hit [OF key] that by simp
    then have "h = ''adjacent_continuation'' \<longrightarrow> (\<exists>k. key = Some k)"
      by (auto simp: passage_kind_def)
    then have "h = ''adjacent_continuation'' \<longrightarrow>
      (\<exists>ps p k. get_texts row ''parent_passage_ids'' = Inr ps \<and> p \<in> set ps
         \<and> key = Some k \<and> (k, p) \<in> accepted_direct_passages st)"
      using p c by (auto simp: orphan_def result_simps list_ex_iff split: if_splits)
    moreover have "consider_row lib status row h key identity st = Inr control"
      using r c by (auto split: if_splits option.splits)
    ultimately show ?thesis
      using consider_row_step [OF False h key identity] c by blast
  qed
qed

lemma packed_step:
  "packed lib status limit tokens seen acc st \<Longrightarrow> pack_step lib status row st taken st' \<Longrightarrow>
     packed lib status limit tokens (seen @ [row])
       (case taken of None \<Rightarrow> acc | Some item \<Rightarrow> acc @ [(row, item)]) st'"
  by (cases taken) (auto intro: packed.intros)

lemma pack_rows_packed:
  assumes "packed lib status limit tokens seen acc st"
    and "pack_rows lib status rows st = Inr st'"
  shows "\<exists>visited left acc'. rows = visited @ left
    \<and> packed lib status limit tokens (seen @ visited) acc' st'
    \<and> (left \<noteq> [] \<longrightarrow> length (items st') = 12 \<or> truncated (budget st'))"
  using assms
proof (induction rows arbitrary: seen acc st)
  case Nil
  then show ?case by (intro exI [of _ "[]"] exI [of _ acc]) simp
next
  case (Cons row rows)
  then obtain control where c: "pack_row lib status row st = Inr control"
    by (auto simp: result_simps)
  show ?case
  proof (cases "control = Break st \<and> length (items st) = 12")
    case True
    then show ?thesis
      using Cons.prems c
      by (intro exI [of _ "[]"] exI [of _ "row # rows"] exI [of _ acc]) simp
  next
    case False
    with pack_row_step [OF c] obtain taken where
      s: "pack_step lib status row st taken (control_state control)" and
      b: "\<And>st'. control = Break st' \<Longrightarrow> truncated (budget st')"
      by auto
    note p = packed_step [OF Cons.prems(1) s]
    show ?thesis
    proof (cases control)
      case (Continue st1)
      then obtain visited left acc' where "rows = visited @ left"
        "packed lib status limit tokens ((seen @ [row]) @ visited) acc' st'"
        "left \<noteq> [] \<longrightarrow> length (items st') = 12 \<or> truncated (budget st')"
        using Cons.IH [OF p [unfolded Continue, simplified]] Cons.prems(2) c Continue by auto
      then show ?thesis
        by (intro exI [of _ "row # visited"] exI [of _ left] exI [of _ acc']) simp
    next
      case (Break st1)
      then have "st' = st1" using Cons.prems(2) c by simp
      with Break p b show ?thesis
        by (intro exI [of _ "[row]"] exI [of _ rows]) auto
    qed
  qed
qed

text \<open>Everything the response of the packing says, as a reachable state of the loop.\<close>

lemma pack_search_rows_packed:
  assumes "pack_search_rows lib rows bytes status tokens = Inr ((found, used, short), tokens')"
  obtains seen left acc st where
    "rows = seen @ left" "packed lib status (unat bytes) tokens seen acc st"
    "left \<noteq> [] \<longrightarrow> length found = 12 \<or> truncated (budget st)"
    "found = items st" "used = unat bytes - remaining (budget st)" "tokens' = token_work st"
    "\<not> short \<longrightarrow> \<not> source_contribution_omitted st \<and> \<not> truncated (budget st)
      \<and> length rows \<le> length found
      \<and> first_column get_bool rows ''candidate_omitted'' \<in> {Inr None, Inr (Some False)}"
proof -
  from assms obtain first st where
    f: "first_column get_bool rows ''candidate_omitted'' = Inr first" and
    p: "pack_rows lib status rows (pack_start (unat bytes) tokens) = Inr st" and
    r: "found = items st" "used = unat bytes - remaining (budget st)" "tokens' = token_work st"
      "short = ((case first of None \<Rightarrow> False | Some b \<Rightarrow> b) \<or> source_contribution_omitted st
          \<or> truncated (budget st) \<or> length rows > length (items st))"
    by (auto simp: pack_search_rows_def Let_def result_simps)
  show thesis
    using pack_rows_packed [OF packed.start p] f r that
    by (auto split: option.splits)
qed

end
