(* ===== verification/Packing_Correct.thy ===== *)
theory Packing_Correct
  imports Packing
begin

text \<open>
  Correctness of the packing loop: the invariants of its reachable states, proved by rule induction
  on \<open>packed\<close>; the interface \<open>candidate_gate\<close> between the loop and the token allowance; the reasons
  packing can fail; and the properties of a finished response.
\<close>

section \<open>Invariants\<close>

text \<open>What accepting an item does to each field of the state.\<close>

lemma accept_fields:
  "items (accept h key identity item st) = items st @ [item]"
  "budget (accept h key identity item st) = budget st"
  "token_work (accept h key identity item st) = token_work st"
  "source_contribution_omitted (accept h key identity item st) = source_contribution_omitted st"
  "contributions (accept h key identity item st) =
     (case key of None \<Rightarrow> contributions st
      | Some k \<Rightarrow> (contributions st)(k := contributions st k + 1))"
  "accepted_passages (accept h key identity item st) =
     (case identity of None \<Rightarrow> accepted_passages st | Some i \<Rightarrow> insert i (accepted_passages st))"
  "accepted_direct_passages (accept h key identity item st) =
     (case identity of None \<Rightarrow> accepted_direct_passages st
      | Some i \<Rightarrow> if h = ''passage'' then insert i (accepted_direct_passages st)
                  else accepted_direct_passages st)"
  by (auto simp: accept_def Let_def contributions_def fun_eq_iff split: option.splits)

lemma contributions_update [simp]:
  "contributions (st\<lparr>budget := b\<rparr>) = contributions st"
  "contributions (st\<lparr>budget := b, token_work := w\<rparr>) = contributions st"
  "contributions (st\<lparr>source_contribution_omitted := x\<rparr>) = contributions st"
  "contributions (omit st) = contributions st"
  by (auto simp: contributions_def omit_def fun_eq_iff)

lemmas step_fields = accept_fields omit_def

lemma skip_fields:
  assumes "pack_step lib status row st None st'"
  shows "items st' = items st" "contributions st' = contributions st"
    "accepted_passages st' = accepted_passages st"
    "accepted_direct_passages st' = accepted_direct_passages st"
    "remaining (budget st') = remaining (budget st)"
    "source_contribution_omitted st' \<or> truncated (budget st')"
    "source_contribution_omitted st \<longrightarrow> source_contribution_omitted st'"
    "truncated (budget st) \<longrightarrow> truncated (budget st')"
    "length (items st) \<noteq> 12"
  using assms by (auto elim!: skip_cases simp: omit_def)

lemma packed_items: "packed lib status limit tokens seen acc st \<Longrightarrow> items st = map snd acc"
  by (induction rule: packed.induct)
    (auto elim!: keep_cases simp: pack_start_def skip_fields accept_fields)

lemma packed_limits:
  "packed lib status limit tokens seen acc st \<Longrightarrow>
     length (items st) \<le> 12
     \<and> sum_list (map (\<lambda>i. length (excerpt i)) (items st)) + remaining (budget st) = limit"
proof (induction rule: packed.induct)
  case (keep seen acc st row item st')
  from keep(2) obtain b where b: "items st' = items st @ [item]" "length (items st) \<noteq> 12"
    "length (excerpt item) + remaining (budget st') = remaining (budget st)"
    by (rule keep_cases) (simp add: accept_fields)
  with keep(3) show ?case by simp
qed (auto simp: pack_start_def new_budget_def skip_fields)

lemma packed_rows:
  "packed lib status limit tokens seen acc st \<Longrightarrow>
     subseq (map fst acc) seen \<and> list_all (\<lambda>(row, item). item_of_row lib status row item) acc"
proof (induction rule: packed.induct)
  case (keep seen acc st row item st')
  from keep(2) have "item_of_row lib status row item"
    by (rule keep_cases)
  with keep(3) show ?case by (simp add: list_emb_append_mono)
qed (auto intro: list_emb_append2 subseq_rev_drop_many simp: subseq_append_le_same_iff)

definition passages_of :: "search_item list \<Rightarrow> (passage_source \<times> str) list" where
  "passages_of found = concat (map (\<lambda>i. case item_passage i of None \<Rightarrow> [] | Some p \<Rightarrow> [p]) found)"

definition from_source :: "passage_source \<Rightarrow> search_item list \<Rightarrow> nat" where
  "from_source k found = length (filter (\<lambda>i. item_source i = Some k) found)"

lemma passages_of_append: "passages_of (xs @ [x]) =
    passages_of xs @ (case item_passage x of None \<Rightarrow> [] | Some p \<Rightarrow> [p])"
  by (simp add: passages_of_def)

lemma from_source_append: "from_source k (xs @ [x]) =
    from_source k xs + (if item_source x = Some k then 1 else 0)"
  by (simp add: from_source_def)

lemma packed_passages:
  "packed lib status limit tokens seen acc st \<Longrightarrow>
     distinct (passages_of (items st)) \<and> accepted_passages st = set (passages_of (items st))"
proof (induction rule: packed.induct)
  case (keep seen acc st row item st')
  from keep(2) have "items st' = items st @ [item]"
    "\<forall>i. item_passage item = Some i \<longrightarrow> i \<notin> accepted_passages st"
    "accepted_passages st' = (case item_passage item of None \<Rightarrow> accepted_passages st
       | Some i \<Rightarrow> insert i (accepted_passages st))"
    by (auto elim!: keep_cases simp: accept_fields split: option.split)
  with keep(3) show ?case by (auto simp: passages_of_append split: option.split)
qed (auto simp: pack_start_def passages_of_def skip_fields)

lemma packed_sources:
  "packed lib status limit tokens seen acc st \<Longrightarrow>
     contributions st k = from_source k (items st) \<and> from_source k (items st) \<le> 4"
proof (induction rule: packed.induct)
  case (keep seen acc st row item st')
  from keep(2) have "items st' = items st @ [item]"
    "\<forall>k. item_source item = Some k \<longrightarrow> contributions st k \<noteq> 4"
    "contributions st' = (case item_source item of None \<Rightarrow> contributions st
      | Some k \<Rightarrow> (contributions st)(k := contributions st k + 1))"
    by (auto elim!: keep_cases simp: accept_fields split: option.split)
  with keep(3) show ?case
    by (auto simp: from_source_append split: option.split)
qed (auto simp: pack_start_def from_source_def contributions_def skip_fields)

text \<open>
  A direct passage hit, recognised on the finished item: it has a citation and its reason is
  lexical.
\<close>

definition direct_hit :: "search_item \<Rightarrow> bool" where
  "direct_hit item = (citation item \<noteq> None \<and> reason item = ''lexical'')"

lemma direct_hit_kind:
  "item_of_row lib status row item \<Longrightarrow> get_text row ''hit_kind'' = Inr h \<Longrightarrow>
     item_passage item = Some p \<Longrightarrow> direct_hit item \<longleftrightarrow> h = ''passage''"
  by (auto simp: item_of_row_def direct_hit_def reason_of_def passage_kind_def item_passage_def
      split: option.splits if_splits)

lemma continuation_kind: "reason_of h = ''adjacent_continuation'' \<longleftrightarrow> h = ''adjacent_continuation''"
  by (simp add: reason_of_def)

lemma packed_direct:
  "packed lib status limit tokens seen acc st \<Longrightarrow>
     accepted_direct_passages st = {p. \<exists>i\<in>set (items st). direct_hit i \<and> item_passage i = Some p}"
proof (induction rule: packed.induct)
  case (keep seen acc st row item st')
  from keep(2) obtain h where "items st' = items st @ [item]"
    "item_of_row lib status row item" "get_text row ''hit_kind'' = Inr h"
    "accepted_direct_passages st' = (case item_passage item of None \<Rightarrow> accepted_direct_passages st
       | Some i \<Rightarrow> if h = ''passage'' then insert i (accepted_direct_passages st)
                   else accepted_direct_passages st)"
    by (rule keep_cases) (cases "item_passage item"; simp add: accept_fields)
  with keep(3) direct_hit_kind [of lib status row item h] show ?case
    by (cases "item_passage item") auto
qed (auto simp: pack_start_def skip_fields)

text \<open>
  Every adjacent continuation follows, in the response, a direct hit of its own source whose
  passage the continuation's row names as a parent.
\<close>

definition continuations_anchored :: "(pg_row \<times> search_item) list \<Rightarrow> bool" where
  "continuations_anchored acc =
     (\<forall>n < length acc. reason (snd (acc ! n)) = ''adjacent_continuation'' \<longrightarrow>
        (\<exists>m < n. \<exists>key p ps. direct_hit (snd (acc ! m))
           \<and> item_passage (snd (acc ! m)) = Some (key, p)
           \<and> item_source (snd (acc ! n)) = Some key
           \<and> get_texts (fst (acc ! n)) ''parent_passage_ids'' = Inr ps \<and> p \<in> set ps))"

lemma continuations_anchored_append:
  assumes "continuations_anchored acc"
    and "reason item = ''adjacent_continuation'' \<Longrightarrow>
      \<exists>i\<in>set (map snd acc). \<exists>key p ps. direct_hit i \<and> item_passage i = Some (key, p)
        \<and> item_source item = Some key
        \<and> get_texts row ''parent_passage_ids'' = Inr ps \<and> p \<in> set ps"
  shows "continuations_anchored (acc @ [(row, item)])"
proof -
  have old: "(acc @ [(row, item)]) ! n = acc ! n" if "n < length acc" for n
    using that by (simp add: nth_append)
  show ?thesis
    unfolding continuations_anchored_def
  proof (intro allI impI)
    fix n
    assume n: "n < length (acc @ [(row, item)])"
      and r: "reason (snd ((acc @ [(row, item)]) ! n)) = ''adjacent_continuation''"
    show "\<exists>m < n. \<exists>key p ps. direct_hit (snd ((acc @ [(row, item)]) ! m))
           \<and> item_passage (snd ((acc @ [(row, item)]) ! m)) = Some (key, p)
           \<and> item_source (snd ((acc @ [(row, item)]) ! n)) = Some key
           \<and> get_texts (fst ((acc @ [(row, item)]) ! n)) ''parent_passage_ids'' = Inr ps
           \<and> p \<in> set ps"
    proof (cases "n < length acc")
      case True
      with r old [OF True] assms(1) obtain m key p ps where
        m: "m < n" and "direct_hit (snd (acc ! m))" "item_passage (snd (acc ! m)) = Some (key, p)"
        "item_source (snd (acc ! n)) = Some key"
        "get_texts (fst (acc ! n)) ''parent_passage_ids'' = Inr ps" "p \<in> set ps"
        unfolding continuations_anchored_def by metis
      moreover have "m < length acc" using m True by simp
      ultimately show ?thesis
        using old [OF True] old [of m]
        by (intro exI [of _ m] conjI exI [of _ key] exI [of _ p] exI [of _ ps]) simp_all
    next
      case False
      with n have n: "n = length acc" by simp
      with r have "reason item = ''adjacent_continuation''" by simp
      with assms(2) obtain i key p ps where
        "i \<in> set (map snd acc)" and i: "direct_hit i" "item_passage i = Some (key, p)"
        "item_source item = Some key" "get_texts row ''parent_passage_ids'' = Inr ps" "p \<in> set ps"
        by meson
      then obtain m where "m < length acc" "snd (acc ! m) = i"
        by (auto simp: in_set_conv_nth)
      with i n old [of m] show ?thesis
        by (intro exI [of _ m] conjI exI [of _ key] exI [of _ p] exI [of _ ps]) simp_all
    qed
  qed
qed

lemma packed_continuations:
  "packed lib status limit tokens seen acc st \<Longrightarrow> continuations_anchored acc"
proof (induction rule: packed.induct)
  case (keep seen acc st row item st')
  show ?case
  proof (rule continuations_anchored_append [OF keep(3)])
    assume r: "reason item = ''adjacent_continuation''"
    from keep(2) obtain h where "item_of_row lib status row item" "get_text row ''hit_kind'' = Inr h"
      and p: "h = ''adjacent_continuation'' \<longrightarrow>
      (\<exists>ps p key. get_texts row ''parent_passage_ids'' = Inr ps \<and> p \<in> set ps
         \<and> item_source item = Some key \<and> (key, p) \<in> accepted_direct_passages st)"
      by (rule keep_cases) auto
    then have "reason_of h = ''adjacent_continuation''"
      using r by (auto simp: item_of_row_def)
    then have "h = ''adjacent_continuation''"
      by (simp only: continuation_kind)
    with p packed_direct [OF keep(1)] packed_items [OF keep(1)]
    show "\<exists>i\<in>set (map snd acc). \<exists>key p ps. direct_hit i \<and> item_passage i = Some (key, p)
        \<and> item_source item = Some key
        \<and> get_texts row ''parent_passage_ids'' = Inr ps \<and> p \<in> set ps"
      by auto
  qed
qed (simp_all add: continuations_anchored_def)

lemma packed_complete:
  "packed lib status limit tokens seen acc st \<Longrightarrow>
     \<not> source_contribution_omitted st \<Longrightarrow> \<not> truncated (budget st) \<Longrightarrow>
     map fst acc = seen \<and> list_all (\<lambda>(row, item). get_text row ''content'' = Inr (excerpt item)) acc"
proof (induction rule: packed.induct)
  case (skip seen acc st row st')
  then show ?case using skip_fields(6) [OF skip(2)] by simp
next
  case (keep seen acc st row item st')
  from keep(2) have "source_contribution_omitted st' = source_contribution_omitted st"
    "truncated (budget st') = (truncated (budget st) \<or> get_text row ''content'' \<noteq> Inr (excerpt item))"
    by (auto elim!: keep_cases simp: accept_fields)
  with keep show ?case by simp
qed simp

section \<open>The token gate\<close>

text \<open>
  What the packing loop needs of a token allowance: a relation between the accepted items and the
  gate's state that an admission extends and a refusal keeps, and a cost of at most one per offer.
  No allowance at all is such a gate.
\<close>

locale candidate_gate =
  fixes ask :: "'w \<Rightarrow> search_item list \<Rightarrow> search_item \<Rightarrow> request_failure + bool \<times> 'w"
    and fits :: "search_item list \<Rightarrow> 'w \<Rightarrow> bool"
    and spent :: "'w \<Rightarrow> nat"
  assumes admitted: "fits xs w \<Longrightarrow> ask w xs x = Inr (True, w') \<Longrightarrow> fits (xs @ [x]) w'"
    and declined: "fits xs w \<Longrightarrow> ask w xs x = Inr (False, w') \<Longrightarrow> fits xs w'"
    and cost: "fits xs w \<Longrightarrow> ask w xs x = Inr (ok, w') \<Longrightarrow> spent w' \<le> spent w + 1"
    and failure: "ask w xs x = Inl e \<Longrightarrow> e = ContextBudgetUnavailable"
begin

lemma asked: "fits xs w \<Longrightarrow> ask w xs x = Inr (ok, w') \<Longrightarrow> fits (if ok then xs @ [x] else xs) w'"
  using admitted declined by (cases ok) auto

lemma asked_bounded:
  "fits xs w \<Longrightarrow> spent w \<le> n \<Longrightarrow> ask w xs x = Inr (ok, w') \<Longrightarrow>
     fits (if ok then xs @ [x] else xs) w' \<and> spent w' \<le> Suc n"
  using asked [of xs w x ok w'] cost [of xs w x ok w'] by auto

end

definition budget_for :: "library \<Rightarrow> 16 word option \<Rightarrow> search_item list \<Rightarrow> work option \<Rightarrow> bool" where
  "budget_for lib allowed xs tokens =
     (case (allowed, tokens) of
        (None, None) \<Rightarrow> True
      | (Some n, Some w) \<Rightarrow> work_for lib xs w \<and> context_max_tokens (work_context w) = n
      | _ \<Rightarrow> False)"

fun spent_counts :: "work option \<Rightarrow> nat" where
  "spent_counts None = 0"
| "spent_counts (Some w) = counts w"

lemma offer_cases:
  assumes "budget_for lib allowed xs tokens" and "offer lib tokens xs x = Inr (ok, tokens')"
  shows "budget_for lib allowed (if ok then xs @ [x] else xs) tokens'
    \<and> spent_counts tokens' \<le> spent_counts tokens + 1"
proof (cases tokens)
  case None
  with assms show ?thesis by (simp add: offer_def budget_for_def split: option.splits)
next
  case (Some w)
  with assms(1) obtain n where n: "allowed = Some n" "work_for lib xs w"
    "context_max_tokens (work_context w) = n"
    by (auto simp: budget_for_def split: option.splits)
  from assms(2) Some obtain w' where "work_admit lib w xs x = Inr (ok, w')" "tokens' = Some w'"
    by (auto simp: offer_def result_simps)
  with work_admit_cases [OF n(2)] n Some show ?thesis
    by (cases ok) (auto simp: budget_for_def)
qed

interpretation gate: candidate_gate "offer lib" "budget_for lib allowed" spent_counts
  for lib allowed
proof
  fix w xs x w' e ok
  show "budget_for lib allowed xs w \<Longrightarrow> offer lib w xs x = Inr (True, w')
      \<Longrightarrow> budget_for lib allowed (xs @ [x]) w'"
    using offer_cases [of lib allowed xs w x True w'] by simp
  show "budget_for lib allowed xs w \<Longrightarrow> offer lib w xs x = Inr (False, w')
      \<Longrightarrow> budget_for lib allowed xs w'"
    using offer_cases [of lib allowed xs w x False w'] by simp
  show "budget_for lib allowed xs w \<Longrightarrow> offer lib w xs x = Inr (ok, w')
      \<Longrightarrow> spent_counts w' \<le> spent_counts w + 1"
    using offer_cases by blast
  show "offer lib w xs x = Inl e \<Longrightarrow> e = ContextBudgetUnavailable"
    by (cases w) (auto simp: offer_def result_simps dest: work_admit_error)
qed

lemma packed_tokens:
  assumes "budget_for lib allowed [] tokens"
  shows "packed lib status limit tokens seen acc st \<Longrightarrow>
     budget_for lib allowed (items st) (token_work st)
     \<and> spent_counts (token_work st) \<le> spent_counts tokens + length seen"
proof (induction rule: packed.induct)
  case (skip seen acc st row st')
  show ?case
    using skip(2)
    by (rule skip_cases)
      (use skip(3) in \<open>auto simp: omit_def dest: gate.asked_bounded [rotated 2]\<close>)
next
  case (keep seen acc st row item st')
  from keep(2) obtain t where
    "offer lib (token_work st) (items st) item = Inr (True, t)" "token_work st' = t"
    "items st' = items st @ [item]"
    by (rule keep_cases) (simp add: accept_fields)
  with keep(3) show ?case
    by (auto dest: gate.asked_bounded [rotated 2])
qed (use assms in \<open>simp add: pack_start_def\<close>)

section \<open>Packing under a token allowance\<close>

text \<open>
  \<open>permits\<close> is the number of free permits of the process-wide semaphore of two workers when the
  request arrives, and \<open>joined\<close> whether the blocking task is joined (it is not when it panics or
  the runtime shuts down). The permit is dropped when the task ends.
\<close>

definition token_pack ::
    "library \<Rightarrow> nat \<Rightarrow> bool \<Rightarrow> pg_row list \<Rightarrow> 16 word \<Rightarrow> str \<Rightarrow> allowance
      \<Rightarrow> request_failure + (search_item list \<times> nat \<times> bool) \<times> token_context" where
  "token_pack lib permits joined rows byte_limit status a =
     (if length rows > 82 then Inl ContextBudgetUnavailable
      else if permits = 0 then Inl ContextBudgetUnavailable
      else if \<not> joined then Inl ContextBudgetUnavailable
      else
        res_bind (work_new lib a) (\<lambda>work.
        res_bind (pack_search_rows lib rows byte_limit status (Some work)) (\<lambda>(packed, tokens).
          case tokens of
            Some work \<Rightarrow> Inr (packed, work_context work)
          | None \<Rightarrow> Inl ContextBudgetUnavailable)))"

lemma offer_keeps: "offer lib tokens xs x = Inr (ok, tokens') \<Longrightarrow> (tokens' = None) = (tokens = None)"
  by (cases tokens) (auto simp: offer_def result_simps)

lemma packed_whole:
  "packed lib status limit tokens seen acc st \<Longrightarrow> tokens \<noteq> None \<Longrightarrow>
     token_work st \<noteq> None
     \<and> list_all (\<lambda>(row, item). get_text row ''content'' = Inr (excerpt item)) acc"
proof (induction rule: packed.induct)
  case (skip seen acc st row st')
  show ?case using skip(2)
    by (rule skip_cases) (use skip(3,4) in \<open>auto simp: omit_def dest: offer_keeps\<close>)
next
  case (keep seen acc st row item st')
  from keep(2) have "(token_work st' = None) = (token_work st = None)"
    "token_work st \<noteq> None \<longrightarrow> get_text row ''content'' = Inr (excerpt item)"
    by (auto elim!: keep_cases simp: accept_fields dest: offer_keeps)
  with keep(3,4) show ?case by simp
qed (simp add: pack_start_def)

section \<open>Why packing can fail\<close>

lemma column_errors:
  "column get row name = Inl e \<Longrightarrow> \<exists>d. e = Storage d"
  "passage_source_key row hit = Inl e \<Longrightarrow> \<exists>d. e = Storage d"
  "identify row key = Inl e \<Longrightarrow> \<exists>d. e = Storage d"
  "orphan row h key st = Inl e \<Longrightarrow> \<exists>d. e = Storage d"
  by (auto simp: passage_source_key_def identify_def orphan_def result_simps split: if_splits)
    (cases key; auto simp: result_simps)

lemma pack_row_Inl:
  "pack_row lib status row st = Inl e \<Longrightarrow>
     (\<exists>d. e = Storage d)
     \<or> length (items st) \<noteq> 12
       \<and> (\<exists>h key identity. consider_row lib status row h key identity st = Inl e)"
  by (auto simp: pack_row_def res_bind_Inl dest: column_errors split: if_splits)

lemma pack_row_error:
  assumes "pack_row lib status row st = Inl e"
  shows "(\<exists>d. e = Storage d) \<or> (\<exists>j. e = StoredJson j)
    \<or> length (items st) \<noteq> 12 \<and> (\<exists>item. item_of_row lib status row item
        \<and> offer lib (token_work st) (items st) item = Inl e)"
proof -
  have c: ?thesis if c: "consider_row lib status row h key identity st = Inl e"
    and n: "length (items st) \<noteq> 12" for h key identity
  proof (cases "search_item_row lib row (budget st) status (token_work st \<noteq> None)")
    case (Inl e')
    with c have "e' = e" by (simp add: consider_row_def Let_def)
    with Inl search_item_row_error show ?thesis by blast
  next
    case (Inr r)
    obtain found b where "r = (found, b)" by force
    moreover have "\<exists>item. found = Some item"
      using c Inr \<open>r = (found, b)\<close>
      by (cases found) (auto simp: consider_row_def Let_def split: if_splits)
    ultimately obtain item where s: "search_item_row lib row (budget st) status
        (token_work st \<noteq> None) = Inr (Some item, b)"
      using Inr by auto
    with c have "offer lib (token_work st) (items st) item = Inl e"
      by (auto simp: consider_row_def Let_def result_simps split: if_splits)
    with n search_item_row_Some(1) [OF s] show ?thesis by blast
  qed
  show ?thesis
    using assms
    by (auto dest!: pack_row_Inl dest: c)
qed

lemma pack_rows_error:
  "packed lib status limit tokens seen acc st \<Longrightarrow> pack_rows lib status rows st = Inl e \<Longrightarrow>
     \<exists>visited row left acc' st'. rows = visited @ row # left
       \<and> packed lib status limit tokens (seen @ visited) acc' st'
       \<and> pack_row lib status row st' = Inl e"
proof (induction rows arbitrary: seen acc st)
  case (Cons row rows)
  show ?case
  proof (cases "pack_row lib status row st")
    case (Inl e')
    with Cons.prems show ?thesis
      by (intro exI [of _ "[]"] exI [of _ row] exI [of _ rows] exI [of _ acc] exI [of _ st]) simp
  next
    case (Inr control)
    with Cons.prems(2) obtain st1 where c: "control = Continue st1"
      and r: "pack_rows lib status rows st1 = Inl e"
      by (cases control) auto
    then obtain taken where "pack_step lib status row st taken st1"
      using pack_row_step [OF Inr] by auto
    from Cons.IH [OF packed_step [OF Cons.prems(1) this] r]
    obtain visited row' left acc' st' where "rows = visited @ row' # left"
      "packed lib status limit tokens ((seen @ [row]) @ visited) acc' st'"
      "pack_row lib status row' st' = Inl e"
      by auto
    then show ?thesis
      by (intro exI [of _ "row # visited"] exI [of _ row'] exI [of _ left] exI [of _ acc']
          exI [of _ st']) simp
  qed
qed simp

lemma offer_error:
  assumes "budget_for lib allowed xs tokens" and "offer lib tokens xs x = Inl e"
    and "length xs < 12" and "spent_counts tokens < 83"
  shows "length (envelope lib (xs @ [x])) > MAX_SERIALIZED_BYTES
    \<or> \<not> is_utf8 (envelope lib (xs @ [x]))
    \<or> encode_tokens lib (envelope lib (xs @ [x])) = None"
proof (cases tokens)
  case (Some w)
  with assms(1) have w: "work_for lib xs w" by (auto simp: budget_for_def split: option.splits)
  have "\<nexists>r. work_admit lib w xs x = Inr r"
    using assms(2) Some by (auto simp: offer_def)
  then show ?thesis
    using work_admit_defined [OF w] assms(3,4) Some
    by (force simp: MAX_COUNTS_def not_less)
qed (use assms in \<open>simp add: offer_def\<close>)

section \<open>Properties\<close>

lemma packed_incomplete:
  "packed lib status limit tokens seen acc st \<Longrightarrow>
     source_contribution_omitted st \<or> truncated (budget st) \<Longrightarrow>
     length acc < length seen
     \<or> \<not> list_all (\<lambda>(row, item). get_text row ''content'' = Inr (excerpt item)) acc"
proof (induction rule: packed.induct)
  case (skip seen acc st row st')
  have "length acc \<le> length seen"
    using packed_rows [OF skip(1)] list_emb_length [of "(=)" "map fst acc" seen] by simp
  then show ?case by simp
next
  case (keep seen acc st row item st')
  from keep(2) have "source_contribution_omitted st' = source_contribution_omitted st"
    "truncated (budget st') = (truncated (budget st) \<or> get_text row ''content'' \<noteq> Inr (excerpt item))"
    by (auto elim!: keep_cases simp: accept_fields)
  with keep(3,4) show ?case by auto
qed (simp add: pack_start_def new_budget_def)

lemma pairs_from_rows:
  "list_all2 P (map fst acc) (map snd acc) = list_all (\<lambda>(row, item). P row item) acc"
  by (induction acc) auto

text \<open>Three rows of one source and a whole memory, under a byte allowance of ten.\<close>

definition sample_row :: "str \<Rightarrow> str \<Rightarrow> str list \<Rightarrow> str \<Rightarrow> pg_row" where
  "sample_row hit_kind passage parents content =
     row_of [(''hit_kind'', Text hit_kind), (''content'', Text content),
             (''item_id'', Text ''i''), (''revision_id'', Text ''r''),
             (''source_revision_id'', Text ''s''), (''extraction_set_id'', Text ''x''),
             (''passage_id'', Text passage), (''parent_passage_ids'', Texts parents),
             (''locator'', Text ''null''), (''recorded_at'', Text ''t''),
             (''valid_from'', Null), (''valid_until'', Null),
             (''validity_status'', Text ''current''), (''candidate_omitted'', Truth False)]"

definition sample_rows :: "pg_row list" where
  "sample_rows =
     [sample_row ''adjacent_continuation'' ''p2'' [''p1''] ''efg'',
      sample_row ''passage'' ''p1'' [] ''abcd'',
      sample_row ''adjacent_continuation'' ''p2'' [''p1''] ''efg'',
      sample_row ''passage'' ''p1'' [] ''abcd'']"

definition sample_passage :: "str \<Rightarrow> str \<Rightarrow> str \<Rightarrow> search_item" where
  "sample_passage why passage content =
     (sample_item content)\<lparr>reason := why, semantic_status := ''ready'',
        citation := Some \<lparr>source_revision_id = ''s'', extraction_set_id = ''x'',
                          passage_id = passage, locator = ''null''\<rparr>\<rparr>"

definition sample_found :: "search_item list" where
  "sample_found =
     [sample_passage ''lexical'' ''p1'' ''abcd'',
      sample_passage ''adjacent_continuation'' ''p2'' ''efg'']"

lemma sample_packing:
  "pack_search_rows sample_library sample_rows 10 ''ready'' None = Inr ((sample_found, 7, True), None)"
  by code_simp

lemma sample_packing_whole:
  "pack_search_rows sample_library [sample_row ''passage'' ''p1'' [] ''abcd''] 10 ''ready'' None
     = Inr (([sample_passage ''lexical'' ''p1'' ''abcd''], 4, False), None)"
  by code_simp

text \<open>
  C7. A response never exceeds its limits: at most twelve items, whose excerpts add up to exactly
  the reported number of context bytes, which is at most the byte allowance.
\<close>

theorem pack_search_rows_bounded:
  assumes "pack_search_rows lib rows bytes status tokens = Inr ((found, used, short), tokens')"
  shows "length found \<le> 12
    \<and> used = sum_list (map (\<lambda>i. length (excerpt i)) found)
    \<and> used \<le> unat bytes"
proof -
  obtain seen acc st where "packed lib status (unat bytes) tokens seen acc st"
    "found = items st" "used = unat bytes - remaining (budget st)"
    using assms by (rule pack_search_rows_packed) blast
  with packed_limits show ?thesis by fastforce
qed

theorem pack_search_rows_bounded_witness:
  "length sample_found \<le> 12 \<and> sum_list (map (\<lambda>i. length (excerpt i)) sample_found) = 7
   \<and> (7::nat) \<le> unat (10 :: 16 word)"
  using pack_search_rows_bounded [OF sample_packing] by simp

text \<open>
  C8. A response only says what the database returned, in the order it was ranked: the items come
  from a subsequence of the rows, one item per row; each has its row's identity, times, validity
  and citation, its excerpt is a prefix of the row's content, and a passage is quoted whole.
\<close>

theorem pack_search_rows_faithful:
  assumes "pack_search_rows lib rows bytes status tokens = Inr ((found, used, short), tokens')"
  shows "\<exists>chosen. subseq chosen rows \<and> list_all2 (item_of_row lib status) chosen found"
proof -
  obtain seen left acc st where "rows = seen @ left"
    "packed lib status (unat bytes) tokens seen acc st" "found = items st"
    using assms by (rule pack_search_rows_packed) blast
  with packed_rows [of lib status "unat bytes" tokens seen acc st] packed_items
  show ?thesis
    by (intro exI [of _ "map fst acc"]) (auto simp: pairs_from_rows)
qed

theorem pack_search_rows_faithful_witness:
  "\<exists>chosen. subseq chosen sample_rows
     \<and> list_all2 (item_of_row sample_library ''ready'') chosen sample_found"
  by (rule pack_search_rows_faithful [OF sample_packing])

text \<open>
  C9. No passage is quoted twice and no source dominates: the passages of a response are pairwise
  different, and each extraction of a source revision contributes at most four of them.
\<close>

theorem pack_search_rows_sources:
  assumes "pack_search_rows lib rows bytes status tokens = Inr ((found, used, short), tokens')"
  shows "distinct (passages_of found) \<and> (\<forall>source. from_source source found \<le> 4)"
proof -
  obtain seen acc st where "packed lib status (unat bytes) tokens seen acc st" "found = items st"
    using assms by (rule pack_search_rows_packed) blast
  with packed_passages packed_sources show ?thesis by blast
qed

theorem pack_search_rows_sources_witness:
  "distinct (passages_of sample_found) \<and> from_source (''i'', ''r'', ''s'', ''x'') sample_found \<le> 4"
  using pack_search_rows_sources [OF sample_packing] by blast

text \<open>
  C10. A continuation never stands alone: every item that is an adjacent continuation comes after a
  direct passage hit of the same source, and its row names that hit's passage as a parent.
\<close>

theorem pack_search_rows_continuations:
  assumes "pack_search_rows lib rows bytes status tokens = Inr ((found, used, short), tokens')"
  shows "\<exists>chosen. subseq chosen rows \<and> length chosen = length found
    \<and> continuations_anchored (zip chosen found)"
proof -
  obtain seen left acc st where p: "rows = seen @ left"
    "packed lib status (unat bytes) tokens seen acc st" "found = items st"
    using assms by (rule pack_search_rows_packed) blast
  note i = packed_items [OF p(2)]
  have "zip (map fst acc) found = acc"
    using p(3) i by (simp add: zip_map_fst_snd)
  then show ?thesis
    using packed_continuations [OF p(2)] packed_rows [OF p(2)] p i
    by (intro exI [of _ "map fst acc"]) auto
qed

theorem pack_search_rows_continuations_witness:
  "\<exists>chosen. subseq chosen sample_rows \<and> length chosen = length sample_found
     \<and> continuations_anchored (zip chosen sample_found)"
  by (rule pack_search_rows_continuations [OF sample_packing])

text \<open>
  C11. The truncation flag is exact: a response is reported as not truncated if and only if the
  database did not report omitted candidates and the response holds every row, in order, with its
  whole content.
\<close>

theorem pack_search_rows_truncation:
  assumes "pack_search_rows lib rows bytes status tokens = Inr ((found, used, short), tokens')"
  shows "\<not> short \<longleftrightarrow>
     first_column get_bool rows ''candidate_omitted'' \<in> {Inr None, Inr (Some False)}
     \<and> list_all2 (\<lambda>row item. get_text row ''content'' = Inr (excerpt item)) rows found"
proof -
  obtain first st where
    f: "first_column get_bool rows ''candidate_omitted'' = Inr first" and
    p: "pack_rows lib status rows (pack_start (unat bytes) tokens) = Inr st" and
    r: "found = items st"
      "short = ((case first of None \<Rightarrow> False | Some b \<Rightarrow> b) \<or> source_contribution_omitted st
          \<or> truncated (budget st) \<or> length rows > length (items st))"
    using assms by (auto simp: pack_search_rows_def Let_def result_simps)
  obtain seen left acc where s: "rows = seen @ left"
    and q: "packed lib status (unat bytes) tokens seen acc st"
    using pack_rows_packed [OF packed.start p] by auto
  have n: "length (items st) = length acc" "items st = map snd acc" "length acc \<le> length seen"
    using packed_items [OF q] packed_rows [OF q] list_emb_length [of "(=)" "map fst acc" seen]
    by simp_all
  have same: "list_all2 (\<lambda>row item. get_text row ''content'' = Inr (excerpt item)) rows (items st)
      \<longleftrightarrow> list_all (\<lambda>(row, item). get_text row ''content'' = Inr (excerpt item)) acc"
    if "length rows \<le> length acc"
  proof -
    have "length seen + length left \<le> length acc" using that s by simp
    then have "length left = 0" using n(3) by linarith
    then have "left = []" "length acc = length seen" using that s n(3) by simp_all
    moreover from this have "map fst acc = seen"
      using packed_rows [OF q] subseq_same_length [of "map fst acc" seen] by simp
    ultimately show ?thesis
      using s n(2) pairs_from_rows [of _ acc] by simp
  qed
  have d: "(case first of None \<Rightarrow> False | Some b \<Rightarrow> b) \<longleftrightarrow> \<not> Inr first \<in> {Inr None, Inr (Some False)}"
    by (cases first) auto
  have l: "length rows \<le> length acc" if "list_all2 R rows (items st)" for R
    using list_all2_lengthD [OF that] n(1) by simp
  show ?thesis
    using packed_incomplete [OF q] packed_complete [OF q] same l d n s
    unfolding r f by (auto simp: not_less)
qed

theorem pack_search_rows_truncation_witness:
  "list_all2 (\<lambda>row item. get_text row ''content'' = Inr (excerpt item))
     [sample_row ''passage'' ''p1'' [] ''abcd''] [sample_passage ''lexical'' ''p1'' ''abcd'']"
  using pack_search_rows_truncation [OF sample_packing_whole] by simp

section \<open>Token mode\<close>

lemma token_pack_Inr:
  "token_pack lib permits joined rows bytes status a = Inr (r, ctx) \<Longrightarrow>
     length rows \<le> 82 \<and> permits \<noteq> 0 \<and> joined
     \<and> (\<exists>w w'. work_new lib a = Inr w
          \<and> pack_search_rows lib rows bytes status (Some w) = Inr (r, Some w')
          \<and> ctx = work_context w')"
  by (auto simp: token_pack_def result_simps split: option.splits if_splits)

definition token_context_exact ::
    "library \<Rightarrow> allowance \<Rightarrow> search_item list \<Rightarrow> token_context \<Rightarrow> bool" where
  "token_context_exact lib a found ctx =
     (context_text ctx = envelope lib found
      \<and> encode_tokens lib (context_text ctx) = Some (token_count ctx)
      \<and> context_max_tokens ctx = max_tokens a
      \<and> token_count ctx \<le> unat (max_tokens a))"

definition sample_allowance :: allowance where
  "sample_allowance = \<lparr>tokenizer = TOKENIZER, max_tokens = 2\<rparr>"

lemma sample_new: "work_new sample_library sample_allowance = Inr sample_work"
  by (simp add: sample_defs validate_allowance_def sample_allowance_def)

lemmas packing_defs =
  token_pack_def sample_new pack_search_rows_def first_column_def pack_start_def new_budget_def
  pack_row_def passage_kind_def passage_source_key_def identify_def orphan_def contributions_def
  consider_row_def search_item_row_def row_item_def row_citation_def admit_content_def
  take_whole_def offer_def accept_def column_def sample_row_def row_of_def sample_passage_def
  reason_of_def

lemma sample_token_pack:
  "\<exists>ctx. token_pack sample_library 2 True [sample_row ''passage'' ''p1'' [] ''abcd''] 10 ''ready''
     sample_allowance = Inr (([sample_passage ''lexical'' ''p1'' ''abcd''], 4, False), ctx)"
  by (simp add: packing_defs) (simp add: packing_defs sample_defs)

text \<open>
  C18. The token context is exact: a response packed under a token allowance carries the rendered
  envelope of exactly the items it returns, the tokenizer's count of that text, which is within
  the allowance, and quotes every item whole.
\<close>

theorem token_pack_exact:
  assumes "token_pack lib permits joined rows bytes status a = Inr ((found, used, short), ctx)"
  shows "token_context_exact lib a found ctx
    \<and> (\<exists>chosen. subseq chosen rows
        \<and> list_all2 (\<lambda>row item. get_text row ''content'' = Inr (excerpt item)) chosen found)"
proof -
  from assms obtain w w' where w: "work_new lib a = Inr w"
    and p: "pack_search_rows lib rows bytes status (Some w) = Inr ((found, used, short), Some w')"
    and ctx: "ctx = work_context w'"
    by (auto dest!: token_pack_Inr)
  obtain seen left acc st where q: "rows = seen @ left"
    "packed lib status (unat bytes) (Some w) seen acc st" "found = items st"
    "Some w' = token_work st"
    using p by (rule pack_search_rows_packed) blast
  have "budget_for lib (Some (max_tokens a)) [] (Some w)"
    using work_new_ok [OF w] by (simp add: budget_for_def)
  note b = packed_tokens [OF this q(2)]
  have "token_context_exact lib a found ctx"
    using b q(3,4) [symmetric] ctx by (auto simp: budget_for_def token_context_exact_def work_for_def)
  moreover have "subseq (map fst acc) rows"
    using packed_rows [OF q(2)] q(1) by auto
  moreover have "list_all2 (\<lambda>row item. get_text row ''content'' = Inr (excerpt item)) (map fst acc) found"
    using packed_whole [OF q(2)] packed_items [OF q(2)] q(3) by (simp add: pairs_from_rows)
  ultimately show ?thesis by blast
qed

theorem token_pack_exact_witness:
  "\<exists>ctx. token_context_exact sample_library sample_allowance
     [sample_passage ''lexical'' ''p1'' ''abcd''] ctx"
proof -
  from sample_token_pack obtain ctx where
    "token_pack sample_library 2 True [sample_row ''passage'' ''p1'' [] ''abcd''] 10 ''ready''
       sample_allowance = Inr (([sample_passage ''lexical'' ''p1'' ''abcd''], 4, False), ctx)" ..
  from token_pack_exact [OF this] show ?thesis by blast
qed

text \<open>
  What token mode needs of the tokenizer and the serializer on the candidate envelopes of a search:
  the envelope renders within the writer's bound and as UTF-8, and the tokenizer accepts it.
\<close>

definition renderable :: "library \<Rightarrow> str \<Rightarrow> pg_row list \<Rightarrow> bool" where
  "renderable lib status rows =
     (\<forall>xs. length xs \<le> 12 \<and> (\<forall>x\<in>set xs. \<exists>row\<in>set rows. item_of_row lib status row x) \<longrightarrow>
        length (envelope lib xs) \<le> MAX_SERIALIZED_BYTES \<and> is_utf8 (envelope lib xs)
        \<and> encode_tokens lib (envelope lib xs) \<noteq> None)"

lemma packed_sound:
  "packed lib status limit tokens seen acc st \<Longrightarrow>
     \<forall>x\<in>set (items st). \<exists>row\<in>set seen. item_of_row lib status row x"
proof (induction rule: packed.induct)
  case (keep seen acc st row item st')
  from keep(2) have "items st' = items st @ [item]" "item_of_row lib status row item"
    by (auto elim!: keep_cases simp: accept_fields)
  with keep(3) show ?case by auto
qed (auto simp: pack_start_def skip_fields)

lemma work_new_available:
  assumes "validate_allowance a = Inr ()" and "load_tokenizer lib" and "renderable lib status rows"
    and "work_new lib a = Inl e"
  shows "e = InvalidContextBudget"
proof -
  have r: "length (envelope lib []) \<le> MAX_SERIALIZED_BYTES" "is_utf8 (envelope lib [])"
    "encode_tokens lib (envelope lib []) \<noteq> None"
    using assms(3) by (auto simp: renderable_def dest!: spec [of _ "[]"])
  then have "render_evidence lib [] None = Inr (envelope lib [])"
    by (simp add: render_evidence_iff)
  then show ?thesis
    using assms(1,2,4) r
    by (auto simp: work_new_def work_count_def checked_add_usize_def MAX_COUNTS_def
        MAX_SERIALIZED_BYTES_def validate_allowance_def Let_def split: if_splits)
qed

text \<open>
  C19. The count limit of 83 never refuses a search: with a free worker, a supported allowance and
  envelopes that render, packing the at most 82 rows of a search under a token allowance fails only
  for a row that cannot be read or an allowance too small for the empty envelope, never with
  \<open>ContextBudgetUnavailable\<close>.
\<close>

theorem token_pack_available:
  assumes "length rows \<le> 82" and "permits \<noteq> 0" and "joined"
    and "validate_allowance a = Inr ()" and "load_tokenizer lib" and "renderable lib status rows"
    and "token_pack lib permits joined rows bytes status a = Inl e"
  shows "(\<exists>d. e = Storage d) \<or> (\<exists>j. e = StoredJson j) \<or> e = InvalidContextBudget"
proof (cases "work_new lib a")
  case (Inl e')
  then have "e' = e" using assms(1-3,7) by (simp add: token_pack_def not_less)
  with Inl work_new_available [OF assms(4-6)] show ?thesis by blast
next
  case (Inr w)
  note w = work_new_ok [OF Inr]
  have b: "budget_for lib (Some (max_tokens a)) [] (Some w)" using w by (simp add: budget_for_def)
  have kept: "tokens \<noteq> None" if "pack_search_rows lib rows bytes status (Some w) = Inr (r, tokens)"
    for r tokens
    using that by (cases r) (auto elim!: pack_search_rows_packed dest: packed_whole)
  have "pack_search_rows lib rows bytes status (Some w) = Inl e"
    using Inr assms(1-3,7) kept
    by (cases "pack_search_rows lib rows bytes status (Some w)")
      (auto simp: token_pack_def not_less split: option.splits)
  then consider "\<exists>d. e = Storage d"
    | "pack_rows lib status rows (pack_start (unat bytes) (Some w)) = Inl e"
    by (cases rows) (auto simp: pack_search_rows_def first_column_def Let_def result_simps)
  then show ?thesis
  proof cases
    case 2
    then obtain visited row left acc st where v: "rows = visited @ row # left"
      and q: "packed lib status (unat bytes) (Some w) visited acc st"
      and r: "pack_row lib status row st = Inl e"
      using pack_rows_error [OF packed.start 2] by auto
    from pack_row_error [OF r] show ?thesis
    proof (elim disjE conjE exE)
      fix item
      assume i: "length (items st) \<noteq> 12" "item_of_row lib status row item"
        and o: "offer lib (token_work st) (items st) item = Inl e"
      have n: "length (items st) < 12" using i(1) packed_limits [OF q] by simp
      have "spent_counts (token_work st) < 83"
        using packed_tokens [OF b q] w v assms(1) by simp
      note bad = offer_error [OF conjunct1 [OF packed_tokens [OF b q]] o n this]
      have "\<forall>x\<in>set (items st @ [item]). \<exists>row\<in>set rows. item_of_row lib status row x"
        using packed_sound [OF q] i(2) v by auto
      moreover have "length (items st @ [item]) \<le> 12" using n by simp
      ultimately have "length (envelope lib (items st @ [item])) \<le> MAX_SERIALIZED_BYTES
          \<and> is_utf8 (envelope lib (items st @ [item]))
          \<and> encode_tokens lib (envelope lib (items st @ [item])) \<noteq> None"
        using assms(6) unfolding renderable_def by blast
      with bad show ?thesis by auto
    qed simp_all
  qed simp
qed

lemma sample_renderable: "renderable sample_library ''ready'' [row_of []]"
proof -
  have "xs = []" if "\<forall>x\<in>set xs. \<exists>row\<in>set [row_of []]. item_of_row sample_library ''ready'' row x" for xs
    using that by (cases xs) (auto simp: item_of_row_def row_of_def)
  moreover have "is_utf8 ''[]''"
    unfolding utf8_valid_iff [symmetric] by code_simp
  then have "length (envelope sample_library []) \<le> MAX_SERIALIZED_BYTES
      \<and> is_utf8 (envelope sample_library [])
      \<and> encode_tokens sample_library (envelope sample_library []) \<noteq> None"
    by (simp add: envelope_def sample_library_def MAX_SERIALIZED_BYTES_def)
  ultimately show ?thesis
    unfolding renderable_def by metis
qed

theorem token_pack_available_witness:
  "\<exists>e. token_pack sample_library 2 True [row_of []] 10 ''ready'' sample_allowance = Inl e
     \<and> ((\<exists>d. e = Storage d) \<or> (\<exists>j. e = StoredJson j) \<or> e = InvalidContextBudget)"
proof -
  have "token_pack sample_library 2 True [row_of []] 10 ''ready'' sample_allowance = Inl (Storage missing)"
    by (simp add: packing_defs)
  moreover have "validate_allowance sample_allowance = Inr ()" "load_tokenizer sample_library"
    by (simp_all add: sample_allowance_def sample_library_def)
  ultimately show ?thesis
    using token_pack_available [OF _ _ _ _ _ sample_renderable] by fastforce
qed

end
