(* ===== verification/Effects.thy ===== *)
theory Effects
  imports Rows
begin

text \<open>
  Effectful code as functions. A program takes the environment and a context and returns an outcome
  and the context. The context records, in order, every call the program has made to the database
  driver or the request body, and whether a deadline is running; the environment answers each call,
  depending on the whole history. Nothing is assumed of the answers: any call may fail, and inside
  \<open>tokio::time::timeout\<close> the deadline may pass at any call. A transaction that is dropped without
  a commit (an early return, a timeout) leaves no call behind: the next \<open>Begin\<close> finds no session.
\<close>

section \<open>Calls, environment and outcomes\<close>

datatype param =
    P_text str
  | P_opt_text "str option"
  | P_bytes bytes
  | P_int int
  | P_texts "str list"
  | P_opt_texts "str list option"

text \<open>
  \<open>Query f ps\<close> is a statement that calls the SQL function \<open>f\<close> with the bound parameters \<open>ps\<close>;
  \<open>current_setting\<close> takes its literal setting name as a parameter.
\<close>

datatype call =
    Begin
  | Begin_On_Connection
  | Set_Local str str
  | Set_Local_Bytes str bytes
  | Query str "param list"
  | Commit
  | Try_Acquire
  | Read_Body nat

record env =
  on_unit :: "call list \<Rightarrow> sqlx_error + unit"
  on_text :: "call list \<Rightarrow> sqlx_error + str"
  on_row :: "call list \<Rightarrow> sqlx_error + pg_row"
  on_optional :: "call list \<Rightarrow> sqlx_error + pg_row option"
  on_rows :: "call list \<Rightarrow> sqlx_error + pg_row list"
  on_body :: "call list \<Rightarrow> body_error + bytes"
  on_acquire :: "call list \<Rightarrow> bool"
  on_deadline :: "call list \<Rightarrow> bool"
  on_permits :: "call list \<Rightarrow> nat"
  on_join :: "call list \<Rightarrow> bool"

record ctx =
  calls :: "call list"
  timed :: bool

datatype 'a outcome = Finished 'a | Expired

type_synonym 'a prog = "env \<Rightarrow> ctx \<Rightarrow> 'a outcome \<times> ctx"

definition fresh :: ctx where
  "fresh = \<lparr>calls = [], timed = False\<rparr>"

section \<open>Combinators\<close>

definition give :: "'a \<Rightarrow> 'a prog" where
  "give a env c = (Finished a, c)"

definition andthen :: "'a prog \<Rightarrow> ('a \<Rightarrow> 'b prog) \<Rightarrow> 'b prog" where
  "andthen p f env c =
     (case p env c of
        (Finished a, c') \<Rightarrow> f a env c'
      | (Expired, c') \<Rightarrow> (Expired, c'))"

text \<open>The \<open>?\<close> operator, and \<open>map_err\<close> on the result of a program.\<close>

definition try_then :: "('e + 'a) prog \<Rightarrow> ('a \<Rightarrow> ('e + 'b) prog) \<Rightarrow> ('e + 'b) prog" where
  "try_then p f = andthen p (\<lambda>r. case r of Inl e \<Rightarrow> give (Inl e) | Inr a \<Rightarrow> f a)"

definition or_err :: "('e \<Rightarrow> 'f) \<Rightarrow> ('e + 'a) prog \<Rightarrow> ('f + 'a) prog" where
  "or_err f p = andthen p (\<lambda>r. give (map_err f r))"

definition await :: "(env \<Rightarrow> call list \<Rightarrow> 'a) \<Rightarrow> call \<Rightarrow> 'a prog" where
  "await answer call env c =
     (let h = calls c @ [call]; c' = c\<lparr>calls := h\<rparr> in
      if timed c \<and> on_deadline env h then (Expired, c') else (Finished (answer env h), c'))"

text \<open>A call that does not wait cannot meet the deadline.\<close>

definition immediate :: "(env \<Rightarrow> call list \<Rightarrow> 'a) \<Rightarrow> call \<Rightarrow> 'a prog" where
  "immediate answer call env c =
     (let h = calls c @ [call] in (Finished (answer env h), c\<lparr>calls := h\<rparr>))"

text \<open>A value the environment decides without a recorded call.\<close>

definition observe :: "(env \<Rightarrow> call list \<Rightarrow> 'a) \<Rightarrow> 'a prog" where
  "observe answer env c = (Finished (answer env (calls c)), c)"

text \<open>\<open>tokio::time::timeout(duration, p).await\<close>: the inner future is dropped when the time is up.\<close>

definition timeout :: "'a prog \<Rightarrow> (elapsed + 'a) prog" where
  "timeout p env c =
     (case p env (c\<lparr>timed := True\<rparr>) of
        (Finished a, c') \<Rightarrow> (Finished (Inr a), c'\<lparr>timed := timed c\<rparr>)
      | (Expired, c') \<Rightarrow> (Finished (Inl Elapsed_Error), c'\<lparr>timed := timed c\<rparr>))"

section \<open>Database calls\<close>

definition begin_transaction :: "(sqlx_error + unit) prog" where
  "begin_transaction = await on_unit Begin"

definition commit :: "(sqlx_error + unit) prog" where
  "commit = await on_unit Commit"

definition set_local :: "str \<Rightarrow> str \<Rightarrow> (sqlx_error + unit) prog" where
  "set_local key value =
     andthen (await on_text (Set_Local key value)) (\<lambda>r. give (map_ok (\<lambda>_. ()) r))"

definition set_local_bytes :: "str \<Rightarrow> bytes \<Rightarrow> (sqlx_error + unit) prog" where
  "set_local_bytes key value =
     andthen (await on_text (Set_Local_Bytes key value)) (\<lambda>r. give (map_ok (\<lambda>_. ()) r))"

definition fetch_one :: "str \<Rightarrow> param list \<Rightarrow> (sqlx_error + pg_row) prog" where
  "fetch_one f ps = await on_row (Query f ps)"

definition fetch_optional :: "str \<Rightarrow> param list \<Rightarrow> (sqlx_error + pg_row option) prog" where
  "fetch_optional f ps = await on_optional (Query f ps)"

definition fetch_all :: "str \<Rightarrow> param list \<Rightarrow> (sqlx_error + pg_row list) prog" where
  "fetch_all f ps = await on_rows (Query f ps)"

definition fetch_scalar :: "str \<Rightarrow> param list \<Rightarrow> (sqlx_error + str) prog" where
  "fetch_scalar f ps = await on_text (Query f ps)"

definition execute :: "str \<Rightarrow> param list \<Rightarrow> (sqlx_error + unit) prog" where
  "execute f ps = await on_unit (Query f ps)"

definition read_body :: "nat \<Rightarrow> (body_error + bytes) prog" where
  "read_body limit = await on_body (Read_Body limit)"

section \<open>Evaluation\<close>

lemma run_give [effect_simps]: "give a env c = (Finished r, c') \<longleftrightarrow> a = r \<and> c' = c"
  by (auto simp: give_def)

lemma run_andthen [effect_simps]:
  "andthen p f env c = (Finished r, c') \<longleftrightarrow>
     (\<exists>a c1. p env c = (Finished a, c1) \<and> f a env c1 = (Finished r, c'))"
  by (auto simp: andthen_def split: prod.splits outcome.splits)

lemma run_try_Inr [effect_simps]:
  "try_then p f env c = (Finished (Inr b), c') \<longleftrightarrow>
     (\<exists>a c1. p env c = (Finished (Inr a), c1) \<and> f a env c1 = (Finished (Inr b), c'))"
proof -
  have "(case r of Inl e \<Rightarrow> give (Inl e) | Inr a \<Rightarrow> f a) env c1 = (Finished (Inr b), c')
      \<longleftrightarrow> (\<exists>a. r = Inr a \<and> f a env c1 = (Finished (Inr b), c'))" for r c1
    by (cases r) (auto simp: run_give)
  then show ?thesis by (auto simp: try_then_def run_andthen)
qed

lemma run_or_err_Inr [effect_simps]:
  "or_err f p env c = (Finished (Inr b), c') \<longleftrightarrow> p env c = (Finished (Inr b), c')"
  by (simp add: or_err_def run_andthen run_give map_err_Inr)

lemma run_await [effect_simps]:
  "await answer call env c = (Finished a, c') \<longleftrightarrow>
     \<not> (timed c \<and> on_deadline env (calls c @ [call]))
     \<and> a = answer env (calls c @ [call]) \<and> c' = c\<lparr>calls := calls c @ [call]\<rparr>"
  by (auto simp: await_def Let_def)

lemma run_immediate [effect_simps]:
  "immediate answer call env c = (Finished a, c') \<longleftrightarrow>
     a = answer env (calls c @ [call]) \<and> c' = c\<lparr>calls := calls c @ [call]\<rparr>"
  by (auto simp: immediate_def Let_def)

lemma run_observe [effect_simps]:
  "observe answer env c = (Finished a, c') \<longleftrightarrow> a = answer env (calls c) \<and> c' = c"
  by (auto simp: observe_def)

lemma run_timeout_Inr [effect_simps]:
  "timeout p env c = (Finished (Inr a), c') \<longleftrightarrow>
     (\<exists>c1. p env (c\<lparr>timed := True\<rparr>) = (Finished a, c1) \<and> c' = c1\<lparr>timed := timed c\<rparr>)"
  by (auto simp: timeout_def split: prod.splits outcome.splits)

lemmas call_defs =
  begin_transaction_def commit_def set_local_def set_local_bytes_def fetch_one_def
  fetch_optional_def fetch_all_def fetch_scalar_def execute_def read_body_def

text \<open>The successful runs of the database calls, as one equation each.\<close>

definition on_time :: "env \<Rightarrow> ctx \<Rightarrow> call \<Rightarrow> bool" where
  "on_time env c call = (\<not> (timed c \<and> on_deadline env (calls c @ [call])))"

definition after_call :: "ctx \<Rightarrow> call \<Rightarrow> ctx" where
  "after_call c call = c\<lparr>calls := calls c @ [call]\<rparr>"

lemma after_call_simps [simp]:
  "calls (after_call c call) = calls c @ [call]"
  "timed (after_call c call) = timed c"
  by (simp_all add: after_call_def)

lemma map_ok_unit [simp]:
  "Inr u = map_ok (\<lambda>_. ()) r \<longleftrightarrow> (\<exists>a. r = Inr a)"
  "map_ok (\<lambda>_. ()) r = Inr u \<longleftrightarrow> (\<exists>a. r = Inr a)"
  by (cases r; auto)+

lemma run_calls [effect_simps]:
  "begin_transaction env c = (Finished (Inr u), c') \<longleftrightarrow>
     on_time env c Begin \<and> on_unit env (calls c @ [Begin]) = Inr u \<and> c' = after_call c Begin"
  "commit env c = (Finished (Inr u), c') \<longleftrightarrow>
     on_time env c Commit \<and> on_unit env (calls c @ [Commit]) = Inr u \<and> c' = after_call c Commit"
  "set_local k v env c = (Finished (Inr u), c') \<longleftrightarrow>
     on_time env c (Set_Local k v) \<and> (\<exists>t. on_text env (calls c @ [Set_Local k v]) = Inr t)
     \<and> c' = after_call c (Set_Local k v)"
  "set_local_bytes k b env c = (Finished (Inr u), c') \<longleftrightarrow>
     on_time env c (Set_Local_Bytes k b) \<and> (\<exists>t. on_text env (calls c @ [Set_Local_Bytes k b]) = Inr t)
     \<and> c' = after_call c (Set_Local_Bytes k b)"
  "fetch_one f ps env c = (Finished (Inr row), c') \<longleftrightarrow>
     on_time env c (Query f ps) \<and> on_row env (calls c @ [Query f ps]) = Inr row
     \<and> c' = after_call c (Query f ps)"
  "fetch_optional f ps env c = (Finished (Inr found), c') \<longleftrightarrow>
     on_time env c (Query f ps) \<and> on_optional env (calls c @ [Query f ps]) = Inr found
     \<and> c' = after_call c (Query f ps)"
  "fetch_all f ps env c = (Finished (Inr rows), c') \<longleftrightarrow>
     on_time env c (Query f ps) \<and> on_rows env (calls c @ [Query f ps]) = Inr rows
     \<and> c' = after_call c (Query f ps)"
  "fetch_scalar f ps env c = (Finished (Inr t), c') \<longleftrightarrow>
     on_time env c (Query f ps) \<and> on_text env (calls c @ [Query f ps]) = Inr t
     \<and> c' = after_call c (Query f ps)"
  "execute f ps env c = (Finished (Inr u), c') \<longleftrightarrow>
     on_time env c (Query f ps) \<and> on_unit env (calls c @ [Query f ps]) = Inr u
     \<and> c' = after_call c (Query f ps)"
  "read_body n env c = (Finished r, c') \<longleftrightarrow>
     on_time env c (Read_Body n) \<and> on_body env (calls c @ [Read_Body n]) = r
     \<and> c' = after_call c (Read_Body n)"
  by (auto simp: call_defs run_andthen run_await run_give on_time_def after_call_def)

section \<open>Runs that fail\<close>

text \<open>
  A run fails with an error at one call: these rules find it, from the outside in.
\<close>

lemma run_try_Inl:
  "try_then p f env c = (Finished (Inl e), c') \<longleftrightarrow>
     p env c = (Finished (Inl e), c')
     \<or> (\<exists>a c1. p env c = (Finished (Inr a), c1) \<and> f a env c1 = (Finished (Inl e), c'))"
proof -
  have "(case r of Inl e \<Rightarrow> give (Inl e) | Inr a \<Rightarrow> f a) env c1 = (Finished (Inl e), c')
      \<longleftrightarrow> r = Inl e \<and> c1 = c' \<or> (\<exists>a. r = Inr a \<and> f a env c1 = (Finished (Inl e), c'))" for r c1
    by (cases r) (auto simp: run_give)
  then show ?thesis by (auto simp: try_then_def run_andthen)
qed

lemma run_or_err_Inl:
  "or_err f p env c = (Finished (Inl e), c') \<longleftrightarrow>
     (\<exists>d. p env c = (Finished (Inl d), c') \<and> e = f d)"
  by (auto simp: or_err_def run_andthen run_give map_err_Inl)

lemma run_calls_Inl:
  "commit env c = (Finished (Inl e), c') \<longleftrightarrow>
     on_time env c Commit \<and> on_unit env (calls c @ [Commit]) = Inl e \<and> c' = after_call c Commit"
  "fetch_one f ps env c = (Finished (Inl e), c') \<longleftrightarrow>
     on_time env c (Query f ps) \<and> on_row env (calls c @ [Query f ps]) = Inl e
     \<and> c' = after_call c (Query f ps)"
  "fetch_all f ps env c = (Finished (Inl e), c') \<longleftrightarrow>
     on_time env c (Query f ps) \<and> on_rows env (calls c @ [Query f ps]) = Inl e
     \<and> c' = after_call c (Query f ps)"
  "fetch_scalar f ps env c = (Finished (Inl e), c') \<longleftrightarrow>
     on_time env c (Query f ps) \<and> on_text env (calls c @ [Query f ps]) = Inl e
     \<and> c' = after_call c (Query f ps)"
  by (auto simp: call_defs run_andthen run_await run_give on_time_def after_call_def
      eq_commute [of "Inl e"])

lemmas failed_runs = run_try_Inl run_or_err_Inl run_calls_Inl

section \<open>Finishing\<close>

text \<open>Programs outside a deadline always finish.\<close>

definition finishes :: "'a prog \<Rightarrow> bool" where
  "finishes p = (\<forall>env c. \<not> timed c \<longrightarrow> (\<exists>r c'. p env c = (Finished r, c') \<and> \<not> timed c'))"

lemma finishes_intros [effect_simps, intro!]:
  "finishes (give a)"
  "finishes (await g call)"
  "finishes (immediate g call)"
  "finishes (observe g)"
  by (auto simp: finishes_def give_def await_def immediate_def observe_def Let_def)

lemma finishes_andthen [intro!]:
  "finishes p \<Longrightarrow> (\<And>a. finishes (f a)) \<Longrightarrow> finishes (andthen p f)"
  unfolding finishes_def andthen_def
proof (intro allI impI)
  fix env and c :: ctx
  assume p: "\<forall>env c. \<not> timed c \<longrightarrow> (\<exists>r c'. p env c = (Finished r, c') \<and> \<not> timed c')"
    and f: "\<And>a. \<forall>env c. \<not> timed c \<longrightarrow> (\<exists>r c'. f a env c = (Finished r, c') \<and> \<not> timed c')"
    and c: "\<not> timed c"
  from p c obtain a c1 where "p env c = (Finished a, c1)" "\<not> timed c1" by blast
  with f show "\<exists>r c'. (case p env c of (Finished a, c') \<Rightarrow> f a env c' | (Expired, c') \<Rightarrow> (Expired, c'))
      = (Finished r, c') \<and> \<not> timed c'"
    by simp
qed

lemma finishes_try [intro!]:
  "finishes p \<Longrightarrow> (\<And>a. finishes (f a)) \<Longrightarrow> finishes (try_then p f)"
  unfolding try_then_def by (intro finishes_andthen) (auto split: sum.split)

lemma finishes_or_err [intro!]: "finishes p \<Longrightarrow> finishes (or_err f p)"
  unfolding or_err_def by auto

lemma finishes_timeout [intro!]: "finishes (timeout p)"
  unfolding finishes_def
proof (intro allI impI)
  fix env and c :: ctx
  assume "\<not> timed c"
  then show "\<exists>r c'. timeout p env c = (Finished r, c') \<and> \<not> timed c'"
    by (cases "p env (c\<lparr>timed := True\<rparr>)") (auto simp: timeout_def split: outcome.split)
qed

lemma finishes_calls [intro!]:
  "finishes begin_transaction" "finishes commit"
  "finishes (set_local k v)" "finishes (set_local_bytes k b)"
  "finishes (fetch_one f ps)" "finishes (fetch_optional f ps)" "finishes (fetch_all f ps)"
  "finishes (fetch_scalar f ps)" "finishes (execute f ps)" "finishes (read_body n)"
  unfolding call_defs by auto

section \<open>The history only grows\<close>

definition grows :: "'a prog \<Rightarrow> bool" where
  "grows p = (\<forall>env c out c'. p env c = (out, c') \<longrightarrow> prefix (calls c) (calls c') \<and> timed c' = timed c)"

lemma growsD: "grows p \<Longrightarrow> p env c = (out, c') \<Longrightarrow> prefix (calls c) (calls c') \<and> timed c' = timed c"
  unfolding grows_def by blast

lemma grows_intros [intro!]:
  "grows (give a)" "grows (await g call)" "grows (immediate g call)" "grows (observe g)"
  by (auto simp: grows_def give_def await_def immediate_def observe_def Let_def split: if_splits)

lemma grows_andthen [intro!]:
  assumes p: "grows p" and f: "\<And>a. grows (f a)"
  shows "grows (andthen p f)"
  unfolding grows_def
proof (intro allI impI)
  fix env c out c'
  assume r: "andthen p f env c = (out, c')"
  obtain o1 c1 where p1: "p env c = (o1, c1)" by fastforce
  show "prefix (calls c) (calls c') \<and> timed c' = timed c"
  proof (cases o1)
    case (Finished a)
    with r p1 have "f a env c1 = (out, c')" by (simp add: andthen_def)
    with growsD [OF p p1] growsD [OF f this] show ?thesis by auto
  next
    case Expired
    with r p1 growsD [OF p p1] show ?thesis by (simp add: andthen_def)
  qed
qed

lemma grows_try [intro!]: "grows p \<Longrightarrow> (\<And>a. grows (f a)) \<Longrightarrow> grows (try_then p f)"
  unfolding try_then_def by (intro grows_andthen) (auto split: sum.split)

lemma grows_or_err [intro!]: "grows p \<Longrightarrow> grows (or_err f p)"
  unfolding or_err_def by auto

lemma grows_timeout [intro!]:
  assumes "grows p"
  shows "grows (timeout p)"
  unfolding grows_def
proof (intro allI impI)
  fix env c out c'
  assume r: "timeout p env c = (out, c')"
  obtain o1 c1 where p1: "p env (c\<lparr>timed := True\<rparr>) = (o1, c1)" by fastforce
  with r growsD [OF assms p1] show "prefix (calls c) (calls c') \<and> timed c' = timed c"
    by (cases o1) (auto simp: timeout_def)
qed

lemma grows_calls [intro!]:
  "grows begin_transaction" "grows commit"
  "grows (set_local k v)" "grows (set_local_bytes k b)"
  "grows (fetch_one f ps)" "grows (fetch_optional f ps)" "grows (fetch_all f ps)"
  "grows (fetch_scalar f ps)" "grows (execute f ps)" "grows (read_body n)"
  unfolding call_defs by auto

end
