(* ===== verification/Monitors.thy ===== *)
theory Monitors
  imports Effects
begin

text \<open>
  Safety of call sequences. A monitor is a state machine over calls: a step function and a
  condition under which the next call is legal. The locale \<open>monitor\<close> proves, once, the rules by
  which a program keeps every call legal, in a fixed environment, whose answers a monitor may look
  at; \<open>sessions\<close> is the monitor of the database discipline: which settings the current transaction
  has, and which caller the database has answered and committed. \<open>issues\<close> bounds the number of
  statements of a kind.
\<close>

section \<open>Accepted call sequences\<close>

fun accepts :: "('s \<Rightarrow> call \<Rightarrow> 's) \<Rightarrow> ('s \<Rightarrow> call \<Rightarrow> bool) \<Rightarrow> 's \<Rightarrow> call list \<Rightarrow> bool" where
  "accepts step legal s [] = True"
| "accepts step legal s (c # cs) = (legal s c \<and> accepts step legal (step s c) cs)"

definition state_after :: "('s \<Rightarrow> call \<Rightarrow> 's) \<Rightarrow> 's \<Rightarrow> call list \<Rightarrow> 's" where
  "state_after step s cs = foldl step s cs"

lemma state_after_snoc [simp]:
  "state_after step s [] = s"
  "state_after step s (cs @ [c]) = step (state_after step s cs) c"
  by (simp_all add: state_after_def)

lemma accepts_snoc [simp]:
  "accepts step legal s (cs @ [c]) \<longleftrightarrow>
     accepts step legal s cs \<and> legal (state_after step s cs) c"
  by (induction cs arbitrary: s) (auto simp: state_after_def)

lemma accepts_split:
  "accepts step legal s (cs @ ds) \<longleftrightarrow>
     accepts step legal s cs \<and> accepts step legal (state_after step s cs) ds"
  by (induction cs arbitrary: s) (auto simp: state_after_def)

text \<open>
  \<open>keeps env step legal start s p Q\<close>: in \<open>env\<close>, from a context whose calls are accepted and lead
  to \<open>s\<close>, the program \<open>p\<close> makes only legal calls, whether it finishes or runs out of time, and a result \<open>a\<close>
  leaves the monitor in a state that satisfies \<open>Q a\<close>.
\<close>

definition keeps ::
    "env \<Rightarrow> ('s \<Rightarrow> call \<Rightarrow> 's) \<Rightarrow> ('s \<Rightarrow> call \<Rightarrow> bool) \<Rightarrow> 's \<Rightarrow> 's \<Rightarrow> 'a prog \<Rightarrow> ('a \<Rightarrow> 's \<Rightarrow> bool) \<Rightarrow> bool" where
  "keeps env step legal start s p Q =
     (\<forall>c out c'. p env c = (out, c') \<longrightarrow> accepts step legal start (calls c) \<longrightarrow>
        state_after step start (calls c) = s \<longrightarrow>
        accepts step legal start (calls c')
        \<and> (case out of Finished a \<Rightarrow> Q a (state_after step start (calls c')) | Expired \<Rightarrow> True))"

locale monitor =
  fixes step :: "'s \<Rightarrow> call \<Rightarrow> 's"
    and legal :: "'s \<Rightarrow> call \<Rightarrow> bool"
    and start :: 's
  assumes body_legal: "legal s (Read_Body n)"
    and acquire_legal: "legal s Try_Acquire"
begin

lemma keepsI:
  assumes "\<And>c out c'. p env c = (out, c') \<Longrightarrow> accepts step legal start (calls c) \<Longrightarrow>
      state_after step start (calls c) = s \<Longrightarrow>
      accepts step legal start (calls c')
      \<and> (case out of Finished a \<Rightarrow> Q a (state_after step start (calls c')) | Expired \<Rightarrow> True)"
  shows "keeps env step legal start s p Q"
  using assms unfolding keeps_def by blast

lemma give: "Q a s \<Longrightarrow> keeps env step legal start s (give a) Q"
  by (auto simp: keeps_def give_def)

lemma weaken:
  "keeps env step legal start s p Q \<Longrightarrow> (\<And>a t. Q a t \<Longrightarrow> R a t) \<Longrightarrow> keeps env step legal start s p R"
proof (rule keepsI)
  fix c out c'
  assume "keeps env step legal start s p Q" and q: "\<And>a t. Q a t \<Longrightarrow> R a t"
    and "p env c = (out, c')" "accepts step legal start (calls c)"
      "state_after step start (calls c) = s"
  then have "accepts step legal start (calls c')
      \<and> (case out of Finished a \<Rightarrow> Q a (state_after step start (calls c')) | Expired \<Rightarrow> True)"
    unfolding keeps_def by blast
  then show "accepts step legal start (calls c')
      \<and> (case out of Finished a \<Rightarrow> R a (state_after step start (calls c')) | Expired \<Rightarrow> True)"
    using q by (cases out) auto
qed

lemma andthen:
  assumes p: "keeps env step legal start s p (\<lambda>a t. keeps env step legal start t (f a) Q)"
  shows "keeps env step legal start s (andthen p f) Q"
proof (rule keepsI)
  fix c out c'
  assume r: "andthen p f env c = (out, c')" and ok: "accepts step legal start (calls c)"
    and s: "state_after step start (calls c) = s"
  obtain o1 c1 where p1: "p env c = (o1, c1)" by fastforce
  have h: "accepts step legal start (calls c1)
      \<and> (case o1 of Finished a \<Rightarrow> keeps env step legal start (state_after step start (calls c1)) (f a) Q
         | Expired \<Rightarrow> True)"
    using p p1 ok s unfolding keeps_def by blast
  show "accepts step legal start (calls c')
      \<and> (case out of Finished a \<Rightarrow> Q a (state_after step start (calls c')) | Expired \<Rightarrow> True)"
  proof (cases o1)
    case (Finished a)
    with r p1 have "f a env c1 = (out, c')" by (simp add: andthen_def)
    with h Finished show ?thesis unfolding keeps_def by auto
  next
    case Expired
    with r p1 h show ?thesis by (auto simp: andthen_def)
  qed
qed

lemma andthen_any:
  assumes "keeps env step legal start s p (\<lambda>_ _. True)" and "\<And>a t. keeps env step legal start t (f a) Q"
  shows "keeps env step legal start s (andthen p f) Q"
  by (rule andthen, rule weaken [OF assms(1)], rule assms(2))

lemma try_then:
  assumes "keeps env step legal start s p (\<lambda>r t. (\<forall>e. r = Inl e \<longrightarrow> Q (Inl e) t)
      \<and> (\<forall>a. r = Inr a \<longrightarrow> keeps env step legal start t (f a) Q))"
  shows "keeps env step legal start s (try_then p f) Q"
  unfolding try_then_def
  by (rule andthen, rule weaken [OF assms]) (auto intro: give split: sum.split)

lemma or_err:
  assumes "keeps env step legal start s p (\<lambda>r t. Q (map_err g r) t)"
  shows "keeps env step legal start s (or_err g p) Q"
  unfolding or_err_def by (rule andthen, rule weaken [OF assms]) (auto intro: give)

lemma await:
  assumes "legal s c"
    and "\<And>h. state_after step start h = s \<Longrightarrow> Q (g env (h @ [c])) (step s c)"
  shows "keeps env step legal start s (await g c) Q"
  using assms by (auto simp: keeps_def await_def Let_def)

lemma immediate:
  assumes "legal s c"
    and "\<And>h. state_after step start h = s \<Longrightarrow> Q (g env (h @ [c])) (step s c)"
  shows "keeps env step legal start s (immediate g c) Q"
  using assms by (auto simp: keeps_def immediate_def Let_def)

lemma observe: "(\<And>a. Q a s) \<Longrightarrow> keeps env step legal start s (observe g) Q"
  by (auto simp: keeps_def observe_def)

lemma timeout:
  assumes "keeps env step legal start s p (\<lambda>a t. Q (Inr a) t)" and "\<And>t. Q (Inl Elapsed_Error) t"
  shows "keeps env step legal start s (timeout p) Q"
proof (rule keepsI)
  fix c out c'
  assume r: "timeout p env c = (out, c')" and ok: "accepts step legal start (calls c)"
    and s: "state_after step start (calls c) = s"
  obtain o1 c1 where p1: "p env (c\<lparr>timed := True\<rparr>) = (o1, c1)" by fastforce
  have "accepts step legal start (calls c1)
      \<and> (case o1 of Finished a \<Rightarrow> Q (Inr a) (state_after step start (calls c1)) | Expired \<Rightarrow> True)"
    using assms(1) p1 ok s unfolding keeps_def by fastforce
  with r p1 assms(2) show "accepts step legal start (calls c')
      \<and> (case out of Finished a \<Rightarrow> Q a (state_after step start (calls c')) | Expired \<Rightarrow> True)"
    by (cases o1) (auto simp: timeout_def)
qed

lemma read_body: "(\<And>r. Q r (step s (Read_Body n))) \<Longrightarrow> keeps env step legal start s (read_body n) Q"
  unfolding read_body_def by (rule await) (simp_all add: body_legal)

lemma try_acquire: "(\<And>r. Q r (step s Try_Acquire)) \<Longrightarrow> keeps env step legal start s (immediate g Try_Acquire) Q"
  by (rule immediate) (simp_all add: acquire_legal)

lemma set_local:
  "legal s (Set_Local k v) \<Longrightarrow> (\<And>r. Q r (step s (Set_Local k v))) \<Longrightarrow>
     keeps env step legal start s (set_local k v) Q"
  unfolding set_local_def by (intro andthen await give) auto

lemma set_local_bytes:
  "legal s (Set_Local_Bytes k v) \<Longrightarrow> (\<And>r. Q r (step s (Set_Local_Bytes k v))) \<Longrightarrow>
     keeps env step legal start s (set_local_bytes k v) Q"
  unfolding set_local_bytes_def by (intro andthen await give) auto

text \<open>A fact about the state that no call changes survives every program.\<close>

lemma stable:
  assumes "keeps env step legal start s p (\<lambda>_ _. True)" and "grows p"
    and "P s" and p: "\<And>s c. P s \<Longrightarrow> P (step s c)"
  shows "keeps env step legal start s p (\<lambda>_ t. P t)"
proof (rule keepsI)
  fix c out c'
  assume r: "p env c = (out, c')" and ok: "accepts step legal start (calls c)"
    and s: "state_after step start (calls c) = s"
  obtain x where x: "calls c' = calls c @ x"
    using growsD [OF assms(2) r] by (auto elim: prefixE)
  have "P (foldl step s x)"
    using assms(3) p by (induction x arbitrary: s) simp_all
  moreover have "state_after step start (calls c') = foldl step s x"
    using s by (simp add: x state_after_def)
  moreover have "accepts step legal start (calls c')"
    using assms(1) r ok s unfolding keeps_def by blast
  ultimately show "accepts step legal start (calls c')
      \<and> (case out of Finished a \<Rightarrow> P (state_after step start (calls c')) | Expired \<Rightarrow> True)"
    by (simp split: outcome.split)
qed

lemma accepted:
  assumes "keeps env step legal start start p Q" and "p env fresh = (out, c')"
  shows "accepts step legal start (calls c')"
  using assms unfolding keeps_def fresh_def by fastforce

end

section \<open>The session monitor\<close>

record caller =
  tenant_id :: str
  credential_id :: str

text \<open>\<open>ReaderContext\<close> and \<open>WriterContext\<close> have the same two fields; both are \<open>caller\<close>.\<close>

datatype setting = As_text str | As_hex bytes

record session =
  past :: "call list"
  settings :: "(str \<Rightarrow> setting option) option" \<comment> \<open>of the current transaction, if there is one\<close>
  asking :: "caller option" \<comment> \<open>whom the database named in the current transaction\<close>
  resolved :: "caller option" \<comment> \<open>whom it named in the first such transaction it committed\<close>

definition session_start :: session where
  "session_start = \<lparr>past = [], settings = None, asking = None, resolved = None\<rparr>"

definition resolvers :: "str set" where
  "resolvers = {''resolve_current_reader'', ''resolve_current_writer''}"

text \<open>The caller that the answer of a resolver names: a row with both columns.\<close>

definition named_caller :: "sqlx_error + pg_row option \<Rightarrow> caller option" where
  "named_caller answer =
     (case answer of
        Inr (Some row) \<Rightarrow>
          (case (get_text row ''tenant_id'', get_text row ''credential_id'') of
             (Inr t, Inr c) \<Rightarrow> Some \<lparr>tenant_id = t, credential_id = c\<rparr>
           | _ \<Rightarrow> None)
      | _ \<Rightarrow> None)"

fun settings_step :: "(str \<Rightarrow> setting option) option \<Rightarrow> call \<Rightarrow> (str \<Rightarrow> setting option) option" where
  "settings_step m Begin = Some Map.empty"
| "settings_step m Begin_On_Connection = Some Map.empty"
| "settings_step m (Set_Local k v) = map_option (\<lambda>m. m(k \<mapsto> As_text v)) m"
| "settings_step m (Set_Local_Bytes k v) = map_option (\<lambda>m. m(k \<mapsto> As_hex v)) m"
| "settings_step m Commit = None"
| "settings_step m (Query f ps) = m"
| "settings_step m Try_Acquire = m"
| "settings_step m (Read_Body n) = m"

text \<open>
  The answers count, not only the calls: a resolver statement names the caller of the row that
  \<open>env\<close> answered to it, and that caller is resolved when \<open>env\<close> has answered the commit of the same
  transaction without an error. The first resolved caller stays.
\<close>

fun asking_step :: "env \<Rightarrow> session \<Rightarrow> call \<Rightarrow> caller option" where
  "asking_step env s (Query f ps) =
     (if f \<in> resolvers then named_caller (on_optional env (past s @ [Query f ps])) else asking s)"
| "asking_step env s Begin = None"
| "asking_step env s Begin_On_Connection = None"
| "asking_step env s Commit = None"
| "asking_step env s _ = asking s"

definition resolved_step :: "env \<Rightarrow> session \<Rightarrow> call \<Rightarrow> caller option" where
  "resolved_step env s c =
     (if resolved s = None \<and> c = Commit \<and> on_unit env (past s @ [Commit]) = Inr ()
      then asking s else resolved s)"

definition session_step :: "env \<Rightarrow> session \<Rightarrow> call \<Rightarrow> session" where
  "session_step env s c =
     \<lparr>past = past s @ [c], settings = settings_step (settings s) c, asking = asking_step env s c,
      resolved = resolved_step env s c\<rparr>"

lemma session_step_fields [simp]:
  "past (session_step env s c) = past s @ [c]"
  "settings (session_step env s c) = settings_step (settings s) c"
  "asking (session_step env s c) = asking_step env s c"
  "c \<noteq> Commit \<Longrightarrow> resolved (session_step env s c) = resolved s"
  by (simp_all add: session_step_def resolved_step_def)

lemma resolved_session_step: "resolved (session_step env s c) = resolved_step env s c"
  by (simp add: session_step_def)

lemma resolved_commit:
  "resolved s = None \<Longrightarrow> on_unit env (past s @ [Commit]) = Inr () \<Longrightarrow>
     resolved (session_step env s Commit) = asking s"
  by (simp add: session_step_def resolved_step_def)

lemma past_state: "past (state_after (session_step env) session_start h) = h"
  by (induction h rule: rev_induct) (simp_all, simp add: session_start_def)

text \<open>
  The discipline of a request whose credential has the given digest (\<open>None\<close> without a usable bearer
  token): every statement runs inside a transaction with a statement timeout. Recording a rejection
  may name that credential and no other. Every other statement requires the credential; resolving
  the caller needs nothing else. A data function runs only for the resolved caller: its first two
  parameters are that caller's tenant and credential, and its own transaction is set to that tenant.
\<close>

definition for_caller :: "caller \<Rightarrow> param list \<Rightarrow> bool" where
  "for_caller who ps =
     (take 2 ps = [P_text (tenant_id who), P_text (credential_id who)])"

definition statement_legal :: "bytes option \<Rightarrow> session \<Rightarrow> str \<Rightarrow> param list \<Rightarrow> bool" where
  "statement_legal digest s f ps =
     (case settings s of
        None \<Rightarrow> False
      | Some m \<Rightarrow>
          m ''statement_timeout'' \<noteq> None
          \<and> (if f = ''record_request_rejection''
             then m ''app.credential_digest'' = None
                  \<or> m ''app.credential_digest'' = map_option As_hex digest
             else digest \<noteq> None \<and> m ''app.credential_digest'' = map_option As_hex digest
                  \<and> (f \<in> resolvers
                     \<or> (case resolved s of
                          None \<Rightarrow> False
                        | Some who \<Rightarrow>
                            m ''app.tenant_id'' = Some (As_text (tenant_id who))
                            \<and> (f = ''current_setting'' \<or> for_caller who ps)))))"

definition session_legal :: "bytes option \<Rightarrow> session \<Rightarrow> call \<Rightarrow> bool" where
  "session_legal digest s c =
     (case c of
        Query f ps \<Rightarrow> statement_legal digest s f ps
      | Set_Local _ _ \<Rightarrow> settings s \<noteq> None
      | Set_Local_Bytes _ _ \<Rightarrow> settings s \<noteq> None
      | Commit \<Rightarrow> settings s \<noteq> None
      | _ \<Rightarrow> True)"

interpretation sessions: monitor "session_step env" "session_legal digest" session_start
  for env digest
  by unfold_locales (simp_all add: session_legal_def)

abbreviation disciplined ::
    "env \<Rightarrow> bytes option \<Rightarrow> session \<Rightarrow> 'a prog \<Rightarrow> ('a \<Rightarrow> session \<Rightarrow> bool) \<Rightarrow> bool" where
  "disciplined env digest \<equiv> keeps env (session_step env) (session_legal digest) session_start"

text \<open>A call of a program: what its answer is, and the state that saw it.\<close>

lemma session_await:
  assumes "session_legal digest s c" and "Q (g env (past s @ [c])) (session_step env s c)"
  shows "disciplined env digest s (await g c) Q"
  by (rule sessions.await) (use assms in \<open>auto simp: past_state\<close>)

lemma resolved_stable:
  "resolved s = Some who \<Longrightarrow> resolved (session_step env s c) = Some who"
  by (simp add: session_step_def resolved_step_def)

lemma disciplined_resolved:
  "disciplined env d s p (\<lambda>_ _. True) \<Longrightarrow> grows p \<Longrightarrow> resolved s = Some who \<Longrightarrow>
     disciplined env d s p (\<lambda>_ t. resolved t = Some who)"
  by (rule sessions.stable) (simp_all add: resolved_stable)

section \<open>Who is resolved\<close>

lemma unresolved_start: "resolved session_start = None"
  by (simp add: session_start_def)

text \<open>
  \<open>identified env h who\<close>: in the history \<open>h\<close> there is a transaction that asked a resolver, the
  environment answered a row with the tenant and credential of \<open>who\<close>, and it confirmed the commit
  of that same transaction.
\<close>

definition boundary :: "call \<Rightarrow> bool" where
  "boundary c = (c = Begin \<or> c = Begin_On_Connection \<or> c = Commit)"

definition named_in :: "env \<Rightarrow> call list \<Rightarrow> caller \<Rightarrow> bool" where
  "named_in env h who =
     (\<exists>before f ps since. h = before @ Query f ps # since \<and> f \<in> resolvers
        \<and> named_caller (on_optional env (before @ [Query f ps])) = Some who
        \<and> (\<forall>c \<in> set since. \<not> boundary c))"

definition identified :: "env \<Rightarrow> call list \<Rightarrow> caller \<Rightarrow> bool" where
  "identified env h who =
     (\<exists>transaction. prefix (transaction @ [Commit]) h \<and> named_in env transaction who
        \<and> on_unit env (transaction @ [Commit]) = Inr ())"

lemma named_in_snoc:
  "named_in env h who \<Longrightarrow> \<not> boundary c \<Longrightarrow> named_in env (h @ [c]) who"
  unfolding named_in_def
proof (elim exE conjE)
  fix before f ps since
  assume "h = before @ Query f ps # since" "f \<in> resolvers"
    "named_caller (on_optional env (before @ [Query f ps])) = Some who"
    "\<forall>c\<in>set since. \<not> boundary c" "\<not> boundary c"
  then show "\<exists>before f ps since. h @ [c] = before @ Query f ps # since \<and> f \<in> resolvers
      \<and> named_caller (on_optional env (before @ [Query f ps])) = Some who
      \<and> (\<forall>c\<in>set since. \<not> boundary c)"
    by (intro exI [of _ before] exI [of _ f] exI [of _ ps] exI [of _ "since @ [c]"]) auto
qed

lemma asking_named:
  "asking (state_after (session_step env) session_start h) = Some who \<Longrightarrow> named_in env h who"
proof (induction h rule: rev_induct)
  case Nil
  then show ?case by (simp add: session_start_def)
next
  case (snoc c h)
  show ?case
  proof (cases "\<exists>f ps. c = Query f ps \<and> f \<in> resolvers")
    case True
    with snoc.prems show ?thesis
      unfolding named_in_def by (fastforce simp: past_state)
  next
    case False
    with snoc show ?thesis
      by (cases c) (auto intro!: named_in_snoc simp: boundary_def)
  qed
qed

lemma resolved_identified:
  "resolved (state_after (session_step env) session_start h) = Some who \<Longrightarrow> identified env h who"
proof (induction h rule: rev_induct)
  case Nil
  then show ?case by (simp add: session_start_def)
next
  case (snoc c h)
  let ?s = "state_after (session_step env) session_start h"
  show ?case
  proof (cases "resolved ?s")
    case None
    with snoc.prems have "c = Commit" "on_unit env (h @ [Commit]) = Inr ()" "asking ?s = Some who"
      by (auto simp: resolved_session_step resolved_step_def past_state split: if_splits)
    with asking_named [of env h who] show ?thesis unfolding identified_def by auto
  next
    case (Some v)
    with snoc have "identified env h who" by (simp add: resolved_stable)
    then show ?thesis unfolding identified_def by auto
  qed
qed

lemma accepted_identified:
  assumes "accepts (session_step env) (session_legal digest) session_start (pre @ Query f ps # post)"
    and "f \<notin> resolvers" and "f \<noteq> ''record_request_rejection''"
  shows "\<exists>who. identified env pre who \<and> (f = ''current_setting'' \<or> for_caller who ps)"
proof -
  have "statement_legal digest (state_after (session_step env) session_start pre) f ps"
    using assms(1) by (simp add: accepts_split session_legal_def)
  with assms(2,3) obtain who where
    "resolved (state_after (session_step env) session_start pre) = Some who"
    "f = ''current_setting'' \<or> for_caller who ps"
    by (auto simp: statement_legal_def split: option.splits)
  then show ?thesis using resolved_identified by blast
qed

section \<open>Counting statements\<close>

definition statements :: "str set \<Rightarrow> call list \<Rightarrow> nat" where
  "statements fs cs = length (filter (\<lambda>c. case c of Query f _ \<Rightarrow> f \<in> fs | _ \<Rightarrow> False) cs)"

lemma statements_simps [simp]:
  "statements fs [] = 0"
  "statements fs (cs @ ds) = statements fs cs + statements fs ds"
  "statements fs (Query f ps # cs) = (if f \<in> fs then 1 else 0) + statements fs cs"
  "statements fs (Begin # cs) = statements fs cs"
  "statements fs (Begin_On_Connection # cs) = statements fs cs"
  "statements fs (Set_Local k v # cs) = statements fs cs"
  "statements fs (Set_Local_Bytes k b # cs) = statements fs cs"
  "statements fs (Commit # cs) = statements fs cs"
  "statements fs (Try_Acquire # cs) = statements fs cs"
  "statements fs (Read_Body n # cs) = statements fs cs"
  by (simp_all add: statements_def)

text \<open>
  \<open>issues fs k p\<close>: however it ends, the program makes at most \<open>k\<close> statements that call a function
  of \<open>fs\<close>.
\<close>

definition issues :: "str set \<Rightarrow> nat \<Rightarrow> 'a prog \<Rightarrow> bool" where
  "issues fs k p =
     (\<forall>env c out c'. p env c = (out, c') \<longrightarrow>
        statements fs (calls c') \<le> statements fs (calls c) + k)"

lemma issuesD: "issues fs k p \<Longrightarrow> p env c = (out, c') \<Longrightarrow>
    statements fs (calls c') \<le> statements fs (calls c) + k"
  unfolding issues_def by blast

lemma issuesI:
  "(\<And>env c out c'. p env c = (out, c') \<Longrightarrow>
      statements fs (calls c') \<le> statements fs (calls c) + k) \<Longrightarrow> issues fs k p"
  unfolding issues_def by blast

lemma issues_more: "issues fs k p \<Longrightarrow> k \<le> m \<Longrightarrow> issues fs m p"
  by (rule issuesI) (drule issuesD, assumption, simp)

lemma issues_andthen:
  assumes p: "issues fs j p" and f: "\<And>a. issues fs k (f a)"
  shows "issues fs (j + k) (andthen p f)"
proof (rule issuesI)
  fix env c out c'
  assume r: "andthen p f env c = (out, c')"
  obtain o1 c1 where p1: "p env c = (o1, c1)" by fastforce
  note j = issuesD [OF p p1]
  show "statements fs (calls c') \<le> statements fs (calls c) + (j + k)"
  proof (cases o1)
    case (Finished a)
    with r p1 have "f a env c1 = (out, c')" by (simp add: andthen_def)
    with j issuesD [OF f this] show ?thesis by simp
  next
    case Expired
    with r p1 j show ?thesis by (simp add: andthen_def)
  qed
qed

lemma issues_await:
  "issues fs (statements fs [c]) (await g c)"
  by (rule issuesI) (auto simp: await_def Let_def split: if_splits)

lemma issues_timeout:
  assumes "issues fs k p"
  shows "issues fs k (timeout p)"
proof (rule issuesI)
  fix env c out c'
  assume r: "timeout p env c = (out, c')"
  obtain o1 c1 where p1: "p env (c\<lparr>timed := True\<rparr>) = (o1, c1)" by fastforce
  with r issuesD [OF assms p1] show "statements fs (calls c') \<le> statements fs (calls c) + k"
    by (cases o1) (auto simp: timeout_def)
qed

lemma issues_none:
  "issues fs k (give a)" "issues fs k (observe g)" "issues fs k (immediate g Try_Acquire)"
  by (auto intro: issuesI simp: give_def observe_def immediate_def Let_def)

text \<open>Programs that issue no statement of a kind, and the composition rules for them.\<close>

lemma quiet_andthen: "issues fs 0 p \<Longrightarrow> (\<And>a. issues fs k (f a)) \<Longrightarrow> issues fs k (andthen p f)"
  using issues_andthen [of fs 0 p k f] by simp

lemma quiet_try: "issues fs 0 p \<Longrightarrow> (\<And>a. issues fs k (f a)) \<Longrightarrow> issues fs k (try_then p f)"
  unfolding try_then_def by (rule quiet_andthen) (auto intro: issues_none split: sum.split)

lemma last_andthen: "issues fs k p \<Longrightarrow> (\<And>a. issues fs 0 (f a)) \<Longrightarrow> issues fs k (andthen p f)"
  using issues_andthen [of fs k p 0 f] by simp

lemma last_try: "issues fs k p \<Longrightarrow> (\<And>a. issues fs 0 (f a)) \<Longrightarrow> issues fs k (try_then p f)"
  unfolding try_then_def by (rule last_andthen) (auto intro: issues_none split: sum.split)

lemma issues_or_err: "issues fs k p \<Longrightarrow> issues fs k (or_err f p)"
  unfolding or_err_def by (rule last_andthen) (auto intro: issues_none)

lemma quiet_settings:
  "issues fs 0 begin_transaction" "issues fs 0 commit" "issues fs 0 (set_local k v)"
  "issues fs 0 (set_local_bytes k b)" "issues fs 0 (read_body n)"
  "issues fs 0 (await g Begin_On_Connection)"
  unfolding call_defs
  by (auto intro!: issues_none last_andthen intro: issues_more [OF issues_await])

lemma quiet_queries:
  assumes "f \<notin> fs"
  shows "issues fs 0 (fetch_one f ps)" "issues fs 0 (fetch_optional f ps)"
    "issues fs 0 (fetch_all f ps)" "issues fs 0 (fetch_scalar f ps)" "issues fs 0 (execute f ps)"
  unfolding call_defs using assms by (auto intro: issues_more [OF issues_await])

lemma issues_queries:
  "issues fs 1 (fetch_one f ps)" "issues fs 1 (fetch_optional f ps)"
  "issues fs 1 (fetch_all f ps)" "issues fs 1 (fetch_scalar f ps)" "issues fs 1 (execute f ps)"
  unfolding call_defs by (auto intro: issues_more [OF issues_await])

lemmas quiet = quiet_try quiet_andthen issues_or_err issues_none quiet_settings quiet_queries
  issues_timeout

end
