(* ===== verification/Requests.thy ===== *)
theory Requests
  imports Monitors Token_Budget
begin

text \<open>
  What every route shares (\<open>src/src/lib.rs\<close>): the parts of an HTTP request the handlers look at,
  the bearer token and the other headers, \<open>authenticate_reader\<close>, \<open>authenticate_writer\<close>, the
  bounded body reads, and the rejection path \<open>finish_operation_error\<close>, \<open>audit_rejection\<close>,
  \<open>write_rejection_audit\<close>. A header value is its bytes and what \<open>HeaderValue::to_str\<close> makes of
  them; the path parameter is \<open>None\<close> when the framework rejects it.
\<close>

section \<open>Requests\<close>

record header_value =
  raw :: bytes
  as_text :: "str option"

record http_request =
  authorization :: "header_value option"
  content_type :: "header_value option"
  idempotency_header :: "header_value option"
  uri_query :: "str option"
  path_item :: "str option"

definition header_text :: "header_value option \<Rightarrow> str option" where
  "header_text h = (case h of None \<Rightarrow> None | Some v \<Rightarrow> as_text v)"

definition bearer_token :: "http_request \<Rightarrow> str option" where
  "bearer_token req =
     (case header_text (authorization req) of
        None \<Rightarrow> None
      | Some value \<Rightarrow>
          (case strip_prefix ''Bearer '' value of
             None \<Rightarrow> None
           | Some token \<Rightarrow>
               if 32 \<le> length token \<and> length token \<le> 128 \<and> is_ascii token then Some token
               else None))"

definition has_json_content_type :: "http_request \<Rightarrow> bool" where
  "has_json_content_type req =
     (case content_type req of
        None \<Rightarrow> False
      | Some value \<Rightarrow> eq_ignore_ascii_case (raw value) ''application/json'')"

definition idempotency_key :: "http_request \<Rightarrow> str option" where
  "idempotency_key req =
     (case header_text (idempotency_header req) of
        None \<Rightarrow> None
      | Some value \<Rightarrow>
          if 16 \<le> length value \<and> length value \<le> 128
             \<and> list_all (\<lambda>b. 0x21 \<le> byte b \<and> byte b \<le> 0x7e) value
          then Some value else None)"

section \<open>Authentication\<close>

definition authenticate :: "str \<Rightarrow> bytes \<Rightarrow> str \<Rightarrow> (request_failure + caller) prog" where
  "authenticate resolver digest operation =
     try_then (or_err Storage begin_transaction) (\<lambda>_.
     try_then (or_err Storage (set_local ''lock_timeout'' ''100ms'')) (\<lambda>_.
     try_then (or_err Storage (set_local ''statement_timeout'' ''250ms'')) (\<lambda>_.
     try_then (or_err Storage (set_local_bytes ''app.credential_digest'' digest)) (\<lambda>_.
     try_then (or_err Storage (fetch_optional resolver [P_text operation])) (\<lambda>found.
     try_then (give (ok_or Unauthenticated found)) (\<lambda>row.
     try_then (give (column get_text row ''tenant_id'')) (\<lambda>tenant.
     try_then (give (column get_text row ''credential_id'')) (\<lambda>credential.
     try_then (or_err Storage commit) (\<lambda>_.
       give (Inr \<lparr>tenant_id = tenant, credential_id = credential\<rparr>))))))))))"

definition authenticate_reader :: "bytes \<Rightarrow> str \<Rightarrow> (request_failure + caller) prog" where
  "authenticate_reader digest operation = authenticate ''resolve_current_reader'' digest operation"

definition authenticate_writer :: "bytes \<Rightarrow> str \<Rightarrow> (request_failure + caller) prog" where
  "authenticate_writer digest operation = authenticate ''resolve_current_writer'' digest operation"

text \<open>
  Authentication under its deadline, as every route does it: the three-way match on the nested
  result.
\<close>

fun flatten_timeout :: "(elapsed \<Rightarrow> 'f) \<Rightarrow> ('e \<Rightarrow> 'f) \<Rightarrow> elapsed + ('e + 'a) \<Rightarrow> 'f + 'a" where
  "flatten_timeout late wrong (Inr (Inr a)) = Inr a"
| "flatten_timeout late wrong (Inr (Inl e)) = Inl (wrong e)"
| "flatten_timeout late wrong (Inl t) = Inl (late t)"

definition authenticated :: "(request_failure + caller) prog \<Rightarrow> (request_failure + caller) prog" where
  "authenticated p =
     andthen (timeout p) (\<lambda>r. give (flatten_timeout AuthenticationTimeout (\<lambda>e. e) r))"

definition bounded_body :: "nat \<Rightarrow> (request_failure + bytes) prog" where
  "bounded_body limit =
     andthen (timeout (read_body limit)) (\<lambda>r. give (flatten_timeout BodyTimeout BodyRead r))"

text \<open>A body that must be empty.\<close>

definition empty_body :: "(request_failure + unit) prog" where
  "empty_body =
     try_then (bounded_body 0) (\<lambda>body. give (if body = [] then Inr () else Inl Malformed))"

section \<open>Rejections\<close>

definition write_rejection_audit ::
    "str \<Rightarrow> str \<Rightarrow> str \<Rightarrow> bytes option \<Rightarrow> bytes option \<Rightarrow> (sqlx_error + unit) prog" where
  "write_rejection_audit request_id operation kind digest key_digest =
     try_then (await on_unit Begin_On_Connection) (\<lambda>_.
     try_then (set_local ''lock_timeout'' ''100ms'') (\<lambda>_.
     try_then (set_local ''statement_timeout'' ''250ms'') (\<lambda>_.
     try_then (case digest of
                 None \<Rightarrow> give (Inr ())
               | Some d \<Rightarrow> set_local_bytes ''app.credential_digest'' d) (\<lambda>_.
     try_then (case key_digest of
                 None \<Rightarrow> give (Inr ())
               | Some d \<Rightarrow> set_local_bytes ''app.idempotency_key_digest'' d) (\<lambda>_.
     try_then (execute ''record_request_rejection''
                 [P_text request_id, P_text operation, P_text kind]) (\<lambda>_.
     try_then commit (\<lambda>_. give (Inr ()))))))))"

definition audit_rejection ::
    "str \<Rightarrow> str \<Rightarrow> str \<Rightarrow> bytes option \<Rightarrow> bytes option \<Rightarrow> unit prog" where
  "audit_rejection request_id operation kind digest key_digest =
     andthen (immediate on_acquire Try_Acquire) (\<lambda>connection.
       if \<not> connection then give ()
       else
         andthen (write_rejection_audit request_id operation kind digest key_digest)
           (\<lambda>audit_result. give ()))"

definition finish_operation_error ::
    "str \<Rightarrow> request_failure \<Rightarrow> bytes option \<Rightarrow> bytes option \<Rightarrow> request_operation \<Rightarrow> 'a response prog" where
  "finish_operation_error request_id failure digest key_digest operation =
     andthen
       (case audit_outcome operation failure of
          None \<Rightarrow> give ()
        | Some kind \<Rightarrow>
            audit_rejection request_id (operation_str operation) kind digest key_digest)
       (\<lambda>_. give (failure_response failure request_id))"

section \<open>Lemmas\<close>

lemma finishes_authenticate [intro!]: "finishes (authenticate resolver digest operation)"
  unfolding authenticate_def by (intro finishes_try finishes_or_err) auto

lemma finishes_authenticated [intro!]: "finishes (authenticated p)"
  unfolding authenticated_def by auto

lemma finishes_bounded_body [intro!]: "finishes (bounded_body n)"
  unfolding bounded_body_def by auto

lemma finishes_empty_body [intro!]: "finishes empty_body"
  unfolding empty_body_def by auto

lemma finishes_audit [intro!]: "finishes (audit_rejection i op k d kd)"
  unfolding audit_rejection_def write_rejection_audit_def
  by (auto split: option.split)

lemma finishes_finish [intro!]: "finishes (finish_operation_error i e d kd op)"
  unfolding finish_operation_error_def by (auto split: option.split)

lemma flatten_timeout_Inr [effect_simps]:
  "Inr a = flatten_timeout late wrong r \<longleftrightarrow> r = Inr (Inr a)"
  "flatten_timeout late wrong r = Inr a \<longleftrightarrow> r = Inr (Inr a)"
  by (cases "(late, wrong, r)" rule: flatten_timeout.cases; auto)+

text \<open>The calls of a successful authentication.\<close>

definition authentication_calls :: "str \<Rightarrow> bytes \<Rightarrow> str \<Rightarrow> call list" where
  "authentication_calls resolver digest operation =
     [Begin, Set_Local ''lock_timeout'' ''100ms'', Set_Local ''statement_timeout'' ''250ms'',
      Set_Local_Bytes ''app.credential_digest'' digest, Query resolver [P_text operation], Commit]"

text \<open>The answer that identified the caller.\<close>

definition resolved_as :: "env \<Rightarrow> call list \<Rightarrow> caller \<Rightarrow> bool" where
  "resolved_as env h who =
     (\<exists>row. on_optional env h = Inr (Some row)
        \<and> get_text row ''tenant_id'' = Inr (tenant_id who)
        \<and> get_text row ''credential_id'' = Inr (credential_id who))"

lemma run_authenticate:
  assumes "authenticate resolver digest operation env c = (Finished (Inr who), c')"
  shows "calls c' = calls c @ authentication_calls resolver digest operation
    \<and> resolved_as env (calls c @ butlast (authentication_calls resolver digest operation)) who
    \<and> timed c' = timed c"
  using assms
  unfolding authenticate_def
  by (clarsimp simp: effect_simps result_simps authentication_calls_def resolved_as_def)

lemma run_authenticated:
  assumes "authenticated (authenticate resolver digest operation) env c = (Finished (Inr who), c')"
  shows "calls c' = calls c @ authentication_calls resolver digest operation
    \<and> resolved_as env (calls c @ butlast (authentication_calls resolver digest operation)) who
    \<and> timed c' = timed c"
proof -
  from assms obtain c1 where
    "authenticate resolver digest operation env (c\<lparr>timed := True\<rparr>) = (Finished (Inr who), c1)"
    "c' = c1\<lparr>timed := timed c\<rparr>"
    by (auto simp: authenticated_def effect_simps)
  then show ?thesis using run_authenticate by fastforce
qed

lemma run_bounded_body:
  assumes "bounded_body n env c = (Finished (Inr body), c')"
  shows "calls c' = calls c @ [Read_Body n] \<and> on_body env (calls c @ [Read_Body n]) = Inr body
    \<and> timed c' = timed c"
  using assms by (auto simp: bounded_body_def effect_simps)

lemma run_empty_body:
  assumes "empty_body env c = (Finished (Inr u), c')"
  shows "calls c' = calls c @ [Read_Body 0] \<and> on_body env (calls c @ [Read_Body 0]) = Inr []
    \<and> timed c' = timed c"
  using assms run_bounded_body
  by (fastforce simp: empty_body_def effect_simps split: if_splits)

section \<open>Discipline of the shared parts\<close>

text \<open>
  One rule per database call, with a successful and a failed continuation. The continuation of a
  query may use what the environment answered; that of a commit that it succeeded.
\<close>

lemma session_unit:
  assumes "session_legal d s c" and "\<And>e. Q (Inl e) (session_step env s c)"
    and "on_unit env (past s @ [c]) = Inr () \<Longrightarrow> Q (Inr ()) (session_step env s c)"
  shows "disciplined env d s (await on_unit c) Q"
  by (rule session_await) (use assms in \<open>cases "on_unit env (past s @ [c])"; simp\<close>)+

lemma session_query:
  assumes "statement_legal d s f ps"
    and "\<And>r. g env (past s @ [Query f ps]) = r \<Longrightarrow> Q r (session_step env s (Query f ps))"
  shows "disciplined env d s (await g (Query f ps)) Q"
  by (rule session_await) (use assms in \<open>simp_all add: session_legal_def\<close>)

lemma legal_calls:
  "session_legal d s Begin" "session_legal d s Begin_On_Connection"
  "settings s \<noteq> None \<Longrightarrow> session_legal d s Commit"
  "settings s \<noteq> None \<Longrightarrow> session_legal d s (Set_Local k v)"
  "settings s \<noteq> None \<Longrightarrow> session_legal d s (Set_Local_Bytes k b)"
  by (simp_all add: session_legal_def)

lemma session_commit:
  assumes "settings s \<noteq> None" and "\<And>r. Q r (session_step env s Commit)"
  shows "disciplined env d s commit Q"
  unfolding commit_def by (rule session_await) (use assms in \<open>simp_all add: legal_calls\<close>)

lemma session_set:
  assumes "settings s \<noteq> None" and "\<And>r. Q r (session_step env s (Set_Local k v))"
  shows "disciplined env d s (set_local k v) Q"
  by (rule sessions.set_local) (use assms in \<open>simp_all add: legal_calls\<close>)

lemma session_set_bytes:
  assumes "settings s \<noteq> None" and "\<And>r. Q r (session_step env s (Set_Local_Bytes k v))"
  shows "disciplined env d s (set_local_bytes k v) Q"
  by (rule sessions.set_local_bytes) (use assms in \<open>simp_all add: legal_calls\<close>)

text \<open>The same rules inside a sequence, for calls whose errors are not mapped, and for the others.\<close>

lemma raw_begin:
  assumes "\<And>e t. Q (Inl e) t" and "disciplined env d (session_step env s Begin) (f ()) Q"
  shows "disciplined env d s (try_then begin_transaction f) Q"
  unfolding begin_transaction_def
  by (intro sessions.try_then session_unit) (use assms in \<open>auto simp: legal_calls\<close>)

lemma raw_begin_on_connection:
  assumes "\<And>e t. Q (Inl e) t"
    and "disciplined env d (session_step env s Begin_On_Connection) (f ()) Q"
  shows "disciplined env d s (try_then (await on_unit Begin_On_Connection) f) Q"
  by (intro sessions.try_then session_unit) (use assms in \<open>auto simp: legal_calls\<close>)

lemma raw_set:
  assumes "\<And>e t. Q (Inl e) t" and "settings s \<noteq> None"
    and "disciplined env d (session_step env s (Set_Local k v)) (f ()) Q"
  shows "disciplined env d s (try_then (set_local k v) f) Q"
  by (intro sessions.try_then session_set) (use assms in auto)

lemma raw_set_bytes:
  assumes "\<And>e t. Q (Inl e) t" and "settings s \<noteq> None"
    and "disciplined env d (session_step env s (Set_Local_Bytes k v)) (f ()) Q"
  shows "disciplined env d s (try_then (set_local_bytes k v) f) Q"
  by (intro sessions.try_then session_set_bytes) (use assms in auto)

lemma raw_query:
  assumes "\<And>e t. Q (Inl e) t" and "statement_legal d s q ps"
    and "\<And>r. h env (past s @ [Query q ps]) = Inr r \<Longrightarrow>
      disciplined env d (session_step env s (Query q ps)) (f r) Q"
  shows "disciplined env d s (try_then (await h (Query q ps)) f) Q"
  by (intro sessions.try_then session_query) (use assms in auto)

lemma raw_commit:
  assumes "\<And>e t. Q (Inl e) t" and "settings s \<noteq> None"
    and "on_unit env (past s @ [Commit]) = Inr () \<Longrightarrow>
      disciplined env d (session_step env s Commit) (f ()) Q"
  shows "disciplined env d s (try_then commit f) Q"
  unfolding commit_def
  by (intro sessions.try_then session_unit) (use assms in \<open>auto simp: legal_calls\<close>)

lemma step_begin:
  assumes "\<And>e t. Q (Inl e) t" and "disciplined env d (session_step env s Begin) (f ()) Q"
  shows "disciplined env d s (try_then (or_err g begin_transaction) f) Q"
  unfolding begin_transaction_def
  by (intro sessions.try_then sessions.or_err session_unit)
    (use assms in \<open>auto simp: result_simps legal_calls\<close>)

lemma step_set:
  assumes "\<And>e t. Q (Inl e) t" and "settings s \<noteq> None"
    and "disciplined env d (session_step env s (Set_Local k v)) (f ()) Q"
  shows "disciplined env d s (try_then (or_err g (set_local k v)) f) Q"
  by (intro sessions.try_then sessions.or_err session_set)
    (use assms in \<open>auto simp: result_simps\<close>)

lemma step_set_bytes:
  assumes "\<And>e t. Q (Inl e) t" and "settings s \<noteq> None"
    and "disciplined env d (session_step env s (Set_Local_Bytes k v)) (f ()) Q"
  shows "disciplined env d s (try_then (or_err g (set_local_bytes k v)) f) Q"
  by (intro sessions.try_then sessions.or_err session_set_bytes)
    (use assms in \<open>auto simp: result_simps\<close>)

lemma step_query:
  assumes "\<And>e t. Q (Inl e) t" and "statement_legal d s q ps"
    and "\<And>r. h env (past s @ [Query q ps]) = Inr r \<Longrightarrow>
      disciplined env d (session_step env s (Query q ps)) (f r) Q"
  shows "disciplined env d s (try_then (or_err g (await h (Query q ps))) f) Q"
  by (intro sessions.try_then sessions.or_err session_query)
    (use assms in \<open>auto simp: result_simps\<close>)

lemma step_commit:
  assumes "\<And>e t. Q (Inl e) t" and "settings s \<noteq> None"
    and "on_unit env (past s @ [Commit]) = Inr () \<Longrightarrow>
      disciplined env d (session_step env s Commit) (f ()) Q"
  shows "disciplined env d s (try_then (or_err g commit) f) Q"
  unfolding commit_def
  by (intro sessions.try_then sessions.or_err session_unit)
    (use assms in \<open>auto simp: result_simps legal_calls\<close>)

lemma step_give:
  assumes "\<And>e t. Q (Inl e) t" and "\<And>a. r = Inr a \<Longrightarrow> disciplined env d s (f a) Q"
  shows "disciplined env d s (try_then (give r) f) Q"
  by (intro sessions.try_then sessions.give) (use assms in auto)

lemmas transaction_steps =
  step_begin step_set step_set_bytes step_query step_commit step_give

lemmas raw_steps =
  raw_begin raw_begin_on_connection raw_set raw_set_bytes raw_query raw_commit step_give

text \<open>
  An authentication that succeeds returns the caller that the database named and committed, and no
  other.
\<close>

lemma disciplined_authenticate:
  assumes "resolver \<in> resolvers" and "resolved s = None" and "\<And>e t. Q (Inl e) t"
    and "\<And>who t. resolved t = Some who \<Longrightarrow> Q (Inr who) t"
  shows "disciplined env (Some digest) s (authenticate resolver digest operation) Q"
  unfolding authenticate_def fetch_optional_def
  by (intro transaction_steps assms(3) sessions.give assms(4))
    (use assms(1,2) in \<open>simp_all add: statement_legal_def resolvers_def resolved_commit
        named_caller_def result_simps\<close>)

lemma disciplined_authenticated:
  assumes "resolver \<in> resolvers" and "resolved s = None" and "\<And>e t. Q (Inl e) t"
    and "\<And>who t. resolved t = Some who \<Longrightarrow> Q (Inr who) t"
  shows "disciplined env (Some digest) s (authenticated (authenticate resolver digest operation)) Q"
  unfolding authenticated_def
  by (intro sessions.andthen sessions.timeout disciplined_authenticate sessions.give)
    (use assms in auto)

lemma disciplined_body:
  assumes "\<And>r t. resolved t = resolved s \<Longrightarrow> Q r t" and "\<And>e t. Q (Inl e) t"
  shows "disciplined env d s (bounded_body n) Q"
  unfolding bounded_body_def
  by (intro sessions.andthen sessions.timeout sessions.read_body sessions.give) (use assms in auto)

lemma disciplined_empty_body:
  assumes "\<And>r t. resolved t = resolved s \<Longrightarrow> Q r t" and "\<And>e t. Q (Inl e) t"
  shows "disciplined env d s empty_body Q"
  unfolding empty_body_def
  by (intro sessions.try_then disciplined_body)
    (use assms in \<open>auto intro: sessions.give split: if_splits\<close>)

lemma raw_optional_bytes:
  assumes "\<And>e t. Q (Inl e) t" and "settings s \<noteq> None"
    and "x = None \<Longrightarrow> disciplined env d s (f ()) Q"
    and "\<And>b. x = Some b \<Longrightarrow> disciplined env d (session_step env s (Set_Local_Bytes k b)) (f ()) Q"
  shows "disciplined env d s
    (try_then (case x of None \<Rightarrow> give (Inr ()) | Some b \<Rightarrow> set_local_bytes k b) f) Q"
proof (cases x)
  case None
  then show ?thesis using assms(1,3) by (auto intro: step_give)
next
  case (Some b)
  then show ?thesis using assms(1,2,4) by (auto intro: raw_set_bytes)
qed

lemma disciplined_audit_write:
  assumes "d = None \<or> d = digest"
  shows "disciplined env digest s (write_rejection_audit i op k d kd) (\<lambda>_ _. True)"
  unfolding write_rejection_audit_def execute_def
  by (intro raw_optional_bytes raw_steps sessions.give TrueI, simp_all)
    (use assms in \<open>auto simp: statement_legal_def\<close>)

lemma disciplined_audit:
  assumes "d = None \<or> d = digest"
  shows "disciplined env digest s (audit_rejection i op k d kd) (\<lambda>_ _. True)"
proof -
  have "disciplined env digest t
      (if \<not> connection then give ()
       else andthen (write_rejection_audit i op k d kd) (\<lambda>_. give ())) (\<lambda>_ _. True)" for connection t
  proof (cases connection)
    case True
    then show ?thesis
      by (simp, intro sessions.andthen sessions.weaken [OF disciplined_audit_write [OF assms]]
          sessions.give TrueI)
  next
    case False
    then show ?thesis by (simp add: sessions.give)
  qed
  then show ?thesis
    unfolding audit_rejection_def by (intro sessions.andthen sessions.try_acquire)
qed

lemma disciplined_finish:
  assumes "d = None \<or> d = digest"
  shows "disciplined env digest s (finish_operation_error i e d kd op) (\<lambda>_ _. True)"
  unfolding finish_operation_error_def
  by (cases "audit_outcome op e")
    (auto intro!: sessions.andthen sessions.give
      intro: sessions.weaken [OF disciplined_audit [OF assms]])

section \<open>Statements of the shared parts\<close>

lemma grows_authenticated [intro!]: "grows (authenticated (authenticate resolver digest operation))"
  unfolding authenticated_def authenticate_def
  by (intro grows_andthen grows_timeout grows_try grows_or_err) auto

lemma grows_bounded_body [intro!]: "grows (bounded_body n)"
  unfolding bounded_body_def by (intro grows_andthen grows_timeout) auto

lemma grows_empty_body [intro!]: "grows empty_body"
  unfolding empty_body_def by (intro grows_try) auto

lemma grows_audit [intro!]: "grows (audit_rejection i op k d kd)"
  unfolding audit_rejection_def write_rejection_audit_def by (auto split: option.split)

lemma quiet_authenticate:
  "resolver \<notin> fs \<Longrightarrow> issues fs 0 (authenticated (authenticate resolver digest operation))"
  unfolding authenticated_def authenticate_def by (intro quiet) auto

lemma quiet_bounded_body: "issues fs 0 (bounded_body n)"
  unfolding bounded_body_def by (intro quiet)

lemma quiet_empty_body: "issues fs 0 empty_body"
  unfolding empty_body_def by (intro quiet quiet_bounded_body)

lemma quiet_optional_bytes:
  "issues fs 0 (case x of None \<Rightarrow> give (Inr ()) | Some b \<Rightarrow> set_local_bytes k b)"
  by (auto intro: quiet split: option.split)

lemma quiet_finish:
  assumes "''record_request_rejection'' \<notin> fs"
  shows "issues fs 0 (finish_operation_error i e d kd op)"
proof -
  have "issues fs 0 (write_rejection_audit i op k d kd)" for op k
    unfolding write_rejection_audit_def
    by (intro quiet quiet_optional_bytes assms)
  then show ?thesis
    unfolding finish_operation_error_def audit_rejection_def
    by (auto intro!: quiet split: option.split)
qed

section \<open>A scripted database\<close>

definition last_statement :: "call list \<Rightarrow> str" where
  "last_statement h = (case last h of Query f _ \<Rightarrow> f | _ \<Rightarrow> [])"

definition scripted ::
    "(str \<Rightarrow> pg_row option) \<Rightarrow> (str \<Rightarrow> pg_row list) \<Rightarrow> bytes \<Rightarrow> env" where
  "scripted one many body =
     \<lparr>on_unit = (\<lambda>_. Inr ()), on_text = (\<lambda>_. Inr ''disjunctive''),
      on_row = (\<lambda>h. case one (last_statement h) of Some r \<Rightarrow> Inr r | None \<Rightarrow> Inl missing),
      on_optional = (\<lambda>h. Inr (one (last_statement h))),
      on_rows = (\<lambda>h. Inr (many (last_statement h))),
      on_body = (\<lambda>_. Inr body), on_acquire = (\<lambda>_. True), on_deadline = (\<lambda>_. False),
      on_permits = (\<lambda>_. 2), on_join = (\<lambda>_. True)\<rparr>"

definition caller_row :: pg_row where
  "caller_row = row_of [(''tenant_id'', Text ''t1''), (''credential_id'', Text ''c1'')]"

definition header_of :: "str \<Rightarrow> header_value option" where
  "header_of s = Some \<lparr>raw = s, as_text = Some s\<rparr>"

definition sample_request :: "str option \<Rightarrow> str option \<Rightarrow> http_request" where
  "sample_request q item =
     \<lparr>authorization = header_of (''Bearer '' @ replicate 32 CHR ''a''),
      content_type = header_of ''application/json'',
      idempotency_header = header_of (replicate 16 CHR ''k''),
      uri_query = q, path_item = item\<rparr>"

lemma guard_ok: "bounded_json_structure_with_limit ''{}'' n"
  by (simp add: bounded_json_structure_with_limit_def scan_start_def scan_byte_def
      scan_structure_def mark_element_def is_ascii_whitespace_def)

lemma token_ok: "bearer_token (sample_request q i) = Some (replicate 32 CHR ''a'')"
  by code_simp

lemma json_ok: "has_json_content_type (sample_request q i)"
  by code_simp


lemma caller_columns:
  "column get_text caller_row ''tenant_id'' = Inr ''t1''"
  "column get_text caller_row ''credential_id'' = Inr ''c1''"
  by (simp_all add: column_def caller_row_def row_of_def)

lemmas run_simps = andthen_def give_def try_then_def or_err_def await_def immediate_def observe_def
  timeout_def call_defs Let_def scripted_def last_statement_def fresh_def

lemma key_ok: "idempotency_key (sample_request q i) = Some (replicate 16 CHR ''k'')"
  by code_simp

lemma sample_request_fields:
  "uri_query (sample_request q i) = q" "path_item (sample_request q i) = i"
  by (simp_all add: sample_request_def)

lemmas sample_request_simps = token_ok json_ok key_ok sample_request_fields

end
