(* ===== verification/Handlers.thy ===== *)
theory Handlers
  imports Requests
begin

text \<open>
  The shape of every route that prepares its request first (list, search, create, correct and
  forget): a rejection is finished with the digest it carries, a prepared request is answered from
  the database, and a failure there is finished with the digests of the prepared request. The
  locale \<open>prepared_route\<close> states what a route owes this shape and proves once what it gets: it
  always answers, it keeps the session discipline, it asks nothing without a token, and it records
  at most one rejection, the one it answers.
\<close>

section \<open>Responses of a failure\<close>

lemma run_finish:
  "finish_operation_error i e d kd op env c = (Finished r, c') \<Longrightarrow> r = failure_response e i"
  by (auto simp: finish_operation_error_def effect_simps)

lemma failure_response_not_success [simp]:
  "failure_response e i \<noteq> Success st x" "Success st x \<noteq> failure_response e i"
  by (simp_all add: failure_response_def split: prod.split)

lemma run_finish_success [simp]:
  "finish_operation_error i e d kd op env c \<noteq> (Finished (Success st x), c')"
  using run_finish by fastforce

section \<open>Recorded rejections\<close>

definition recorded :: "call list \<Rightarrow> param list list" where
  "recorded cs = concat (map (\<lambda>c. case c of
       Query f ps \<Rightarrow> if f = ''record_request_rejection'' then [ps] else [] | _ \<Rightarrow> []) cs)"

lemma recorded_append [simp]: "recorded (cs @ ds) = recorded cs @ recorded ds"
  by (simp add: recorded_def)

lemma recorded_simps [simp]:
  "recorded [] = []"
  "recorded (Query f ps # cs) = (if f = ''record_request_rejection'' then [ps] else []) @ recorded cs"
  "recorded (Begin # cs) = recorded cs" "recorded (Begin_On_Connection # cs) = recorded cs"
  "recorded (Set_Local k v # cs) = recorded cs" "recorded (Set_Local_Bytes k b # cs) = recorded cs"
  "recorded (Commit # cs) = recorded cs" "recorded (Try_Acquire # cs) = recorded cs"
  "recorded (Read_Body n # cs) = recorded cs"
  by (simp_all add: recorded_def)

lemma length_recorded: "length (recorded cs) = statements {''record_request_rejection''} cs"
proof (induction cs)
  case (Cons c cs)
  then show ?case by (cases c) simp_all
qed simp

abbreviation quiet_log :: "'a prog \<Rightarrow> bool" where
  "quiet_log p \<equiv> issues {''record_request_rejection''} 0 p"

lemma quiet_log_recorded:
  assumes "quiet_log p" and "grows p" and "p env c = (out, c')"
  shows "recorded (calls c') = recorded (calls c)"
proof -
  obtain x where x: "calls c' = calls c @ x"
    using growsD [OF assms(2,3)] by (auto elim: prefixE)
  have "recorded x = []"
    using issuesD [OF assms(1,3)] length_recorded [of x] by (simp add: x)
  with x show ?thesis by simp
qed

text \<open>\<open>records ps p\<close>: the program records nothing, or exactly once with the parameters \<open>ps\<close>.\<close>

definition records :: "param list \<Rightarrow> 'a prog \<Rightarrow> bool" where
  "records ps p =
     (\<forall>env c out c'. p env c = (out, c') \<longrightarrow>
        recorded (calls c') \<in> {recorded (calls c), recorded (calls c) @ [ps]})"

lemma recordsD: "records ps p \<Longrightarrow> p env c = (out, c') \<Longrightarrow>
    recorded (calls c') \<in> {recorded (calls c), recorded (calls c) @ [ps]}"
  unfolding records_def by blast

lemma records_quiet: "quiet_log p \<Longrightarrow> grows p \<Longrightarrow> records ps p"
  unfolding records_def using quiet_log_recorded by blast

lemma records_then:
  assumes p: "quiet_log p" "grows p" and f: "\<And>a. records ps (f a)"
  shows "records ps (andthen p f)"
  unfolding records_def
proof (intro allI impI)
  fix env c out c'
  assume run: "andthen p f env c = (out, c')"
  obtain o1 c1 where p1: "p env c = (o1, c1)" by fastforce
  note a = quiet_log_recorded [OF p p1]
  show "recorded (calls c') \<in> {recorded (calls c), recorded (calls c) @ [ps]}"
  proof (cases o1)
    case (Finished v)
    with run p1 have "f v env c1 = (out, c')" by (simp add: andthen_def)
    from recordsD [OF f this] a show ?thesis by simp
  next
    case Expired
    with run p1 a show ?thesis by (simp add: andthen_def)
  qed
qed

lemma records_last:
  assumes p: "records ps p" and f: "\<And>a. quiet_log (f a)" "\<And>a. grows (f a)"
  shows "records ps (andthen p f)"
  unfolding records_def
proof (intro allI impI)
  fix env c out c'
  assume run: "andthen p f env c = (out, c')"
  obtain o1 c1 where p1: "p env c = (o1, c1)" by fastforce
  note a = recordsD [OF p p1]
  show "recorded (calls c') \<in> {recorded (calls c), recorded (calls c) @ [ps]}"
  proof (cases o1)
    case (Finished v)
    with run p1 have "f v env c1 = (out, c')" by (simp add: andthen_def)
    from quiet_log_recorded [OF f this] a show ?thesis by simp
  next
    case Expired
    with run p1 a show ?thesis by (simp add: andthen_def)
  qed
qed

lemma records_try:
  "quiet_log p \<Longrightarrow> grows p \<Longrightarrow> (\<And>a. records ps (f a)) \<Longrightarrow> records ps (try_then p f)"
  unfolding try_then_def
  by (rule records_then) (auto intro: records_quiet issues_none split: sum.split)

lemma records_last_try:
  "records ps p \<Longrightarrow> (\<And>a. quiet_log (f a)) \<Longrightarrow> (\<And>a. grows (f a)) \<Longrightarrow> records ps (try_then p f)"
  unfolding try_then_def by (rule records_last) (auto intro: issues_none split: sum.split)

lemma records_execute: "records ps (execute ''record_request_rejection'' ps)"
  unfolding execute_def records_def await_def Let_def by (auto split: if_splits)

lemma records_audit:
  "records [P_text i, P_text op, P_text k] (audit_rejection i op k d kd)"
proof -
  have "records [P_text i, P_text op, P_text k] (write_rejection_audit i op k d kd)"
    unfolding write_rejection_audit_def
    by (intro records_try records_last_try [OF records_execute] quiet quiet_optional_bytes)
      (auto split: option.split)
  then have "records [P_text i, P_text op, P_text k]
      (if \<not> connection then give ()
       else andthen (write_rejection_audit i op k d kd) (\<lambda>audit_result. give ()))" for connection
    by (simp add: records_quiet records_last issues_none grows_intros)
  then show ?thesis
    unfolding audit_rejection_def by (intro records_then issues_none grows_intros)
qed

text \<open>A failure is recorded under its own outcome, for the request and the operation at hand.\<close>

definition rejection_record :: "str \<Rightarrow> request_operation \<Rightarrow> request_failure \<Rightarrow> param list list" where
  "rejection_record i op e =
     (case audit_outcome op e of
        None \<Rightarrow> []
      | Some kind \<Rightarrow> [[P_text i, P_text (operation_str op), P_text kind]])"

lemma run_finish_recorded:
  assumes "finish_operation_error i e d kd op env c = (out, c')"
  shows "recorded (calls c') \<in> {recorded (calls c), recorded (calls c) @ rejection_record i op e}"
proof (cases "audit_outcome op e")
  case None
  with assms show ?thesis
    by (auto simp: finish_operation_error_def andthen_def give_def)
next
  case (Some kind)
  have "records [P_text i, P_text (operation_str op), P_text kind]
      (finish_operation_error i e d kd op :: 'a response prog)"
    unfolding finish_operation_error_def Some option.case
    by (intro records_last records_audit issues_none grows_intros)
  from recordsD [OF this assms] show ?thesis by (simp add: rejection_record_def Some)
qed

section \<open>Prepared routes\<close>

definition handle ::
    "(request_rejection + 'p) prog \<Rightarrow> ('p \<Rightarrow> (request_failure + 'x) prog) \<Rightarrow> ('p \<Rightarrow> bytes)
      \<Rightarrow> ('p \<Rightarrow> bytes option) \<Rightarrow> request_operation \<Rightarrow> ('x \<Rightarrow> nat) \<Rightarrow> str \<Rightarrow> 'x response prog" where
  "handle prepare answer digest_of key_of op code request_id =
     andthen prepare (\<lambda>r.
       case r of
         Inl rejection \<Rightarrow>
           finish_operation_error request_id (rejection_error rejection)
             (rejection_digest rejection) None op
       | Inr p \<Rightarrow>
           andthen (answer p) (\<lambda>r.
             case r of
               Inl failure \<Rightarrow>
                 finish_operation_error request_id failure (Some (digest_of p)) (key_of p) op
             | Inr x \<Rightarrow> give (Success (code x) x)))"

lemma run_handle_success:
  assumes "handle prepare answer digest_of key_of op code i env c = (Finished (Success st x), c')"
  obtains p c1 where "prepare env c = (Finished (Inr p), c1)"
    "answer p env c1 = (Finished (Inr x), c')" "st = code x"
proof -
  obtain o1 c1 where o1: "prepare env c = (o1, c1)" by fastforce
  with assms obtain p where p: "o1 = Finished (Inr p)"
    by (cases o1) (auto simp: handle_def andthen_def split: sum.splits)
  obtain o2 c2 where o2: "answer p env c1 = (o2, c2)" by fastforce
  with assms o1 p have "o2 = Finished (Inr x) \<and> st = code x \<and> c2 = c'"
    by (cases o2) (auto simp: handle_def andthen_def give_def split: sum.splits)
  with that o1 p o2 show ?thesis by blast
qed

text \<open>
  The session discipline of a preparation, which starts before any caller is resolved: it ends with
  a rejection that names no other credential, or with the digest of the request's own token and a
  prepared request that is \<open>ready\<close> for the caller that is resolved then.
\<close>

definition prepares ::
    "env \<Rightarrow> bytes option \<Rightarrow> ('p \<Rightarrow> bytes) \<Rightarrow> ('p \<Rightarrow> caller option \<Rightarrow> bool)
      \<Rightarrow> (request_rejection + 'p) prog \<Rightarrow> bool" where
  "prepares env digest digest_of ready p =
     (\<forall>s. resolved s = None \<longrightarrow> disciplined env digest s p (\<lambda>r t. case r of
         Inl e \<Rightarrow> rejection_digest e = None \<or> rejection_digest e = digest
       | Inr a \<Rightarrow> ready a (resolved t) \<and> digest = Some (digest_of a)))"

lemma preparesD:
  "prepares env digest digest_of ready p \<Longrightarrow> resolved s = None \<Longrightarrow>
     disciplined env digest s p (\<lambda>r t. case r of
         Inl e \<Rightarrow> rejection_digest e = None \<or> rejection_digest e = digest
       | Inr a \<Rightarrow> ready a (resolved t) \<and> digest = Some (digest_of a))"
  unfolding prepares_def by blast

text \<open>What a finished request has answered and recorded.\<close>

definition answered :: "str \<Rightarrow> request_operation \<Rightarrow> 'a response \<Rightarrow> call list \<Rightarrow> bool" where
  "answered i op r cs =
     ((\<exists>st x. r = Success st x \<and> st \<in> {200, 201}) \<and> recorded cs = []
      \<or> (\<exists>e. r = failure_response e i \<and> recorded cs \<in> {[], rejection_record i op e}))"

lemma prepares_by_token:
  assumes "\<And>token s. bearer_token req = Some token \<Longrightarrow> resolved s = None \<Longrightarrow>
      disciplined env (Some (sha token)) s (p token)
        (\<lambda>r t. \<forall>a. r = Inr a \<longrightarrow> ready a (resolved t) \<and> sha token = digest_of a)"
  shows "prepares env (map_option sha (bearer_token req)) digest_of ready
    (case bearer_token req of
       None \<Rightarrow> give (Inl (unattributed Unauthenticated))
     | Some token \<Rightarrow> or_err (\<lambda>e. attributed e (sha token)) (p token))"
proof (cases "bearer_token req")
  case None
  then show ?thesis
    by (auto simp: prepares_def unattributed_def intro!: sessions.give)
next
  case (Some token)
  show ?thesis
    unfolding prepares_def Some option.case
    by (auto intro!: sessions.or_err sessions.weaken [OF assms [OF Some]]
        simp: attributed_def result_simps split: sum.split)
qed

locale prepared_route =
  fixes sha :: "bytes \<Rightarrow> bytes"
    and prepare :: "http_request \<Rightarrow> (request_rejection + 'p) prog"
    and answer :: "str \<Rightarrow> 'p \<Rightarrow> (request_failure + 'x) prog"
    and digest_of :: "'p \<Rightarrow> bytes"
    and key_of :: "'p \<Rightarrow> bytes option"
    and ready :: "'p \<Rightarrow> caller option \<Rightarrow> bool"
    and op :: request_operation
    and code :: "'x \<Rightarrow> nat"
  assumes no_token: "bearer_token req = None \<Longrightarrow> prepare req = give (Inl (unattributed Unauthenticated))"
    and prepare_finishes: "finishes (prepare req)"
    and answer_finishes: "finishes (answer i p)"
    and prepare_disciplined: "prepares env (map_option sha (bearer_token req)) digest_of ready (prepare req)"
    and answer_disciplined: "ready p (resolved s) \<Longrightarrow>
      disciplined env (Some (digest_of p)) s (answer i p) (\<lambda>_ _. True)"
    and prepare_quiet: "quiet_log (prepare req)" "grows (prepare req)"
    and answer_quiet: "quiet_log (answer i p)" "grows (answer i p)"
    and code_ok: "code x \<in> {200, 201}"
begin

lemma always_answers: "finishes (handle (prepare req) (answer i) digest_of key_of op code i)"
  unfolding handle_def
  by (intro finishes_andthen prepare_finishes)
    (auto intro!: finishes_andthen answer_finishes split: sum.split)

lemma keeps_discipline:
  "resolved s = None \<Longrightarrow> disciplined env (map_option sha (bearer_token req)) s
     (handle (prepare req) (answer i) digest_of key_of op code i) (\<lambda>_ _. True)"
proof -
  assume start: "resolved s = None"
  have answered: "disciplined env (Some (digest_of p)) t
      (andthen (answer i p) (\<lambda>r. case r of
           Inl failure \<Rightarrow> finish_operation_error i failure (Some (digest_of p)) (key_of p) op
         | Inr x \<Rightarrow> give (Success (code x) x))) (\<lambda>_ _. True)" if "ready p (resolved t)" for p t
    by (rule sessions.andthen_any [OF answer_disciplined [OF that]])
      (auto intro: disciplined_finish sessions.give split: sum.split)
  show ?thesis
    unfolding handle_def
    by (rule sessions.andthen, rule sessions.weaken,
        rule preparesD [OF prepare_disciplined start])
      (use answered in \<open>auto intro: disciplined_finish split: sum.splits\<close>)
qed

lemma unauthenticated:
  "bearer_token req = None \<Longrightarrow>
     handle (prepare req) (answer i) digest_of key_of op code i
       = finish_operation_error i Unauthenticated None None op"
  by (simp add: handle_def no_token andthen_def give_def unattributed_def fun_eq_iff)

text \<open>What a run answers, and what it records.\<close>

lemma answers:
  assumes "handle (prepare req) (answer i) digest_of key_of op code i env fresh = (Finished r, c')"
  shows "answered i op r (calls c')"
proof -
  obtain o1 c1 where o1: "prepare req env fresh = (o1, c1)" by fastforce
  have z1: "recorded (calls c1) = []"
    using quiet_log_recorded [OF prepare_quiet o1] by (simp add: fresh_def)
  from assms o1 obtain r1 where r1: "o1 = Finished r1"
    by (cases o1) (auto simp: handle_def andthen_def)
  show ?thesis
  proof (cases r1)
    case (Inl rej)
    with assms o1 r1 have "finish_operation_error i (rejection_error rej) (rejection_digest rej) None op
        env c1 = (Finished r, c')"
      by (simp add: handle_def andthen_def)
    with run_finish run_finish_recorded z1 show ?thesis unfolding answered_def by fastforce
  next
    case (Inr p)
    obtain o2 c2 where o2: "answer i p env c1 = (o2, c2)" by fastforce
    have z2: "recorded (calls c2) = []"
      using quiet_log_recorded [OF answer_quiet o2] z1 by simp
    from assms o1 r1 Inr o2 obtain r2 where r2: "o2 = Finished r2"
      by (cases o2) (auto simp: handle_def andthen_def)
    have k: "(case r2 of
         Inl failure \<Rightarrow> finish_operation_error i failure (Some (digest_of p)) (key_of p) op
       | Inr x \<Rightarrow> give (Success (code x) x)) env c2 = (Finished r, c')"
      using assms o1 r1 Inr o2 r2 by (simp add: handle_def andthen_def)
    show ?thesis
    proof (cases r2)
      case (Inl e)
      with k run_finish run_finish_recorded z2 show ?thesis unfolding answered_def by fastforce
    next
      case (Inr x)
      with k z2 code_ok show ?thesis by (auto simp: give_def answered_def)
    qed
  qed
qed

end

end
