(* ===== verification/Read_Path.thy ===== *)
theory Read_Path
  imports Handlers
begin

text \<open>
  The read routes (\<open>read_item\<close>, \<open>read_item_from_database\<close>, \<open>list_collections\<close>, \<open>list_items\<close>,
  \<open>list_resources\<close>, \<open>prepare_list\<close>, \<open>list_resources_from_database\<close> of \<open>src/src/lib.rs\<close>).
\<close>

section \<open>The read transaction\<close>

text \<open>The settings with which read, list and search open their transaction.\<close>

definition open_read_transaction :: "bytes \<Rightarrow> str \<Rightarrow> str \<Rightarrow> (request_failure + unit) prog" where
  "open_read_transaction digest operation tenant =
     try_then (or_err Storage begin_transaction) (\<lambda>_.
     try_then (or_err Storage (set_local_bytes ''app.credential_digest'' digest)) (\<lambda>_.
     try_then (or_err Storage (set_local ''app.operation'' operation)) (\<lambda>_.
     try_then (or_err Storage (set_local ''lock_timeout'' ''250ms'')) (\<lambda>_.
     try_then (or_err Storage (set_local ''statement_timeout'' ''1000ms'')) (\<lambda>_.
     try_then (or_err Storage (set_local ''app.tenant_id'' tenant)) (\<lambda>_.
       give (Inr ())))))))"

definition read_transaction_calls :: "bytes \<Rightarrow> str \<Rightarrow> str \<Rightarrow> call list" where
  "read_transaction_calls digest operation tenant =
     [Begin, Set_Local_Bytes ''app.credential_digest'' digest, Set_Local ''app.operation'' operation,
      Set_Local ''lock_timeout'' ''250ms'', Set_Local ''statement_timeout'' ''1000ms'',
      Set_Local ''app.tenant_id'' tenant]"

lemma run_open_read:
  "open_read_transaction digest operation tenant env c = (Finished (Inr u), c') \<Longrightarrow>
     calls c' = calls c @ read_transaction_calls digest operation tenant \<and> timed c' = timed c"
  unfolding open_read_transaction_def
  by (clarsimp simp: effect_simps read_transaction_calls_def)

lemma finishes_open_read [intro!]: "finishes (open_read_transaction digest operation tenant)"
  unfolding open_read_transaction_def by (intro finishes_try finishes_or_err) auto

lemma grows_open_read [intro!]: "grows (open_read_transaction digest operation tenant)"
  unfolding open_read_transaction_def by (intro grows_try grows_or_err) auto

lemma quiet_open_read: "issues fs 0 (open_read_transaction digest operation tenant)"
  unfolding open_read_transaction_def by (intro quiet)

text \<open>What the opened transaction lets a data function do.\<close>

definition opened_for :: "bytes \<Rightarrow> caller \<Rightarrow> session \<Rightarrow> bool" where
  "opened_for digest who s =
     (\<exists>m. settings s = Some m \<and> m ''statement_timeout'' \<noteq> None
        \<and> m ''app.credential_digest'' = Some (As_hex digest)
        \<and> m ''app.tenant_id'' = Some (As_text (tenant_id who)) \<and> resolved s = Some who)"

lemma opened_legal:
  "opened_for digest who s \<Longrightarrow> f \<noteq> ''record_request_rejection'' \<Longrightarrow>
     statement_legal (Some digest) s f (P_text (tenant_id who) # P_text (credential_id who) # ps)"
  "opened_for digest who s \<Longrightarrow> statement_legal (Some digest) s ''current_setting'' ps"
  by (auto simp: opened_for_def statement_legal_def for_caller_def)

lemma opened_settings: "opened_for digest who s \<Longrightarrow> settings s \<noteq> None"
  by (auto simp: opened_for_def)

lemma opened_some: "opened_for digest who s \<Longrightarrow> \<exists>m. settings s = Some m"
  by (auto simp: opened_for_def)

lemma opened_query [simp]:
  "opened_for digest who (session_step env s (Query f ps)) = opened_for digest who s"
  by (simp add: opened_for_def)

lemma step_open_read:
  assumes "resolved s = Some who" and "\<And>e t. Q (Inl e) t"
    and "\<And>t. opened_for digest who t \<Longrightarrow> disciplined env (Some digest) t (f ()) Q"
  shows "disciplined env (Some digest) s
    (try_then (open_read_transaction digest operation (tenant_id who)) f) Q"
proof (rule sessions.try_then)
  show "disciplined env (Some digest) s (open_read_transaction digest operation (tenant_id who))
      (\<lambda>r t. (\<forall>e. r = Inl e \<longrightarrow> Q (Inl e) t)
        \<and> (\<forall>a. r = Inr a \<longrightarrow> disciplined env (Some digest) t (f a) Q))"
    unfolding open_read_transaction_def
    by (intro transaction_steps sessions.give)
      (use assms in \<open>auto simp: opened_for_def\<close>)
qed

section \<open>Reading one item\<close>

definition read_item_from_database ::
    "str \<Rightarrow> str option \<Rightarrow> str list option \<Rightarrow> bytes \<Rightarrow> caller \<Rightarrow> str
      \<Rightarrow> (request_failure + read_item) prog" where
  "read_item_from_database item expected_revision subjects digest reader request_id =
     try_then (open_read_transaction digest ''read'' (tenant_id reader)) (\<lambda>_.
     try_then (or_err classify_database_error
                 (fetch_optional ''read_current_item''
                   [P_text (tenant_id reader), P_text (credential_id reader), P_text request_id,
                    P_text item, P_opt_text expected_revision, P_opt_texts subjects])) (\<lambda>found.
     try_then (give (transpose_map (\<lambda>row. read_item_row row request_id) found)) (\<lambda>item.
     try_then (or_err Storage commit) (\<lambda>_.
       give (ok_or Unavailable item)))))"

definition selected_subjects :: "read_query \<Rightarrow> str list option" where
  "selected_subjects q = (if subject_ids q = [] then None else Some (subject_ids q))"

definition read_steps ::
    "library \<Rightarrow> str \<Rightarrow> http_request \<Rightarrow> bytes \<Rightarrow> (request_failure + read_item) prog" where
  "read_steps lib request_id req digest =
     try_then (authenticated (authenticate_reader digest ''read'')) (\<lambda>reader.
     try_then (give (parse_read_query (uri_query req))) (\<lambda>read_query.
     try_then (give (ok_or Malformed (path_item req))) (\<lambda>item.
     try_then (give (if \<not> valid_opaque_id item then Inl Malformed else Inr ())) (\<lambda>_.
     try_then empty_body (\<lambda>_.
       read_item_from_database item (expected_revision_id read_query)
         (selected_subjects read_query) digest reader request_id)))))"

definition read_item :: "library \<Rightarrow> str \<Rightarrow> http_request \<Rightarrow> read_item response prog" where
  "read_item lib request_id req =
     (case bearer_token req of
        None \<Rightarrow> finish_operation_error request_id Unauthenticated None None ReadOp
      | Some token \<Rightarrow>
          let digest = sha256_of lib token in
          andthen (read_steps lib request_id req digest) (\<lambda>r.
            case r of
              Inr item \<Rightarrow> give (Success 200 item)
            | Inl failure \<Rightarrow> finish_operation_error request_id failure (Some digest) None ReadOp))"

section \<open>Lists\<close>

record list_response =
  lr_request_id :: str
  lr_status :: str
  lr_items :: "list_entry list"
  lr_truncated :: bool
  lr_next_cursor :: "str option"

record prepared_list =
  pl_digest :: bytes
  pl_reader :: caller
  pl_limit :: int
  pl_cursor :: "str option"

definition prepare_list ::
    "library \<Rightarrow> http_request \<Rightarrow> (request_rejection + prepared_list) prog" where
  "prepare_list lib req =
     (case bearer_token req of
        None \<Rightarrow> give (Inl (unattributed Unauthenticated))
      | Some token \<Rightarrow>
          let digest = sha256_of lib token in
          or_err (\<lambda>e. attributed e digest)
            (try_then (authenticated (authenticate_reader digest ''list'')) (\<lambda>reader.
             try_then (give (case uri_query req of
                               Some q \<Rightarrow> if length q \<le> 600 then Inr (Some q) else Inl Malformed
                             | None \<Rightarrow> Inr None)) (\<lambda>q.
             try_then empty_body (\<lambda>_.
             try_then (give (ok_or Malformed (parse_list_query q))) (\<lambda>(limit, cursor).
               give (Inr \<lparr>pl_digest = digest, pl_reader = reader, pl_limit = limit,
                          pl_cursor = cursor\<rparr>))))))) "

definition list_resources_from_database ::
    "prepared_list \<Rightarrow> str \<Rightarrow> list_kind \<Rightarrow> (request_failure + list_response) prog" where
  "list_resources_from_database prepared request_id kind =
     try_then (open_read_transaction (pl_digest prepared) ''list'' (tenant_id (pl_reader prepared)))
       (\<lambda>_.
     try_then (or_err classify_list_database_error
                 (fetch_all ''list_current_resources''
                   [P_text (tenant_id (pl_reader prepared)),
                    P_text (credential_id (pl_reader prepared)), P_text request_id,
                    P_text (list_kind_str kind), P_int (pl_limit prepared),
                    P_opt_text (pl_cursor prepared)])) (\<lambda>rows.
     try_then (give (first_column get_opt_text rows ''next_cursor'')) (\<lambda>first.
     let next_cursor = (case first of None \<Rightarrow> None | Some cursor \<Rightarrow> cursor) in
     try_then (give (collect_results (\<lambda>row. read_list_entry row kind) rows)) (\<lambda>entries.
     try_then (or_err Storage commit) (\<lambda>_.
       give (Inr \<lparr>lr_request_id = request_id, lr_status = ''ready'', lr_items = entries,
                  lr_truncated = (next_cursor \<noteq> None), lr_next_cursor = next_cursor\<rparr>))))))"

definition list_resources ::
    "library \<Rightarrow> str \<Rightarrow> http_request \<Rightarrow> list_kind \<Rightarrow> list_response response prog" where
  "list_resources lib request_id req kind =
     andthen (prepare_list lib req) (\<lambda>r.
       case r of
         Inl rejection \<Rightarrow>
           finish_operation_error request_id (rejection_error rejection)
             (rejection_digest rejection) None ListOp
       | Inr prepared \<Rightarrow>
           andthen (list_resources_from_database prepared request_id kind) (\<lambda>r.
             case r of
               Inr found \<Rightarrow> give (Success 200 found)
             | Inl failure \<Rightarrow>
                 finish_operation_error request_id failure (Some (pl_digest prepared)) None ListOp))"

lemma list_resources_handle:
  "list_resources lib request_id req kind =
     handle (prepare_list lib req) (\<lambda>p. list_resources_from_database p request_id kind)
       pl_digest (\<lambda>_. None) ListOp (\<lambda>_. 200) request_id"
  by (simp add: list_resources_def handle_def)

section \<open>Runs\<close>

text \<open>
  The database statement that answers a read, and the calls before it: what identifies the caller,
  then the read transaction of that caller.
\<close>

definition read_statement :: "caller \<Rightarrow> str \<Rightarrow> str \<Rightarrow> read_query \<Rightarrow> call" where
  "read_statement reader request_id item q =
     Query ''read_current_item''
       [P_text (tenant_id reader), P_text (credential_id reader), P_text request_id, P_text item,
        P_opt_text (expected_revision_id q),
        P_opt_texts (selected_subjects q)]"

definition read_preamble :: "bytes \<Rightarrow> caller \<Rightarrow> call list" where
  "read_preamble digest reader =
     authentication_calls ''resolve_current_reader'' digest ''read'' @ [Read_Body 0]
     @ read_transaction_calls digest ''read'' (tenant_id reader)"

lemma run_read_from_database:
  assumes "read_item_from_database item e s digest reader i env c = (Finished (Inr r), c')"
  shows "\<exists>row. let h = calls c @ read_transaction_calls digest ''read'' (tenant_id reader)
         @ [Query ''read_current_item''
             [P_text (tenant_id reader), P_text (credential_id reader), P_text i, P_text item,
              P_opt_text e, P_opt_texts s]]
      in calls c' = h @ [Commit] \<and> on_optional env h = Inr (Some row) \<and> read_item_row row i = Inr r"
  using assms unfolding read_item_from_database_def
  by (clarsimp simp: effect_simps result_simps Let_def dest!: run_open_read split: option.splits)

lemma run_read_steps:
  assumes "read_steps lib i req digest env c = (Finished (Inr r), c')" and "calls c = []"
  shows "\<exists>reader item q row. path_item req = Some item \<and> valid_opaque_id item
    \<and> parse_read_query (uri_query req) = Inr q
    \<and> resolved_as env (butlast (authentication_calls ''resolve_current_reader'' digest ''read'')) reader
    \<and> (let h = read_preamble digest reader @ [read_statement reader i item q] in
         calls c' = h @ [Commit] \<and> on_optional env h = Inr (Some row) \<and> read_item_row row i = Inr r)"
proof -
  from assms(1) obtain reader c1 q item c2 where
    a: "authenticated (authenticate_reader digest ''read'') env c = (Finished (Inr reader), c1)" and
    q: "parse_read_query (uri_query req) = Inr q" "path_item req = Some item" "valid_opaque_id item"
    and b: "empty_body env c1 = (Finished (Inr ()), c2)"
    and d: "read_item_from_database item (expected_revision_id q)
        (selected_subjects q) digest reader i env c2
        = (Finished (Inr r), c')"
    unfolding read_steps_def
    by (clarsimp simp: effect_simps result_simps split: if_splits)
  note auth = run_authenticated [OF a [unfolded authenticate_reader_def]]
  have "calls c1 = authentication_calls ''resolve_current_reader'' digest ''read''"
    "resolved_as env (butlast (authentication_calls ''resolve_current_reader'' digest ''read'')) reader"
    using auth assms(2) by simp_all
  moreover from this have "calls c2 = authentication_calls ''resolve_current_reader'' digest ''read''
      @ [Read_Body 0]"
    using run_empty_body [OF b] by simp
  ultimately show ?thesis
    using run_read_from_database [OF d] q
    by (auto simp: read_preamble_def read_statement_def Let_def)
qed

text \<open>
  C13. A successful read is the row the database returned, for the caller the token identifies: the
  request carried a bearer token, a valid item identifier and a valid selection; the caller is the
  tenant and credential that \<open>resolve_current_reader\<close> returned for the digest of that token; and the
  program made exactly the calls of one authentication, one empty body and one committed
  transaction, whose only statement asks \<open>read_current_item\<close> for that item of that tenant.
\<close>

theorem read_item_exact:
  assumes "read_item lib request_id req env fresh = (Finished (Success st found), c')"
  shows "st = 200
    \<and> (\<exists>token reader item q row. bearer_token req = Some token
        \<and> path_item req = Some item \<and> valid_opaque_id item
        \<and> parse_read_query (uri_query req) = Inr q
        \<and> (let digest = sha256_of lib token;
               h = read_preamble digest reader @ [read_statement reader request_id item q]
           in resolved_as env
                (butlast (authentication_calls ''resolve_current_reader'' digest ''read'')) reader
              \<and> calls c' = h @ [Commit]
              \<and> on_optional env h = Inr (Some row) \<and> read_item_row row request_id = Inr found))"
proof -
  from assms obtain token where t: "bearer_token req = Some token"
    by (cases "bearer_token req") (simp_all add: read_item_def)
  with assms obtain r c1 where r: "read_steps lib request_id req (sha256_of lib token) env fresh
      = (Finished r, c1)"
    and k: "(case r of Inr item \<Rightarrow> give (Success 200 item)
      | Inl failure \<Rightarrow> finish_operation_error request_id failure (Some (sha256_of lib token)) None ReadOp)
      env c1 = (Finished (Success st found), c')"
    by (auto simp: read_item_def Let_def effect_simps)
  from k have "r = Inr found" "st = 200" "c1 = c'"
    by (auto simp: effect_simps split: sum.splits)
  then show ?thesis
    using run_read_steps [of lib request_id req _ env fresh found c'] r t
    unfolding Let_def by (auto simp: fresh_def)
qed

definition item_row :: pg_row where
  "item_row = row_of [(''item_id'', Text ''i1''), (''revision_id'', Text ''r1''),
     (''content'', Text ''hello''), (''recorded_at'', Text ''now''), (''valid_from'', Null),
     (''valid_until'', Null), (''validity_status'', Text ''current'')]"

definition read_script :: env where
  "read_script = scripted
     (\<lambda>f. if f = ''resolve_current_reader'' then Some caller_row
          else if f = ''read_current_item'' then Some item_row else None)
     (\<lambda>_. []) []"

lemma sample_read_run:
  "\<exists>c'. read_item sample_library ''id'' (sample_request None (Some ''i1'')) read_script fresh
     = (Finished (Success 200 \<lparr>ri_request_id = ''id'', ri_status = ''ready'', ri_item_id = ''i1'',
          ri_revision_id = ''r1'', ri_content = ''hello'', ri_recorded_at = ''now'',
          ri_valid_from = None, ri_valid_until = None, ri_validity_status = ''current''\<rparr>), c')"
proof -
  have "fst (read_item sample_library ''id'' (sample_request None (Some ''i1'')) read_script fresh)
     = Finished (Success 200 \<lparr>ri_request_id = ''id'', ri_status = ''ready'', ri_item_id = ''i1'',
          ri_revision_id = ''r1'', ri_content = ''hello'', ri_recorded_at = ''now'',
          ri_valid_from = None, ri_valid_until = None, ri_validity_status = ''current''\<rparr>)"
    by code_simp
  then show ?thesis by (metis prod.collapse)
qed


theorem read_item_exact_witness:
  "\<exists>c' :: ctx. \<exists>reader item q row.
     valid_opaque_id item \<and> parse_read_query None = Inr q
     \<and> calls c' = read_preamble (replicate 32 CHR 0x00) reader
                    @ [read_statement reader ''id'' item q, Commit]
     \<and> read_item_row row ''id'' = Inr
         \<lparr>ri_request_id = ''id'', ri_status = ''ready'', ri_item_id = ''i1'',
          ri_revision_id = ''r1'', ri_content = ''hello'', ri_recorded_at = ''now'',
          ri_valid_from = None, ri_valid_until = None, ri_validity_status = ''current''\<rparr>"
proof -
  obtain c' where r: "read_item sample_library ''id'' (sample_request None (Some ''i1'')) read_script fresh
     = (Finished (Success 200 \<lparr>ri_request_id = ''id'', ri_status = ''ready'', ri_item_id = ''i1'',
          ri_revision_id = ''r1'', ri_content = ''hello'', ri_recorded_at = ''now'',
          ri_valid_from = None, ri_valid_until = None, ri_validity_status = ''current''\<rparr>), c')"
    using sample_read_run by blast
  have q: "uri_query (sample_request None (Some ''i1'')) = None"
    by (simp add: sample_request_def)
  have d: "sha256_of sample_library t = replicate 32 CHR 0x00" for t
    by (simp add: sample_library_def)
  show ?thesis
    using read_item_exact [OF r] unfolding q d Let_def append_assoc append_Cons append_Nil
    by (elim conjE exE) (intro exI conjI, assumption+)
qed

section \<open>Listing\<close>

definition list_statement :: "caller \<Rightarrow> str \<Rightarrow> list_kind \<Rightarrow> int \<Rightarrow> str option \<Rightarrow> call" where
  "list_statement reader request_id kind limit cursor =
     Query ''list_current_resources''
       [P_text (tenant_id reader), P_text (credential_id reader), P_text request_id,
        P_text (list_kind_str kind), P_int limit, P_opt_text cursor]"

definition list_preamble :: "bytes \<Rightarrow> caller \<Rightarrow> call list" where
  "list_preamble digest reader =
     authentication_calls ''resolve_current_reader'' digest ''list'' @ [Read_Body 0]
     @ read_transaction_calls digest ''list'' (tenant_id reader)"

definition list_query_of :: "http_request \<Rightarrow> request_failure + str option" where
  "list_query_of req =
     (case uri_query req of
        Some q \<Rightarrow> if length q \<le> 600 then Inr (Some q) else Inl Malformed
      | None \<Rightarrow> Inr None)"

lemma list_query_of_Inr: "list_query_of req = Inr q \<Longrightarrow> q = uri_query req"
  by (auto simp: list_query_of_def split: option.splits if_splits)

lemma run_prepare_list:
  assumes "prepare_list lib req env c = (Finished (Inr p), c')" and "calls c = []"
  shows "\<exists>token. bearer_token req = Some token \<and> pl_digest p = sha256_of lib token
    \<and> parse_list_query (uri_query req) = Some (pl_limit p, pl_cursor p)
    \<and> resolved_as env (butlast (authentication_calls ''resolve_current_reader'' (pl_digest p) ''list''))
        (pl_reader p)
    \<and> calls c' = authentication_calls ''resolve_current_reader'' (pl_digest p) ''list'' @ [Read_Body 0]"
proof -
  from assms(1) obtain token where t: "bearer_token req = Some token"
    by (cases "bearer_token req") (simp_all add: prepare_list_def effect_simps)
  with assms(1) obtain c1 q c2 where
    a: "authenticated (authenticate_reader (sha256_of lib token) ''list'') env c
        = (Finished (Inr (pl_reader p)), c1)" and
    q: "list_query_of req = Inr q" and b: "empty_body env c1 = (Finished (Inr ()), c2)" and
    l: "parse_list_query q = Some (pl_limit p, pl_cursor p)" "pl_digest p = sha256_of lib token"
      "c' = c2"
    unfolding prepare_list_def list_query_of_def [symmetric] Let_def
    by (auto simp: effect_simps result_simps)
  show ?thesis
    using t l run_authenticated [OF a [unfolded authenticate_reader_def]] run_empty_body [OF b]
      list_query_of_Inr [OF q] assms(2) by auto
qed

lemma run_list_from_database:
  assumes "list_resources_from_database p i kind env c = (Finished (Inr found), c')"
  shows "\<exists>rows. let h = calls c
         @ read_transaction_calls (pl_digest p) ''list'' (tenant_id (pl_reader p))
         @ [list_statement (pl_reader p) i kind (pl_limit p) (pl_cursor p)]
      in calls c' = h @ [Commit] \<and> on_rows env h = Inr rows
         \<and> list_all2 (\<lambda>row entry. read_list_entry row kind = Inr entry) rows (lr_items found)
         \<and> (case rows of [] \<Rightarrow> lr_next_cursor found = None
             | row # _ \<Rightarrow> get_opt_text row ''next_cursor'' = Inr (lr_next_cursor found))
         \<and> lr_truncated found = (lr_next_cursor found \<noteq> None)
         \<and> lr_request_id found = i"
proof -
  from assms obtain c1 rows first entries where
    o: "open_read_transaction (pl_digest p) ''list'' (tenant_id (pl_reader p)) env c
        = (Finished (Inr ()), c1)" and
    r: "on_rows env (calls c1 @ [list_statement (pl_reader p) i kind (pl_limit p) (pl_cursor p)])
        = Inr rows" and
    f: "first_column get_opt_text rows ''next_cursor'' = Inr first" and
    e: "collect_results (\<lambda>row. read_list_entry row kind) rows = Inr entries" and
    x: "calls c' = calls c1 @ [list_statement (pl_reader p) i kind (pl_limit p) (pl_cursor p)] @ [Commit]"
      "lr_items found = entries" "lr_next_cursor found = (case first of None \<Rightarrow> None | Some u \<Rightarrow> u)"
      "lr_truncated found = (lr_next_cursor found \<noteq> None)" "lr_request_id found = i"
    unfolding list_resources_from_database_def
    by (clarsimp simp: effect_simps result_simps Let_def list_statement_def)
  have "case rows of [] \<Rightarrow> lr_next_cursor found = None
      | row # _ \<Rightarrow> get_opt_text row ''next_cursor'' = Inr (lr_next_cursor found)"
    using f x(3) by (auto simp: first_column_def result_simps split: list.splits)
  then show ?thesis
    using run_open_read [OF o] r e x by (auto simp: Let_def collect_results_Inr)
qed

text \<open>
  C34. A successful list is the page the database returned, for the caller the token identifies and
  the limit and cursor the query asks for: one entry per row, in order, each the faithful reading
  of its row for the kind that was asked; the page is marked truncated exactly when the database
  gave a cursor for the next one, and that cursor is passed on unchanged. The program made exactly
  the calls of one authentication, one empty body and one committed transaction.
\<close>

theorem list_resources_exact:
  assumes "list_resources lib request_id req kind env fresh = (Finished (Success st found), c')"
  shows "st = 200
    \<and> (\<exists>token reader limit cursor rows. bearer_token req = Some token
        \<and> parse_list_query (uri_query req) = Some (limit, cursor)
        \<and> (let digest = sha256_of lib token;
               h = list_preamble digest reader @ [list_statement reader request_id kind limit cursor]
           in resolved_as env
                (butlast (authentication_calls ''resolve_current_reader'' digest ''list'')) reader
              \<and> calls c' = h @ [Commit] \<and> on_rows env h = Inr rows
              \<and> list_all2 (\<lambda>row entry. read_list_entry row kind = Inr entry) rows (lr_items found)
              \<and> (case rows of [] \<Rightarrow> lr_next_cursor found = None
                  | row # _ \<Rightarrow> get_opt_text row ''next_cursor'' = Inr (lr_next_cursor found))
              \<and> lr_truncated found = (lr_next_cursor found \<noteq> None)
              \<and> lr_request_id found = request_id))"
proof -
  obtain p c1 where r: "prepare_list lib req env fresh = (Finished (Inr p), c1)"
    and d: "list_resources_from_database p request_id kind env c1 = (Finished (Inr found), c')"
    and "st = 200"
    using assms unfolding list_resources_handle by (rule run_handle_success)
  have prep: "\<exists>token. bearer_token req = Some token \<and> pl_digest p = sha256_of lib token
    \<and> parse_list_query (uri_query req) = Some (pl_limit p, pl_cursor p)
    \<and> resolved_as env (butlast (authentication_calls ''resolve_current_reader'' (pl_digest p) ''list''))
        (pl_reader p)
    \<and> calls c1 = authentication_calls ''resolve_current_reader'' (pl_digest p) ''list'' @ [Read_Body 0]"
    using run_prepare_list [OF r] by (simp add: fresh_def)
  then obtain token where t: "bearer_token req = Some token" "pl_digest p = sha256_of lib token"
    "parse_list_query (uri_query req) = Some (pl_limit p, pl_cursor p)"
    "resolved_as env (butlast (authentication_calls ''resolve_current_reader'' (pl_digest p) ''list''))
        (pl_reader p)"
    and c1: "calls c1 = authentication_calls ''resolve_current_reader'' (pl_digest p) ''list''
        @ [Read_Body 0]"
    by blast
  from run_list_from_database [OF d] obtain rows where
    "let h = calls c1 @ read_transaction_calls (pl_digest p) ''list'' (tenant_id (pl_reader p))
         @ [list_statement (pl_reader p) request_id kind (pl_limit p) (pl_cursor p)]
      in calls c' = h @ [Commit] \<and> on_rows env h = Inr rows
         \<and> list_all2 (\<lambda>row entry. read_list_entry row kind = Inr entry) rows (lr_items found)
         \<and> (case rows of [] \<Rightarrow> lr_next_cursor found = None
             | row # _ \<Rightarrow> get_opt_text row ''next_cursor'' = Inr (lr_next_cursor found))
         \<and> lr_truncated found = (lr_next_cursor found \<noteq> None) \<and> lr_request_id found = request_id"
    ..
  with t c1 \<open>st = 200\<close> show ?thesis
    by (intro conjI exI [of _ token] exI [of _ "pl_reader p"] exI [of _ "pl_limit p"]
        exI [of _ "pl_cursor p"] exI [of _ rows])
      (simp_all add: Let_def list_preamble_def)
qed

definition collection_row :: pg_row where
  "collection_row = row_of [(''resource_id'', Text ''col1''), (''audience_kind'', Text ''private''),
     (''next_cursor'', Text ''c2'')]"

definition list_script :: env where
  "list_script = scripted
     (\<lambda>f. if f = ''resolve_current_reader'' then Some caller_row else None)
     (\<lambda>_. [collection_row]) []"

lemma sample_list_run:
  "\<exists>c'. list_resources sample_library ''id'' (sample_request None None) Collections list_script fresh
     = (Finished (Success 200 \<lparr>lr_request_id = ''id'', lr_status = ''ready'',
          lr_items = [Collection \<lparr>cl_collection_id = ''col1'', cl_audience_kind = ''private''\<rparr>],
          lr_truncated = True, lr_next_cursor = Some ''c2''\<rparr>), c')"
proof -
  have "fst (list_resources sample_library ''id'' (sample_request None None) Collections list_script fresh)
     = Finished (Success 200 \<lparr>lr_request_id = ''id'', lr_status = ''ready'',
          lr_items = [Collection \<lparr>cl_collection_id = ''col1'', cl_audience_kind = ''private''\<rparr>],
          lr_truncated = True, lr_next_cursor = Some ''c2''\<rparr>)"
    by code_simp
  then show ?thesis by (metis prod.collapse)
qed

theorem list_resources_exact_witness:
  "\<exists>c' :: ctx. \<exists>reader limit cursor. parse_list_query None = Some (limit, cursor)
     \<and> calls c' = list_preamble (replicate 32 CHR 0x00) reader
                    @ [list_statement reader ''id'' Collections limit cursor, Commit]"
proof -
  obtain c' where r: "list_resources sample_library ''id'' (sample_request None None) Collections
       list_script fresh
     = (Finished (Success 200 \<lparr>lr_request_id = ''id'', lr_status = ''ready'',
          lr_items = [Collection \<lparr>cl_collection_id = ''col1'', cl_audience_kind = ''private''\<rparr>],
          lr_truncated = True, lr_next_cursor = Some ''c2''\<rparr>), c')"
    using sample_list_run by blast
  have q: "uri_query (sample_request None None) = None"
    by (simp add: sample_request_def)
  have d: "sha256_of sample_library t = replicate 32 CHR 0x00" for t
    by (simp add: sample_library_def)
  show ?thesis
    using list_resources_exact [OF r] unfolding q d Let_def append_assoc append_Cons append_Nil
    by (elim conjE exE) (intro exI conjI, assumption+)
qed

section \<open>Discipline and completion\<close>

lemma disciplined_list_database:
  assumes "resolved s = Some (pl_reader p)" and "\<And>r t. Q r t"
  shows "disciplined env (Some (pl_digest p)) s (list_resources_from_database p i kind) Q"
  unfolding list_resources_from_database_def fetch_all_def Let_def
  by (intro step_open_read transaction_steps sessions.give opened_legal)
    (use assms in \<open>auto intro: opened_legal dest: opened_settings\<close>)

lemma prepares_list:
  "prepares env (map_option (sha256_of lib) (bearer_token req)) pl_digest
     (\<lambda>p who. who = Some (pl_reader p)) (prepare_list lib req)"
  unfolding prepare_list_def authenticate_reader_def Let_def
  by (rule prepares_by_token,
      intro sessions.try_then disciplined_authenticated conjI allI impI sessions.give
        disciplined_empty_body)
    (auto simp: resolvers_def intro!: sessions.give split: prod.split)

interpretation list_route: prepared_route "sha256_of lib" "prepare_list lib"
  "\<lambda>i p. list_resources_from_database p i kind" pl_digest "\<lambda>_. None"
  "\<lambda>p who. who = Some (pl_reader p)" ListOp "\<lambda>_. 200"
  for lib kind
proof
  fix req i p env and s :: session
  show "bearer_token req = None \<Longrightarrow> prepare_list lib req = give (Inl (unattributed Unauthenticated))"
    by (simp add: prepare_list_def)
  show "finishes (prepare_list lib req)" "grows (prepare_list lib req)"
    unfolding prepare_list_def authenticate_reader_def Let_def
    by (auto split: option.split prod.split intro!: finishes_try grows_try)
  show "finishes (list_resources_from_database p i kind)"
    "grows (list_resources_from_database p i kind)"
    unfolding list_resources_from_database_def Let_def
    by (auto split: option.split intro!: finishes_try grows_try)
  show "prepares env (map_option (sha256_of lib) (bearer_token req)) pl_digest
      (\<lambda>p who. who = Some (pl_reader p)) (prepare_list lib req)"
    by (rule prepares_list)
  show "disciplined env (Some (pl_digest p)) s (list_resources_from_database p i kind) (\<lambda>_ _. True)"
    if "resolved s = Some (pl_reader p)"
    using that by (intro disciplined_list_database) auto
  show "quiet_log (prepare_list lib req)"
    unfolding prepare_list_def authenticate_reader_def Let_def
    by (auto split: option.split prod.split intro!: quiet quiet_authenticate quiet_empty_body)
  show "quiet_log (list_resources_from_database p i kind)"
    unfolding list_resources_from_database_def Let_def
    by (intro quiet quiet_open_read) simp_all
qed simp

text \<open>
  A read has no prepared request of its own: its steps are one preparation, whose result, the item
  with the digest of the token, is already the answer.
\<close>

definition read_prepared ::
    "library \<Rightarrow> str \<Rightarrow> http_request \<Rightarrow> (request_rejection + bytes \<times> read_item) prog" where
  "read_prepared lib request_id req =
     (case bearer_token req of
        None \<Rightarrow> give (Inl (unattributed Unauthenticated))
      | Some token \<Rightarrow>
          let digest = sha256_of lib token in
          or_err (\<lambda>e. attributed e digest)
            (try_then (read_steps lib request_id req digest) (\<lambda>item. give (Inr (digest, item)))))"

lemma read_item_handle:
  "read_item lib request_id req =
     handle (read_prepared lib request_id req) (\<lambda>p. give (Inr (snd p))) fst (\<lambda>_. None) ReadOp
       (\<lambda>_. 200) request_id"
proof (cases "bearer_token req")
  case None
  then show ?thesis
    by (simp add: read_item_def handle_def read_prepared_def andthen_def give_def unattributed_def fun_eq_iff)
next
  case (Some token)
  then show ?thesis
    by (auto simp: read_item_def handle_def read_prepared_def Let_def fun_eq_iff or_err_def
        try_then_def andthen_def give_def attributed_def split: outcome.split sum.split prod.split)
qed

lemma quiet_read_steps: "quiet_log (read_steps lib i req digest)"
  unfolding read_steps_def read_item_from_database_def authenticate_reader_def
  by (intro quiet quiet_authenticate quiet_empty_body quiet_open_read) simp_all

lemma grows_read_steps: "grows (read_steps lib i req digest)"
  unfolding read_steps_def read_item_from_database_def authenticate_reader_def
  by (intro grows_try) auto

lemma finishes_read_steps: "finishes (read_steps lib i req digest)"
  unfolding read_steps_def read_item_from_database_def authenticate_reader_def
  by (intro finishes_try) auto

lemma disciplined_read_database:
  assumes "resolved s = Some reader" and "\<And>r t. Q r t"
  shows "disciplined env (Some digest) s
    (read_item_from_database item e subjects digest reader i) Q"
  unfolding read_item_from_database_def fetch_optional_def
  by (intro step_open_read transaction_steps sessions.give opened_legal)
    (use assms in \<open>auto intro: opened_legal dest: opened_settings\<close>)

lemma disciplined_read_steps:
  assumes "resolved s = None" and "\<And>r t. Q r t"
  shows "disciplined env (Some digest) s (read_steps lib i req digest) Q"
  unfolding read_steps_def authenticate_reader_def
  by (intro sessions.try_then disciplined_authenticated conjI allI impI sessions.give
      disciplined_empty_body disciplined_read_database)
    (auto simp: resolvers_def assms)

text \<open>Nothing is asked after the steps of a read, so any caller is as good as the resolved one.\<close>

lemma prepares_read:
  "prepares env (map_option (sha256_of lib) (bearer_token req)) fst (\<lambda>_ _. True)
     (read_prepared lib i req)"
  unfolding read_prepared_def Let_def
  by (rule prepares_by_token) (auto intro!: sessions.try_then disciplined_read_steps sessions.give)

interpretation read_route: prepared_route "sha256_of lib" "read_prepared lib i"
  "\<lambda>_ p. give (Inr (snd p))" fst "\<lambda>_. None" "\<lambda>_ _. True" ReadOp "\<lambda>_. 200"
  for lib i
proof
  fix req env and s :: session and p :: "bytes \<times> read_item"
  show "bearer_token req = None \<Longrightarrow> read_prepared lib i req = give (Inl (unattributed Unauthenticated))"
    by (simp add: read_prepared_def)
  show "finishes (read_prepared lib i req)" "grows (read_prepared lib i req)"
    "quiet_log (read_prepared lib i req)"
    unfolding read_prepared_def Let_def
    by (auto split: option.split
        intro!: finishes_try finishes_read_steps grows_try grows_read_steps quiet quiet_read_steps)
  show "prepares env (map_option (sha256_of lib) (bearer_token req)) fst (\<lambda>_ _. True)
      (read_prepared lib i req)"
    by (rule prepares_read)
  show "disciplined env (Some (fst p)) s (give (Inr (snd p))) (\<lambda>_ _. True)"
    by (auto intro: sessions.give)
qed (auto intro: issues_none)

end
