(* ===== verification/Semantic.thy ===== *)
theory Semantic
  imports Request_Inputs
begin

text \<open>
  The semantic part of a search (\<open>SemanticPlan\<close>, \<open>sanitized_semantic_diagnostic\<close>,
  \<open>query_embedding_fixture\<close>, \<open>external_semantic_plan\<close> of \<open>src/src/lib.rs\<close>, and the decisions
  that \<open>semantic_plan\<close> and \<open>search_memories_in_database\<close> take on a readiness row). The delay of
  the \<open>deterministic-fixture-delayed-test\<close> model has no effect on the plan and is left out.
\<close>

datatype semantic_plan =
    NotRequested
  | Pending str
  | Failed str
  | Ready (ready_generation: str) (ready_vector: str)

fun plan_status :: "semantic_plan \<Rightarrow> str" where
  "plan_status NotRequested = ''not_requested''"
| "plan_status (Pending _) = ''pending''"
| "plan_status (Failed _) = ''failed''"
| "plan_status (Ready _ _) = ''ready''"

definition plan_diagnostics :: "semantic_plan \<Rightarrow> bool \<Rightarrow> str list" where
  "plan_diagnostics plan no_match =
     (case plan of
        NotRequested \<Rightarrow> []
      | Pending value \<Rightarrow> [''lexical_ready'', value]
      | Failed value \<Rightarrow> [''lexical_ready'', value]
      | Ready _ _ \<Rightarrow> [''lexical_ready'', ''semantic_ready''])
     @ (if no_match \<and> (case plan of Ready _ _ \<Rightarrow> True | _ \<Rightarrow> False) then [''no_match''] else [])"

definition sanitized_semantic_diagnostic :: "str \<Rightarrow> str" where
  "sanitized_semantic_diagnostic value =
     (if value = ''semantic_configuration_missing'' then ''semantic_configuration_missing''
      else if value = ''extraction_not_ready'' then ''extraction_not_ready''
      else if value = ''semantic_processing_pending'' then ''semantic_processing_pending''
      else if value = ''semantic_processing_failed'' then ''semantic_processing_failed''
      else if value = ''semantic_external_input_invalid'' then ''semantic_external_input_invalid''
      else ''semantic_unavailable'')"

definition query_embedding_fixture ::
    "library \<Rightarrow> str \<Rightarrow> str \<Rightarrow> str \<Rightarrow> int \<Rightarrow> str \<Rightarrow> semantic_plan" where
  "query_embedding_fixture lib generation model recipe dimensions question =
     (if dimensions \<noteq> 3 \<or> recipe \<noteq> ''deterministic-input-v1''
      then Pending ''semantic_configuration_missing''
      else if model = ''deterministic-fixture-provider-failed'' then Failed ''query_embedding_failed''
      else if model = ''deterministic-fixture-provider-timeout'' then Failed ''query_embedding_timeout''
      else if model = ''deterministic-fixture-invalid-response'' then Failed ''query_embedding_invalid''
      else if model = ''deterministic-fixture-delayed-test''
      then Ready generation (deterministic_query_vector (sha256_of lib) question)
      else if model = ''deterministic-fixture-v1''
      then Ready generation (deterministic_query_vector (sha256_of lib) question)
      else Pending ''semantic_configuration_missing'')"

section \<open>The external query vector\<close>

definition MAX_EXTERNAL_VECTOR_DIMENSIONS :: nat where
  "MAX_EXTERNAL_VECTOR_DIMENSIONS = 4096"

definition hex_digest :: "bytes \<Rightarrow> str" where
  "hex_digest digest = foldl (\<lambda>value c. value @ hex_padded 2 (byte c)) [] digest"

definition lower_hex :: "char \<Rightarrow> bool" where
  "lower_hex c = (is_ascii_digit c \<or> (97 \<le> byte c \<and> byte c \<le> 102))"

definition external_vector_valid ::
    "library \<Rightarrow> str \<Rightarrow> str \<Rightarrow> str \<Rightarrow> int \<Rightarrow> str \<Rightarrow> str \<Rightarrow> str \<Rightarrow> str \<Rightarrow> nat \<Rightarrow> str \<Rightarrow> f32 list \<Rightarrow> bool" where
  "external_vector_valid lib generation model recipe dimensions question
      external_generation external_model external_recipe external_dimensions external_digest
      external_vector =
     (let expected_digest = hex_digest (sha256_of lib question);
          norm = squared_norm external_vector
      in valid_opaque_id external_generation
         \<and> (1 \<le> length external_model \<and> length external_model \<le> 128)
         \<and> \<not> contains_nul external_model
         \<and> valid_opaque_id external_recipe
         \<and> length external_digest = 64
         \<and> list_all lower_hex external_digest
         \<and> external_generation = generation
         \<and> external_model = model
         \<and> external_recipe = recipe
         \<and> (0 \<le> dimensions \<and> nat dimensions = external_dimensions)
         \<and> external_dimensions = length external_vector
         \<and> (1 \<le> external_dimensions \<and> external_dimensions \<le> MAX_EXTERNAL_VECTOR_DIMENSIONS)
         \<and> external_digest = expected_digest
         \<and> list_all f32_is_finite external_vector
         \<and> f64_is_finite norm
         \<and> f64_positive norm)"

definition external_semantic_plan ::
    "library \<Rightarrow> str \<Rightarrow> str \<Rightarrow> str \<Rightarrow> int \<Rightarrow> str \<Rightarrow> semantic_query_input \<Rightarrow> semantic_plan" where
  "external_semantic_plan lib generation model recipe dimensions question external =
     (case (sq_generation_id external, sq_model_version external, sq_input_recipe_version external,
            sq_dimensions external, sq_original_query_sha256 external, sq_vector external) of
        (Some g, Some m, Some r, Some d, Some h, Some v) \<Rightarrow>
          if \<not> external_vector_valid lib generation model recipe dimensions question g m r d h v
          then Pending ''semantic_external_input_invalid''
          else Ready generation (vector_text lib v)
      | _ \<Rightarrow> Pending ''semantic_external_input_invalid'')"

section \<open>Decisions on a readiness row\<close>

text \<open>
  What \<open>semantic_plan\<close> makes of the readiness it has read; \<open>None\<close> stands for a database error or
  the timeout of 150 ms.
\<close>

type_synonym readiness = "str option \<times> str option \<times> str option \<times> int option \<times> str \<times> str"

definition planned ::
    "library \<Rightarrow> str \<Rightarrow> semantic_query_input option \<Rightarrow> readiness option \<Rightarrow> semantic_plan" where
  "planned lib question external result =
     (case result of
        None \<Rightarrow> Pending ''semantic_database_unavailable''
      | Some (g, m, r, d, status, diagnostic) \<Rightarrow>
          (case (g, m, r, d) of
             (Some generation, Some model, Some recipe, Some dimensions) \<Rightarrow>
               if status = ''ready'' then
                 (case external of
                    Some external \<Rightarrow>
                      external_semantic_plan lib generation model recipe dimensions question external
                  | None \<Rightarrow> query_embedding_fixture lib generation model recipe dimensions question)
               else if status = ''failed'' then Failed (sanitized_semantic_diagnostic diagnostic)
               else Pending (sanitized_semantic_diagnostic diagnostic)
           | _ \<Rightarrow>
               if status = ''failed'' then Failed (sanitized_semantic_diagnostic diagnostic)
               else Pending (sanitized_semantic_diagnostic diagnostic)))"

text \<open>
  The recheck inside the search transaction: the plan stays ready only while its generation is
  still the current one.
\<close>

definition recheck :: "semantic_plan \<Rightarrow> str \<Rightarrow> str option \<Rightarrow> str \<Rightarrow> str \<Rightarrow> semantic_plan" where
  "recheck plan generation current_generation status diagnostic =
     (if status = ''ready'' \<and> current_generation = Some generation then plan
      else if status = ''failed'' then Failed (sanitized_semantic_diagnostic diagnostic)
      else Pending (sanitized_semantic_diagnostic diagnostic))"

section \<open>Properties\<close>

definition public_diagnostics :: "str set" where
  "public_diagnostics =
     {''lexical_ready'', ''semantic_ready'', ''no_match'', ''semantic_configuration_missing'',
      ''extraction_not_ready'', ''semantic_processing_pending'', ''semantic_processing_failed'',
      ''semantic_external_input_invalid'', ''semantic_unavailable'',
      ''semantic_database_unavailable'', ''query_embedding_failed'', ''query_embedding_timeout'',
      ''query_embedding_invalid'', ''lexical_disjunction_fallback''}"

definition public_plan :: "semantic_plan \<Rightarrow> bool" where
  "public_plan plan = (set (plan_diagnostics plan False) \<subseteq> public_diagnostics)"

lemma sanitized_public: "sanitized_semantic_diagnostic v \<in> public_diagnostics"
  by (simp add: sanitized_semantic_diagnostic_def public_diagnostics_def)

lemma public_plan_simps [simp]:
  "public_plan NotRequested" "public_plan (Ready g v)"
  "public_plan (Pending d) = (d \<in> public_diagnostics)"
  "public_plan (Failed d) = (d \<in> public_diagnostics)"
  by (auto simp: public_plan_def plan_diagnostics_def public_diagnostics_def)

lemma external_public: "public_plan (external_semantic_plan lib g m r d q e)"
  by (auto simp: external_semantic_plan_def public_diagnostics_def split: option.split)

lemma fixture_public: "public_plan (query_embedding_fixture lib g m r d q)"
  by (simp add: query_embedding_fixture_def public_diagnostics_def)

lemma unavailable_public: "''semantic_database_unavailable'' \<in> public_diagnostics"
  by (simp add: public_diagnostics_def)

lemma planned_public: "public_plan (planned lib q e result)"
  by (auto simp: planned_def sanitized_public external_public fixture_public unavailable_public
      split: option.split)

lemma recheck_public: "public_plan plan \<Longrightarrow> public_plan (recheck plan g c s d)"
  by (simp add: recheck_def sanitized_public)

lemma public_plan_diagnostics:
  "public_plan plan \<Longrightarrow> set (plan_diagnostics plan no_match) \<subseteq> public_diagnostics"
  by (cases plan) (auto simp: plan_diagnostics_def public_diagnostics_def)

text \<open>The hexadecimal digest of 32 bytes passes the shape checks.\<close>

lemma hex_digest_Cons: "hex_digest ds = concat (map (\<lambda>c. hex_padded 2 (byte c)) ds)"
proof -
  have "foldl (\<lambda>value c. value @ hex_padded 2 (byte c)) acc ds
      = acc @ concat (map (\<lambda>c. hex_padded 2 (byte c)) ds)" for acc
    by (induction ds arbitrary: acc) simp_all
  then show ?thesis by (simp add: hex_digest_def)
qed

lemma lower_hex_digit: "d < 16 \<Longrightarrow> lower_hex (digit_char d)"
  by (auto simp: lower_hex_def digit_char_def is_ascii_digit_def)

lemma lower_hex_digits: "list_all lower_hex (radix_digits 16 n)"
proof (induction "16::nat" n rule: radix_digits.induct)
  case (1 n)
  then show ?case by (subst radix_digits.simps) (auto simp: lower_hex_digit)
qed

lemma hex_padded_lower: "list_all lower_hex (hex_padded w n)"
  using lower_hex_digits [of n]
  by (auto simp: hex_padded_def zero_pad_def list_all_iff lower_hex_def is_ascii_digit_def)

lemma length_hex_byte [simp]: "length (hex_padded 2 (byte c)) = 2"
proof (rule length_hex_padded)
  have "byte c < 256" by simp
  then show "byte c < 16 ^ 2" by simp
qed simp

lemma hex_digest_shape:
  assumes "length ds = 32"
  shows "length (hex_digest ds) = 64 \<and> list_all lower_hex (hex_digest ds)"
proof -
  have "length (concat (map (\<lambda>c. hex_padded 2 (byte c)) ds)) = 2 * length ds"
    by (induction ds) simp_all
  moreover have "list_all lower_hex (concat (map (\<lambda>c. hex_padded 2 (byte c)) ds))"
    by (induction ds) (simp_all add: hex_padded_lower)
  ultimately show ?thesis using assms by (simp add: hex_digest_Cons)
qed

text \<open>What an external query vector must say, free of redundant checks.\<close>

definition external_matches ::
    "library \<Rightarrow> str \<Rightarrow> str \<Rightarrow> str \<Rightarrow> int \<Rightarrow> str \<Rightarrow> semantic_query_input \<Rightarrow> f32 list \<Rightarrow> bool" where
  "external_matches lib generation model recipe dimensions question external vector =
     (sq_generation_id external = Some generation \<and> valid_opaque_id generation
      \<and> sq_model_version external = Some model
      \<and> 1 \<le> length model \<and> length model \<le> 128 \<and> CHR 0x00 \<notin> set model
      \<and> sq_input_recipe_version external = Some recipe \<and> valid_opaque_id recipe
      \<and> sq_original_query_sha256 external = Some (hex_digest (sha256_of lib question))
      \<and> sq_vector external = Some vector
      \<and> sq_dimensions external = Some (length vector) \<and> dimensions = int (length vector)
      \<and> vector \<noteq> [] \<and> length vector \<le> 4096
      \<and> list_all f32_is_finite vector \<and> \<not> list_all f32_is_zero vector)"

lemma external_vector_valid_iff:
  assumes "length (sha256_of lib question) = 32"
  shows "external_vector_valid lib generation model recipe dimensions question g m r d h v \<longleftrightarrow>
    external_matches lib generation model recipe dimensions question
      \<lparr>sq_generation_id = Some g, sq_model_version = Some m, sq_input_recipe_version = Some r,
       sq_dimensions = Some d, sq_original_query_sha256 = Some h, sq_vector = Some v\<rparr> v"
proof (cases "length v \<le> 4096")
  case True
  then have "length v \<le> 2 ^ 53" by simp
  note n = norm_checks_iff [OF this]
  show ?thesis
    using n True hex_digest_shape [OF assms]
    unfolding external_vector_valid_def external_matches_def Let_def
    by (auto simp: MAX_EXTERNAL_VECTOR_DIMENSIONS_def contains_nul_def Suc_le_eq)
next
  case False
  then show ?thesis
    by (auto simp: external_vector_valid_def external_matches_def Let_def
        MAX_EXTERNAL_VECTOR_DIMENSIONS_def)
qed

text \<open>
  C23. A caller's vector is used exactly when it is the vector of this very query for this very
  generation: the plan is ready if and only if the caller names the current generation, model,
  recipe and dimension count, the SHA-256 of the query, and a vector of that many components, all
  finite and not all zero; the plan then carries the current generation and the vector. Every other
  input leaves the search lexical with a fixed diagnostic. The norm is computed in \<open>f64\<close> without
  overflow, and rounding never turns a non-zero vector into a zero norm.
\<close>

theorem external_semantic_plan_exact:
  assumes "length (sha256_of lib question) = 32"
  shows "(external_semantic_plan lib generation model recipe dimensions question external
            = Ready g v
          \<longleftrightarrow> g = generation
            \<and> (\<exists>vector. external_matches lib generation model recipe dimensions question external vector
                 \<and> v = vector_text lib vector))
    \<and> ((\<nexists>vector. external_matches lib generation model recipe dimensions question external vector)
       \<longrightarrow> external_semantic_plan lib generation model recipe dimensions question external
             = Pending ''semantic_external_input_invalid'')"
proof -
  let ?e = "external_semantic_plan lib generation model recipe dimensions question external"
  let ?ok = "external_matches lib generation model recipe dimensions question external"
  have e: "?e = (if \<exists>vector. ?ok vector
      then Ready generation (vector_text lib (the (sq_vector external)))
      else Pending ''semantic_external_input_invalid'')"
  proof (cases "\<exists>g m r d h v. external =
      \<lparr>sq_generation_id = Some g, sq_model_version = Some m, sq_input_recipe_version = Some r,
       sq_dimensions = Some d, sq_original_query_sha256 = Some h, sq_vector = Some v\<rparr>")
    case True
    then obtain g m r d h v where x: "external =
      \<lparr>sq_generation_id = Some g, sq_model_version = Some m, sq_input_recipe_version = Some r,
       sq_dimensions = Some d, sq_original_query_sha256 = Some h, sq_vector = Some v\<rparr>"
      by blast
    have "(\<exists>vector. ?ok vector) = ?ok v"
      by (auto simp: x external_matches_def)
    then show ?thesis
      by (simp add: x external_semantic_plan_def external_vector_valid_iff [OF assms])
  next
    case False
    then have n: "sq_generation_id external = None \<or> sq_model_version external = None
        \<or> sq_input_recipe_version external = None \<or> sq_dimensions external = None
        \<or> sq_original_query_sha256 external = None \<or> sq_vector external = None"
      by (cases external) auto
    then have "\<not> ?ok vector" for vector
      by (auto simp: external_matches_def)
    moreover have "?e = Pending ''semantic_external_input_invalid''"
      using n by (auto simp: external_semantic_plan_def split: option.split)
    ultimately show ?thesis by simp
  qed
  have "v' = the (sq_vector external)" if "?ok v'" for v'
    using that by (simp add: external_matches_def)
  with e show ?thesis by auto
qed

definition sample_external :: "str \<Rightarrow> f32 list \<Rightarrow> semantic_query_input" where
  "sample_external digest vector =
     \<lparr>sq_generation_id = Some ''g'', sq_model_version = Some ''m'',
      sq_input_recipe_version = Some ''r'', sq_dimensions = Some (length vector),
      sq_original_query_sha256 = Some digest, sq_vector = Some vector\<rparr>"

definition zero_sha_library :: library where
  "zero_sha_library =
     \<lparr>sha256_of = (\<lambda>s. replicate 32 CHR 0x00),
      decode_search = (\<lambda>_. Inl ''unused''), decode_create = (\<lambda>_. Inl ''unused''),
      decode_correct = (\<lambda>_. Inl ''unused''), decode_forget = (\<lambda>_. Inl ''unused''),
      encode_create = (\<lambda>_. Inl ''unused''), encode_correct = (\<lambda>_. Inl ''unused''),
      encode_forget = (\<lambda>_. Inl ''unused''),
      decode_value = (\<lambda>s. Inr s), vector_text = (\<lambda>_. ''[1.0]''),
      envelope_writes = (\<lambda>_. []), load_tokenizer = True, encode_tokens = (\<lambda>_. Some 1)\<rparr>"

theorem external_semantic_plan_exact_witness:
  "external_semantic_plan zero_sha_library ''g'' ''m'' ''r'' 1 ''q''
      (sample_external (hex_digest (replicate 32 CHR 0x00)) [0x3F800000]) = Ready ''g'' ''[1.0]''
   \<and> external_semantic_plan zero_sha_library ''g'' ''m'' ''r'' 1 ''q''
      (sample_external (hex_digest (replicate 32 CHR 0x00)) [0x80000000])
      = Pending ''semantic_external_input_invalid''"
proof -
  have sha: "length (sha256_of zero_sha_library ''q'') = 32"
    by (simp add: zero_sha_library_def)
  have ids: "valid_opaque_id ''g''" "valid_opaque_id ''r''"
    by code_simp+
  have one: "f32_is_finite 0x3F800000" "\<not> f32_is_zero 0x3F800000" and zero: "f32_is_zero 0x80000000"
    by (simp_all add: f32_is_finite_def f32_is_zero_def f32_exponent_def f32_mantissa_def)
  have m: "external_matches zero_sha_library ''g'' ''m'' ''r'' 1 ''q''
      (sample_external (hex_digest (replicate 32 CHR 0x00)) [0x3F800000]) [0x3F800000]"
    using ids one by (simp add: external_matches_def sample_external_def zero_sha_library_def)
  have n: "\<nexists>v. external_matches zero_sha_library ''g'' ''m'' ''r'' 1 ''q''
      (sample_external (hex_digest (replicate 32 CHR 0x00)) [0x80000000]) v"
    using zero by (auto simp: external_matches_def sample_external_def)
  have v: "''[1.0]'' = vector_text zero_sha_library [0x3F800000]"
    by (simp add: zero_sha_library_def)
  note exact = external_semantic_plan_exact [OF sha]
  show ?thesis
    by (intro conjI conjunct1 [OF exact, THEN iffD2] conjunct2 [OF exact, THEN mp] refl
        exI [where x = "[0x3F800000]"] m v n)
qed

text \<open>
  C24. What a search tells the caller about its semantic part is always one of a fixed set of
  diagnostics, whatever text the database holds: no database detail can leak through a warning.
\<close>

theorem semantic_diagnostics_closed:
  "set (plan_diagnostics (planned lib question external result) no_match) \<subseteq> public_diagnostics
   \<and> (planned lib question external result = Ready generation vector \<longrightarrow>
        set (plan_diagnostics
               (recheck (Ready generation vector) generation current status diagnostic) no_match)
          \<subseteq> public_diagnostics)"
  by (intro conjI impI public_plan_diagnostics planned_public recheck_public) simp

theorem semantic_diagnostics_closed_witness:
  "planned zero_sha_library ''q'' None
     (Some (Some ''g'', Some ''deterministic-fixture-v1'', Some ''deterministic-input-v1'', Some 3,
            ''ready'', ''x'')) = Ready ''g'' ''[1,1,1]''
   \<and> set (plan_diagnostics (recheck (Ready ''g'' ''[1,1,1]'') ''g'' None ''broken'' ''secret'') True)
       \<subseteq> public_diagnostics"
proof -
  have "planned zero_sha_library ''q'' None
     (Some (Some ''g'', Some ''deterministic-fixture-v1'', Some ''deterministic-input-v1'', Some 3,
            ''ready'', ''x'')) = Ready ''g'' ''[1,1,1]''"
    by code_simp
  with semantic_diagnostics_closed show ?thesis by blast
qed

end
