(* ===== verification/Search_Plan.thy ===== *)
theory Search_Plan
  imports Read_Path Semantic
begin

text \<open>
  The semantic plan of a search (\<open>semantic_plan\<close> of \<open>src/src/lib.rs\<close>, and the recheck that
  \<open>search_memories_in_database\<close> makes): the planning transaction under its own deadline, and what its
  answers allow. \<open>planning\<close> says which plan which answers lead to, \<open>current_plan\<close> which plan survives
  the recheck; both are stated over the rows the database answered, without the code's decisions.
\<close>

section \<open>The semantic plan\<close>

definition read_readiness :: "pg_row \<Rightarrow> sqlx_error + readiness" where
  "read_readiness row =
     res_bind (get_opt_text row ''generation_id'') (\<lambda>g.
     res_bind (get_opt_text row ''model_version'') (\<lambda>m.
     res_bind (get_opt_text row ''input_recipe_version'') (\<lambda>r.
     res_bind (get_opt_int row ''dimensions'') (\<lambda>d.
     res_bind (get_text row ''semantic_status'') (\<lambda>s.
     res_bind (get_text row ''diagnostic'') (\<lambda>x. Inr (g, m, r, d, s, x)))))))"

definition query_readiness ::
    "bytes \<Rightarrow> caller \<Rightarrow> str list option \<Rightarrow> (sqlx_error + readiness) prog" where
  "query_readiness digest reader subjects =
     try_then begin_transaction (\<lambda>_.
     try_then (set_local_bytes ''app.credential_digest'' digest) (\<lambda>_.
     try_then (set_local ''app.operation'' ''search'') (\<lambda>_.
     try_then (set_local ''statement_timeout'' ''100ms'') (\<lambda>_.
     try_then (set_local ''app.tenant_id'' (tenant_id reader)) (\<lambda>_.
     try_then (fetch_one ''semantic_readiness''
                 [P_text (tenant_id reader), P_text (credential_id reader), P_opt_texts subjects])
       (\<lambda>row.
     try_then commit (\<lambda>_.
       give (read_readiness row))))))))"

fun readiness_result :: "elapsed + (sqlx_error + readiness) \<Rightarrow> readiness option" where
  "readiness_result (Inr (Inr x)) = Some x"
| "readiness_result (Inr (Inl _)) = None"
| "readiness_result (Inl _) = None"

definition make_semantic_plan ::
    "library \<Rightarrow> bytes \<Rightarrow> caller \<Rightarrow> str \<Rightarrow> str list option \<Rightarrow> semantic_query_input option
      \<Rightarrow> semantic_plan prog" where
  "make_semantic_plan lib digest reader question subjects external =
     andthen (timeout (query_readiness digest reader subjects)) (\<lambda>result.
       give (planned lib question external (readiness_result result)))"

section \<open>The recheck\<close>

definition recheck_plan ::
    "caller \<Rightarrow> str list option \<Rightarrow> semantic_plan \<Rightarrow> (request_failure + semantic_plan) prog" where
  "recheck_plan reader subjects plan =
     (case plan of
        Ready generation _ \<Rightarrow>
          try_then (or_err classify_list_database_error
                      (fetch_one ''semantic_readiness''
                        [P_text (tenant_id reader), P_text (credential_id reader),
                         P_opt_texts subjects])) (\<lambda>row.
          try_then (give (column get_opt_text row ''generation_id'')) (\<lambda>current.
          try_then (give (column get_text row ''semantic_status'')) (\<lambda>status.
          try_then (give (column get_text row ''diagnostic'')) (\<lambda>diagnostic.
            give (Inr (recheck plan generation current status diagnostic))))))
      | _ \<Rightarrow> give (Inr plan))"

definition readiness_statement :: "caller \<Rightarrow> str list option \<Rightarrow> call" where
  "readiness_statement reader subjects =
     Query ''semantic_readiness''
       [P_text (tenant_id reader), P_text (credential_id reader), P_opt_texts subjects]"

definition recheck_calls :: "caller \<Rightarrow> str list option \<Rightarrow> semantic_plan \<Rightarrow> call list" where
  "recheck_calls reader subjects plan =
     (case plan of Ready _ _ \<Rightarrow> [readiness_statement reader subjects] | _ \<Rightarrow> [])"

text \<open>
  What the database allows of a plan. A reason that reaches the caller is one of five, or the
  general one; a ready plan is kept exactly while the row answered at \<open>h\<close> says it is ready for the
  same generation.
\<close>

definition public_reason :: "str \<Rightarrow> str" where
  "public_reason d =
     (if d \<in> {''semantic_configuration_missing'', ''extraction_not_ready'',
              ''semantic_processing_pending'', ''semantic_processing_failed'',
              ''semantic_external_input_invalid''}
      then d else ''semantic_unavailable'')"

definition current_plan :: "env \<Rightarrow> call list \<Rightarrow> semantic_plan \<Rightarrow> semantic_plan \<Rightarrow> bool" where
  "current_plan env h plan effective =
     (case plan of
        Ready generation _ \<Rightarrow>
          (\<exists>row current status diagnostic. on_row env h = Inr row
             \<and> get_opt_text row ''generation_id'' = Inr current
             \<and> get_text row ''semantic_status'' = Inr status
             \<and> get_text row ''diagnostic'' = Inr diagnostic
             \<and> (if status = ''ready'' \<and> current = Some generation then effective = plan
                else if status = ''failed'' then effective = Failed (public_reason diagnostic)
                else effective = Pending (public_reason diagnostic)))
      | _ \<Rightarrow> effective = plan)"

lemma sanitized_reason: "sanitized_semantic_diagnostic d = public_reason d"
  by (simp add: sanitized_semantic_diagnostic_def public_reason_def)

lemma current_public: "current_plan env h plan effective \<Longrightarrow> public_plan plan \<Longrightarrow> public_plan effective"
  by (auto simp: current_plan_def public_reason_def public_diagnostics_def
      split: semantic_plan.splits if_splits)

lemma run_recheck:
  "recheck_plan reader subjects plan env c = (Finished (Inr effective), c') \<Longrightarrow>
     calls c' = calls c @ recheck_calls reader subjects plan \<and> timed c' = timed c
     \<and> current_plan env (calls c') plan effective"
  unfolding recheck_plan_def
  by (cases plan)
    (auto simp: effect_simps result_simps recheck_calls_def readiness_statement_def current_plan_def
      recheck_def sanitized_reason)

section \<open>Calls in order\<close>

text \<open>The last call of \<open>h\<close> was answered with an error.\<close>

definition refused :: "env \<Rightarrow> call list \<Rightarrow> bool" where
  "refused env h =
     (case last h of
        Set_Local _ _ \<Rightarrow> \<exists>e. on_text env h = Inl e
      | Set_Local_Bytes _ _ \<Rightarrow> \<exists>e. on_text env h = Inl e
      | Query f _ \<Rightarrow>
          if f = ''semantic_readiness'' then \<exists>e. on_row env h = Inl e
          else if f = ''current_setting'' then \<exists>e. on_text env h = Inl e
          else \<exists>e. on_rows env h = Inl e
      | _ \<Rightarrow> \<exists>e. on_unit env h = Inl e)"

text \<open>
  \<open>follows env cs p ok\<close>: a run of \<open>p\<close> makes the calls \<open>cs\<close> in order, until a call is refused or the
  deadline passes; a run that is not stopped so satisfies \<open>ok\<close>, of the history before it, its
  outcome and the history after it.
\<close>

definition stopped :: "env \<Rightarrow> call list \<Rightarrow> call list \<Rightarrow> ('e + 'a) outcome \<Rightarrow> call list \<Rightarrow> bool" where
  "stopped env cs h out h' =
     (strict_prefix h h' \<and> prefix h' (h @ cs)
      \<and> (out = Expired \<and> on_deadline env h' \<or> (\<exists>e. out = Finished (Inl e)) \<and> refused env h'))"

definition follows ::
    "env \<Rightarrow> call list \<Rightarrow> ('e + 'a) prog \<Rightarrow> (call list \<Rightarrow> bool \<Rightarrow> ('e + 'a) outcome \<Rightarrow> call list \<Rightarrow> bool)
      \<Rightarrow> bool" where
  "follows env cs p ok =
     (\<forall>c out c'. p env c = (out, c') \<longrightarrow>
        ok (calls c) (timed c) out (calls c') \<and> timed c' = timed c
        \<or> stopped env cs (calls c) out (calls c'))"

abbreviation completed :: "call list \<Rightarrow> call list \<Rightarrow> bool \<Rightarrow> ('e + unit) outcome \<Rightarrow> call list \<Rightarrow> bool" where
  "completed cs h t out h' \<equiv> out = Finished (Inr ()) \<and> h' = h @ cs"

lemma followsD:
  "follows env cs p ok \<Longrightarrow> p env c = (out, c') \<Longrightarrow>
     ok (calls c) (timed c) out (calls c') \<and> timed c' = timed c
     \<or> stopped env cs (calls c) out (calls c')"
  unfolding follows_def by blast

lemma stopped_more: "stopped env cs h out h' \<Longrightarrow> stopped env (cs @ ds) h out h'"
  unfolding stopped_def using prefix_order.trans [of h' "h @ cs" "(h @ cs) @ ds"] by auto

lemma stopped_later: "stopped env ds (h @ cs) out h' \<Longrightarrow> stopped env (cs @ ds) h out h'"
  unfolding stopped_def by (auto simp: strict_prefix_def dest: append_prefixD)

lemma stopped_Inl: "stopped env cs h (Finished (Inl e)) h' \<Longrightarrow> stopped env cs h (Finished (Inl d)) h'"
  by (simp add: stopped_def)

lemma stopped_Inr [simp]: "\<not> stopped env cs h (Finished (Inr a)) h'"
  by (simp add: stopped_def)

lemma follows_bind:
  assumes p: "follows env cs p P" and f: "\<And>a. follows env ds (f a) (ok a)"
    and ok: "\<And>h t r h1. P h t r h1 \<Longrightarrow> \<exists>a. r = Finished (Inr a) \<and> h1 = h @ cs
        \<and> (\<forall>out h'. ok a h1 t out h' \<longrightarrow> ok' h t out h')"
  shows "follows env (cs @ ds) (try_then p f) ok'"
  unfolding follows_def
proof (intro allI impI)
  fix c out c'
  assume r: "try_then p f env c = (out, c')"
  obtain o1 c1 where p1: "p env c = (o1, c1)" by fastforce
  from followsD [OF p p1]
  show "ok' (calls c) (timed c) out (calls c') \<and> timed c' = timed c
      \<or> stopped env (cs @ ds) (calls c) out (calls c')"
  proof
    assume P: "P (calls c) (timed c) o1 (calls c1) \<and> timed c1 = timed c"
    then obtain a where a: "o1 = Finished (Inr a)" "calls c1 = calls c @ cs" "timed c1 = timed c"
      and k: "ok a (calls c1) (timed c) out h' \<Longrightarrow> ok' (calls c) (timed c) out h'" for out h'
      using ok by blast
    from r p1 a(1) have "f a env c1 = (out, c')" by (simp add: try_then_def andthen_def)
    from followsD [OF f this] show ?thesis
      using k stopped_later [of env ds "calls c" cs] unfolding a(2,3) by blast
  next
    assume s: "stopped env cs (calls c) o1 (calls c1)"
    with r p1 have "c' = c1 \<and> (o1 = Expired \<and> out = Expired
        \<or> (\<exists>e. o1 = Finished (Inl e) \<and> out = Finished (Inl e)))"
      by (auto simp: stopped_def try_then_def andthen_def give_def)
    with s stopped_Inl stopped_more [of env cs "calls c" out "calls c'" ds]
    show ?thesis by (auto simp: stopped_def)
  qed
qed

lemma follows_then:
  "follows env cs p (completed cs) \<Longrightarrow> follows env ds (f ()) (completed ds) \<Longrightarrow>
     follows env (cs @ ds) (try_then p f) (completed (cs @ ds))"
  by (rule follows_bind [where ok = "\<lambda>_. completed ds"]) simp_all

lemma follows_err:
  assumes p: "follows env cs p (completed cs)"
  shows "follows env cs (or_err g p) (completed cs)"
  unfolding follows_def
proof (intro allI impI)
  fix c out c'
  assume r: "or_err g p env c = (out, c')"
  obtain o1 c1 where p1: "p env c = (o1, c1)" by fastforce
  from r p1 followsD [OF p p1]
  show "completed cs (calls c) (timed c) out (calls c') \<and> timed c' = timed c
      \<or> stopped env cs (calls c) out (calls c')"
    by (cases o1)
      (auto simp: or_err_def andthen_def give_def stopped_def map_err_Inr split: sum.splits)
qed

lemma follows_give: "follows env [] (give x) (\<lambda>h t out h'. out = Finished x \<and> h' = h)"
  by (simp add: follows_def give_def)

lemma follows_nothing: "follows env [] (give (Inr ())) (completed [])"
  using follows_give [of env "Inr ()"] by simp

text \<open>One call, whose answer decides between success and refusal.\<close>

definition got ::
    "(env \<Rightarrow> call list \<Rightarrow> 'e + 'a) \<Rightarrow> env \<Rightarrow> call \<Rightarrow> call list \<Rightarrow> bool \<Rightarrow> ('e + 'a) outcome \<Rightarrow> call list
      \<Rightarrow> bool" where
  "got g env u h t out h' =
     (\<exists>a. out = Finished (Inr a) \<and> h' = h @ [u] \<and> g env h' = Inr a \<and> \<not> (t \<and> on_deadline env h'))"

lemma refused_call [simp]:
  "refused env (h @ [Begin]) \<longleftrightarrow> (\<exists>e. on_unit env (h @ [Begin]) = Inl e)"
  "refused env (h @ [Commit]) \<longleftrightarrow> (\<exists>e. on_unit env (h @ [Commit]) = Inl e)"
  "refused env (h @ [Set_Local k v]) \<longleftrightarrow> (\<exists>e. on_text env (h @ [Set_Local k v]) = Inl e)"
  "refused env (h @ [Set_Local_Bytes k b]) \<longleftrightarrow> (\<exists>e. on_text env (h @ [Set_Local_Bytes k b]) = Inl e)"
  "refused env (h @ [readiness_statement reader subjects]) \<longleftrightarrow>
     (\<exists>e. on_row env (h @ [readiness_statement reader subjects]) = Inl e)"
  by (simp_all add: refused_def readiness_statement_def)

lemma follows_await:
  assumes "\<And>h. refused env (h @ [u]) \<longleftrightarrow> (\<exists>e. g env (h @ [u]) = Inl e)"
  shows "follows env [u] (await g u) (got g env u)"
  unfolding follows_def
proof (intro allI impI)
  fix c out c'
  assume r: "await g u env c = (out, c')"
  show "got g env u (calls c) (timed c) out (calls c') \<and> timed c' = timed c
      \<or> stopped env [u] (calls c) out (calls c')"
    using r assms [of "calls c"]
    by (cases "g env (calls c @ [u])")
      (auto simp: await_def Let_def got_def stopped_def strict_prefix_def split: if_splits)
qed

lemma follows_setting:
  assumes "\<And>h. refused env (h @ [u]) \<longleftrightarrow> (\<exists>e. on_text env (h @ [u]) = Inl e)"
  shows "follows env [u] (andthen (await on_text u) (\<lambda>r. give (map_ok (\<lambda>_. ()) r))) (completed [u])"
  unfolding follows_def
proof (intro allI impI)
  fix c out c'
  assume r: "andthen (await on_text u) (\<lambda>r. give (map_ok (\<lambda>_. ()) r)) env c = (out, c')"
  obtain o1 c1 where p1: "await on_text u env c = (o1, c1)" by fastforce
  have "follows env [u] (await on_text u) (got on_text env u)"
    by (rule follows_await) (rule assms)
  from followsD [OF this p1] r p1
  show "completed [u] (calls c) (timed c) out (calls c') \<and> timed c' = timed c
      \<or> stopped env [u] (calls c) out (calls c')"
    by (auto simp: got_def stopped_def andthen_def give_def split: outcome.splits)
qed

lemma follows_unit:
  "(\<And>h. refused env (h @ [u]) \<longleftrightarrow> (\<exists>e. on_unit env (h @ [u]) = Inl e)) \<Longrightarrow>
     follows env [u] (await on_unit u) (completed [u])"
  using follows_await [of env u on_unit] unfolding follows_def got_def by fastforce

lemma follows_calls:
  "follows env [Begin] begin_transaction (completed [Begin])"
  "follows env [Set_Local k v] (set_local k v) (completed [Set_Local k v])"
  "follows env [Set_Local_Bytes k b] (set_local_bytes k b) (completed [Set_Local_Bytes k b])"
  unfolding begin_transaction_def set_local_def set_local_bytes_def
  by (rule follows_unit follows_setting; simp)+

lemma follows_open_read:
  "follows env (read_transaction_calls digest operation tenant)
     (open_read_transaction digest operation tenant)
     (completed (read_transaction_calls digest operation tenant))"
proof -
  have "follows env ([Begin] @ [Set_Local_Bytes ''app.credential_digest'' digest]
      @ [Set_Local ''app.operation'' operation] @ [Set_Local ''lock_timeout'' ''250ms'']
      @ [Set_Local ''statement_timeout'' ''1000ms''] @ [Set_Local ''app.tenant_id'' tenant] @ [])
     (open_read_transaction digest operation tenant)
     (completed ([Begin] @ [Set_Local_Bytes ''app.credential_digest'' digest]
      @ [Set_Local ''app.operation'' operation] @ [Set_Local ''lock_timeout'' ''250ms'']
      @ [Set_Local ''statement_timeout'' ''1000ms''] @ [Set_Local ''app.tenant_id'' tenant] @ []))"
    unfolding open_read_transaction_def
    by (rule follows_then follows_err follows_calls follows_nothing)+
  then show ?thesis by (simp add: read_transaction_calls_def)
qed

lemma grows_semantic_plan [intro!]:
  "grows (make_semantic_plan lib digest reader question subjects external)"
  unfolding make_semantic_plan_def query_readiness_def
  by (intro grows_try grows_andthen grows_timeout) auto

section \<open>The plan the database allows\<close>

definition planning_calls :: "bytes \<Rightarrow> caller \<Rightarrow> str list option \<Rightarrow> call list" where
  "planning_calls digest reader subjects =
     [Begin, Set_Local_Bytes ''app.credential_digest'' digest, Set_Local ''app.operation'' ''search'',
      Set_Local ''statement_timeout'' ''100ms'', Set_Local ''app.tenant_id'' (tenant_id reader),
      readiness_statement reader subjects, Commit]"

text \<open>
  The plan that a readiness row allows. The deterministic fixture embeds the query for exactly two
  models; every other outcome is fixed.
\<close>

definition fixture_plan :: "library \<Rightarrow> str \<Rightarrow> str \<Rightarrow> str \<Rightarrow> int \<Rightarrow> str \<Rightarrow> semantic_plan" where
  "fixture_plan lib generation model recipe dimensions question =
     (let embedded = Ready generation (deterministic_query_vector (sha256_of lib) question) in
      case (if dimensions = 3 \<and> recipe = ''deterministic-input-v1''
            then map_of
              [(''deterministic-fixture-v1'', embedded),
               (''deterministic-fixture-delayed-test'', embedded),
               (''deterministic-fixture-provider-failed'', Failed ''query_embedding_failed''),
               (''deterministic-fixture-provider-timeout'', Failed ''query_embedding_timeout''),
               (''deterministic-fixture-invalid-response'', Failed ''query_embedding_invalid'')] model
            else None) of
        Some plan \<Rightarrow> plan
      | None \<Rightarrow> Pending ''semantic_configuration_missing'')"

definition allowed_plan :: "library \<Rightarrow> search_input \<Rightarrow> pg_row \<Rightarrow> semantic_plan" where
  "allowed_plan lib input row =
     (case (get_opt_text row ''generation_id'', get_opt_text row ''model_version'',
            get_opt_text row ''input_recipe_version'', get_opt_int row ''dimensions'',
            get_text row ''semantic_status'', get_text row ''diagnostic'') of
        (Inr generation, Inr model, Inr recipe, Inr dimensions, Inr status, Inr diagnostic) \<Rightarrow>
          (case (generation, model, recipe, dimensions, status = ''ready'') of
             (Some g, Some m, Some r, Some d, True) \<Rightarrow>
               (case semantic_query input of
                  Some external \<Rightarrow> external_semantic_plan lib g m r d (query input) external
                | None \<Rightarrow> fixture_plan lib g m r d (query input))
           | _ \<Rightarrow>
               if status = ''failed'' then Failed (public_reason diagnostic)
               else Pending (public_reason diagnostic))
      | _ \<Rightarrow> Pending ''semantic_database_unavailable'')"

text \<open>
  \<open>planning lib env digest reader input h plan h'\<close>: from the history \<open>h\<close> to \<open>h'\<close> the database was
  asked for the plan. A search without a semantic part asks nothing. Otherwise either the planning
  transaction was committed in time, and the plan is the one its readiness row allows; or it was cut
  short, by a deadline or a refused call, and the plan is to do without the database's vectors.
\<close>

definition planning ::
    "library \<Rightarrow> env \<Rightarrow> bytes \<Rightarrow> caller \<Rightarrow> search_input \<Rightarrow> call list \<Rightarrow> semantic_plan \<Rightarrow> call list
      \<Rightarrow> bool" where
  "planning lib env digest reader input h plan h' =
     (let complete = h @ planning_calls digest reader (scope input) in
      if \<not> semantic input then plan = NotRequested \<and> h' = h
      else
        (\<exists>row. h' = complete \<and> \<not> on_deadline env h' \<and> on_unit env h' = Inr ()
           \<and> on_row env (butlast h') = Inr row \<and> plan = allowed_plan lib input row)
        \<or> strict_prefix h h' \<and> prefix h' complete \<and> (on_deadline env h' \<or> refused env h')
           \<and> plan = Pending ''semantic_database_unavailable'')"

lemma fixture_planned: "query_embedding_fixture lib g m r d q = fixture_plan lib g m r d q"
  by (simp add: query_embedding_fixture_def fixture_plan_def Let_def)

lemma planned_Some:
  "read_readiness row = Inr x \<Longrightarrow>
     planned lib (query input) (semantic_query input) (Some x) = allowed_plan lib input row"
  by (auto simp: read_readiness_def result_simps planned_def allowed_plan_def sanitized_reason
      fixture_planned split: option.splits)

lemma planned_unreadable:
  "read_readiness row = Inl e \<Longrightarrow>
     planned lib (query input) (semantic_query input) None = allowed_plan lib input row"
  by (auto simp: read_readiness_def result_simps planned_def allowed_plan_def
      split: sum.splits)

text \<open>The planning transaction, as it is answered, refused or cut short.\<close>

definition readiness_read ::
    "env \<Rightarrow> call list \<Rightarrow> call list \<Rightarrow> bool \<Rightarrow> (sqlx_error + readiness) outcome \<Rightarrow> call list \<Rightarrow> bool" where
  "readiness_read env cs h t out h' =
     (h' = h @ cs \<and> \<not> (t \<and> on_deadline env h') \<and> on_unit env h' = Inr ()
      \<and> (\<exists>row. on_row env (butlast h') = Inr row \<and> out = Finished (read_readiness row)))"

lemma follows_readiness_row:
  "follows env ([readiness_statement reader subjects] @ [Commit] @ [])
     (try_then (fetch_one ''semantic_readiness''
                 [P_text (tenant_id reader), P_text (credential_id reader), P_opt_texts subjects])
       (\<lambda>row. try_then commit (\<lambda>_. give (read_readiness row))))
     (readiness_read env [readiness_statement reader subjects, Commit])"
  unfolding fetch_one_def commit_def readiness_statement_def [symmetric]
  by (rule follows_bind [where ok = "\<lambda>row h t out h'. h' = h @ [Commit]
            \<and> \<not> (t \<and> on_deadline env h') \<and> on_unit env h' = Inr () \<and> out = Finished (read_readiness row)"],
      rule follows_await, simp,
      rule follows_bind [OF follows_await follows_give])
    (auto simp: got_def readiness_read_def butlast_append)

lemma follows_readiness_then:
  "follows env cs p (completed cs) \<Longrightarrow> follows env ds (f ()) (readiness_read env ds) \<Longrightarrow>
     follows env (cs @ ds) (try_then p f) (readiness_read env (cs @ ds))"
  by (rule follows_bind [where P = "completed cs" and ok = "\<lambda>_. readiness_read env ds"])
    (simp_all add: readiness_read_def)

lemma follows_readiness:
  "follows env (planning_calls digest reader subjects) (query_readiness digest reader subjects)
     (readiness_read env (planning_calls digest reader subjects))"
proof -
  let ?last = "[readiness_statement reader subjects, Commit]"
  have "follows env ([Begin] @ [Set_Local_Bytes ''app.credential_digest'' digest]
      @ [Set_Local ''app.operation'' ''search''] @ [Set_Local ''statement_timeout'' ''100ms'']
      @ [Set_Local ''app.tenant_id'' (tenant_id reader)] @ ?last)
     (query_readiness digest reader subjects)
     (readiness_read env ([Begin] @ [Set_Local_Bytes ''app.credential_digest'' digest]
      @ [Set_Local ''app.operation'' ''search''] @ [Set_Local ''statement_timeout'' ''100ms'']
      @ [Set_Local ''app.tenant_id'' (tenant_id reader)] @ ?last))"
    unfolding query_readiness_def
    by (rule follows_readiness_then follows_calls follows_readiness_row [simplified])+
  then show ?thesis by (simp add: planning_calls_def)
qed

lemma run_make_plan:
  assumes "(if semantic input then
       make_semantic_plan lib digest reader (query input) (scope input) (semantic_query input)
     else give NotRequested) env c = (Finished plan, c1)"
  shows "planning lib env digest reader input (calls c) plan (calls c1) \<and> timed c1 = timed c"
proof (cases "semantic input")
  case True
  obtain out c2 where q: "query_readiness digest reader (scope input) env (c\<lparr>timed := True\<rparr>) = (out, c2)"
    by fastforce
  have c1: "calls c1 = calls c2" "timed c1 = timed c"
    and plan: "plan = planned lib (query input) (semantic_query input)
      (readiness_result (case out of Finished a \<Rightarrow> Inr a | Expired \<Rightarrow> Inl Elapsed_Error))"
    using assms True q
    by (auto simp: make_semantic_plan_def andthen_def timeout_def give_def split: outcome.splits)
  have f: "readiness_read env (planning_calls digest reader (scope input)) (calls c) True out (calls c2)
      \<or> stopped env (planning_calls digest reader (scope input)) (calls c) out (calls c2)"
    using followsD [OF follows_readiness q] by auto
  from f show ?thesis
  proof
    assume "readiness_read env (planning_calls digest reader (scope input)) (calls c) True out (calls c2)"
    then obtain row where h: "calls c2 = calls c @ planning_calls digest reader (scope input)"
      "\<not> on_deadline env (calls c2)" "on_unit env (calls c2) = Inr ()"
      "on_row env (butlast (calls c2)) = Inr row" and out: "out = Finished (read_readiness row)"
      by (auto simp: readiness_read_def)
    have "plan = allowed_plan lib input row"
      using plan out planned_Some planned_unreadable by (cases "read_readiness row") auto
    with h c1 True show ?thesis unfolding planning_def Let_def by auto
  next
    assume s: "stopped env (planning_calls digest reader (scope input)) (calls c) out (calls c2)"
    then have "plan = Pending ''semantic_database_unavailable''"
      using plan by (auto simp: stopped_def planned_def)
    with s c1 True show ?thesis unfolding planning_def Let_def stopped_def by auto
  qed
qed (use assms in \<open>auto simp: effect_simps planning_def\<close>)

lemma fixture_plan_public: "public_plan (fixture_plan lib g m r d q)"
  using fixture_public [of lib g m r d q] by (simp add: fixture_planned)

lemma reason_public: "public_reason d \<in> public_diagnostics"
  using sanitized_public [of d] by (simp add: sanitized_reason)

lemma allowed_public: "public_plan (allowed_plan lib input row)"
  by (auto simp: allowed_plan_def external_public fixture_plan_public reason_public unavailable_public
      split: sum.split option.split bool.split)

end
