(* ===== verification/Search_Path.thy ===== *)
theory Search_Path
  imports Packing_Correct Search_Plan
begin

text \<open>
  The search route (\<open>search_memories\<close>, \<open>prepare_search\<close>, \<open>search_memories_in_database\<close> of
  \<open>src/src/lib.rs\<close>): preparation, the search transaction, packing with or without a token allowance,
  and the lexical retry; the plan is in \<open>Search_Plan\<close>. What the route exchanges with its environment
  is \<open>search_exchange\<close>, call by call. The default build is modelled: without the \<open>benchmark-trace\<close>
  feature.
\<close>

section \<open>Preparation\<close>

record prepared_search =
  ps_digest :: bytes
  ps_reader :: caller
  ps_input :: search_input

definition SEARCH_BODY_LIMIT :: nat where
  "SEARCH_BODY_LIMIT = 128 * 1024"

definition decode_prepared ::
    "library \<Rightarrow> search_limits \<Rightarrow> bytes \<Rightarrow> request_failure + search_input" where
  "decode_prepared lib limits body =
     (if \<not> bounded_json_structure_with_limit body (MAX_EXTERNAL_VECTOR_DIMENSIONS + 32)
      then Inl Malformed
      else
        res_bind (map_err JsonBody (decode_search lib body)) (\<lambda>input.
        let input = input\<lparr>input_context_bytes := Some (default_search_context_bytes input limits)\<rparr> in
        res_bind (validate_search_input_with_limits input limits) (\<lambda>_. Inr input)))"

definition prepare_search ::
    "library \<Rightarrow> http_request \<Rightarrow> search_limits \<Rightarrow> (request_rejection + prepared_search) prog" where
  "prepare_search lib req limits =
     (case bearer_token req of
        None \<Rightarrow> give (Inl (unattributed Unauthenticated))
      | Some token \<Rightarrow>
          let digest = sha256_of lib token in
          or_err (\<lambda>e. attributed e digest)
            (try_then (authenticated (authenticate_reader digest ''search'')) (\<lambda>reader.
             try_then (give (if uri_query req \<noteq> None \<or> \<not> has_json_content_type req
                             then Inl Malformed else Inr ())) (\<lambda>_.
             try_then (bounded_body SEARCH_BODY_LIMIT) (\<lambda>body.
             try_then (give (decode_prepared lib limits body)) (\<lambda>input.
               give (Inr \<lparr>ps_digest = digest, ps_reader = reader, ps_input = input\<rparr>))))))) "

section \<open>The search transaction\<close>

record search_response =
  sr_request_id :: str
  sr_status :: str
  sr_items :: "search_item list"
  sr_context_bytes :: nat
  sr_truncated :: bool
  sr_warnings :: "str list"
  sr_context :: "token_context option"

definition search_function :: "semantic_plan \<Rightarrow> query_mode \<Rightarrow> str" where
  "search_function plan mode =
     (case plan of
        Ready _ _ \<Rightarrow> ''search_hybrid_current_memories''
      | _ \<Rightarrow>
          if mode = DisjunctiveV2 then ''search_current_memories_disjunctive_v2''
          else if mode = DisjunctiveV3 then ''search_current_memories_disjunctive_v3''
          else ''search_current_memories'')"

definition search_params :: "caller \<Rightarrow> str \<Rightarrow> search_input \<Rightarrow> semantic_plan \<Rightarrow> param list" where
  "search_params reader request_id input plan =
     [P_text (tenant_id reader), P_text (credential_id reader), P_text request_id,
      P_text (query input), P_int (uint (the (input_context_bytes input))),
      P_opt_texts (scope input)]
     @ (case plan of
          Ready generation vector \<Rightarrow> [P_text generation, P_text vector]
        | _ \<Rightarrow> [])"

definition pack_rows_for ::
    "library \<Rightarrow> search_input \<Rightarrow> str \<Rightarrow> pg_row list \<Rightarrow> nat \<Rightarrow> bool
      \<Rightarrow> request_failure + (search_item list \<times> nat \<times> bool) \<times> token_context option" where
  "pack_rows_for lib input status rows permits joined =
     (case context_token_budget input of
        Some a \<Rightarrow>
          map_ok (\<lambda>(packed, ctx). (packed, Some ctx))
            (token_pack lib permits joined rows (the (input_context_bytes input)) status a)
      | None \<Rightarrow>
          map_ok (\<lambda>(packed, _). (packed, None))
            (pack_search_rows lib rows (the (input_context_bytes input)) status None))"

definition lexical_warnings :: "str \<Rightarrow> request_failure + str list" where
  "lexical_warnings status =
     (if status = ''disjunctive'' \<or> status = ''explicit_syntax'' then Inr []
      else if status = ''fallback_bound'' \<or> status = ''fallback_curly''
              \<or> status = ''fallback_empty'' \<or> status = ''fallback_roundtrip''
      then Inr [''lexical_disjunction_fallback'']
      else Inl Malformed)"

definition preparation_warnings :: "search_input \<Rightarrow> (request_failure + str list) prog" where
  "preparation_warnings input =
     (if query_mode input \<noteq> BoundedV1 then
        try_then (or_err Storage
                    (fetch_scalar ''current_setting'' [P_text ''app.lexical_preparation_status'']))
          (\<lambda>status. give (lexical_warnings status))
      else give (Inr []))"

definition search_memories_in_database ::
    "library \<Rightarrow> bytes \<Rightarrow> caller \<Rightarrow> search_input \<Rightarrow> str \<Rightarrow> semantic_plan
      \<Rightarrow> (request_failure + search_response) prog" where
  "search_memories_in_database lib digest reader input request_id plan =
     try_then (open_read_transaction digest ''search'' (tenant_id reader)) (\<lambda>_.
     try_then (recheck_plan reader (scope input) plan) (\<lambda>effective.
     try_then (or_err classify_list_database_error
                 (fetch_all (search_function effective (query_mode input))
                   (search_params reader request_id input effective))) (\<lambda>rows.
     andthen (observe on_permits) (\<lambda>permits.
     andthen (observe on_join) (\<lambda>joined.
     try_then (give (pack_rows_for lib input (plan_status effective) rows permits joined))
       (\<lambda>((items, context_bytes, short), ctx).
     try_then (preparation_warnings input) (\<lambda>extra.
     try_then (or_err Storage commit) (\<lambda>_.
       give (Inr \<lparr>sr_request_id = request_id, sr_status = ''ready'', sr_items = items,
                  sr_context_bytes = context_bytes, sr_truncated = short,
                  sr_warnings = plan_diagnostics effective (rows = []) @ extra,
                  sr_context = ctx\<rparr>)))))))))"

section \<open>The handler\<close>

definition retry_lexically ::
    "search_input \<Rightarrow> semantic_plan \<Rightarrow> request_failure + search_response \<Rightarrow> bool" where
  "retry_lexically input plan first =
     ((case first of
         Inl e \<Rightarrow> permits_semantic_fallback e (context_token_budget input \<noteq> None)
       | Inr _ \<Rightarrow> False)
      \<and> (case plan of Ready _ _ \<Rightarrow> True | _ \<Rightarrow> False))"

definition search_prepared ::
    "library \<Rightarrow> str \<Rightarrow> prepared_search \<Rightarrow> (request_failure + search_response) prog" where
  "search_prepared lib request_id prepared =
     (let digest = ps_digest prepared; reader = ps_reader prepared; input = ps_input prepared in
      andthen
        (if semantic input then
           make_semantic_plan lib digest reader (query input) (scope input) (semantic_query input)
         else give NotRequested) (\<lambda>plan.
      andthen (search_memories_in_database lib digest reader input request_id plan) (\<lambda>first.
        if retry_lexically input plan first then
          search_memories_in_database lib digest reader input request_id
            (Pending ''semantic_unavailable'')
        else give first)))"

definition search_memories ::
    "library \<Rightarrow> search_limits \<Rightarrow> str \<Rightarrow> http_request \<Rightarrow> search_response response prog" where
  "search_memories lib limits request_id req =
     andthen (prepare_search lib req limits) (\<lambda>r.
       case r of
         Inl rejection \<Rightarrow>
           finish_operation_error request_id (rejection_error rejection)
             (rejection_digest rejection) None SearchOp
       | Inr prepared \<Rightarrow>
           andthen (search_prepared lib request_id prepared) (\<lambda>result.
             case result of
               Inl failure \<Rightarrow>
                 finish_operation_error request_id failure (Some (ps_digest prepared)) None SearchOp
             | Inr found \<Rightarrow> give (Success 200 found)))"

section \<open>The packing of either mode\<close>

text \<open>What every packed response satisfies, whichever mode produced it.\<close>

definition sound_packing ::
    "library \<Rightarrow> str \<Rightarrow> nat \<Rightarrow> pg_row list \<Rightarrow> search_item list \<Rightarrow> nat \<Rightarrow> bool" where
  "sound_packing lib status allowance rows found used =
     (length found \<le> 12
      \<and> used = sum_list (map (\<lambda>i. length (excerpt i)) found) \<and> used \<le> allowance
      \<and> (\<exists>chosen. subseq chosen rows \<and> list_all2 (item_of_row lib status) chosen found)
      \<and> distinct (passages_of found) \<and> (\<forall>source. from_source source found \<le> 4))"

lemma sound_pack_search_rows:
  assumes "pack_search_rows lib rows bytes status tokens = Inr ((found, used, short), tokens')"
  shows "sound_packing lib status (unat bytes) rows found used"
proof -
  obtain seen left acc st where p: "rows = seen @ left"
    "packed lib status (unat bytes) tokens seen acc st" "found = items st"
    "used = unat bytes - remaining (budget st)"
    using assms by (rule pack_search_rows_packed) blast
  have "subseq (map fst acc) rows \<and> list_all2 (item_of_row lib status) (map fst acc) found"
    using packed_rows [OF p(2)] packed_items [OF p(2)] p(1,3)
    by (auto simp: pairs_from_rows)
  then show ?thesis
    using packed_limits [OF p(2)] packed_passages [OF p(2)] packed_sources [OF p(2)] p(3,4)
    unfolding sound_packing_def by fastforce
qed

lemma sound_pack_rows_for:
  assumes "pack_rows_for lib input status rows permits joined = Inr ((found, used, short), ctx)"
  shows "sound_packing lib status (unat (the (input_context_bytes input))) rows found used"
proof (cases "context_token_budget input")
  case None
  with assms show ?thesis
    by (auto simp: pack_rows_for_def result_simps intro: sound_pack_search_rows)
next
  case (Some a)
  with assms show ?thesis
    by (auto simp: pack_rows_for_def result_simps dest!: token_pack_Inr intro: sound_pack_search_rows)
qed

section \<open>Successful runs\<close>

definition preparation_calls :: "search_input \<Rightarrow> call list" where
  "preparation_calls input =
     (if query_mode input = BoundedV1 then []
      else [Query ''current_setting'' [P_text ''app.lexical_preparation_status'']])"

text \<open>
  The calls of the search transaction up to its search statement, and after it.
\<close>

definition search_calls ::
    "bytes \<Rightarrow> caller \<Rightarrow> str \<Rightarrow> search_input \<Rightarrow> semantic_plan \<Rightarrow> semantic_plan \<Rightarrow> call list" where
  "search_calls digest reader request_id input plan effective =
     read_transaction_calls digest ''search'' (tenant_id reader)
     @ recheck_calls reader (scope input) plan
     @ [Query (search_function effective (query_mode input))
          (search_params reader request_id input effective)]"

text \<open>The calls of the search transaction before the recheck, and with it.\<close>

definition ready_calls :: "bytes \<Rightarrow> caller \<Rightarrow> search_input \<Rightarrow> semantic_plan \<Rightarrow> call list" where
  "ready_calls digest reader input plan =
     read_transaction_calls digest ''search'' (tenant_id reader)
     @ recheck_calls reader (scope input) plan"

text \<open>The warning of the lexical preparation, from the status that the database set.\<close>

definition plain_statuses :: "str set" where
  "plain_statuses = {''disjunctive'', ''explicit_syntax''}"

definition fallback_statuses :: "str set" where
  "fallback_statuses =
     {''fallback_bound'', ''fallback_curly'', ''fallback_empty'', ''fallback_roundtrip''}"

definition lexical_outcome :: "env \<Rightarrow> call list \<Rightarrow> search_input \<Rightarrow> str list \<Rightarrow> bool" where
  "lexical_outcome env h input extra =
     (if query_mode input = BoundedV1 then extra = []
      else
        \<exists>status. on_text env h = Inr status
          \<and> (status \<in> plain_statuses \<and> extra = []
             \<or> status \<in> fallback_statuses \<and> extra = [''lexical_disjunction_fallback'']))"

lemma lexical_outcome_closed:
  "lexical_outcome env h input extra \<Longrightarrow> set extra \<subseteq> {''lexical_disjunction_fallback''}"
  by (auto simp: lexical_outcome_def split: if_splits)

lemma statuses_disjoint: "status \<in> fallback_statuses \<Longrightarrow> status \<notin> plain_statuses"
  unfolding fallback_statuses_def plain_statuses_def by auto

lemma lexical_warnings_cases:
  "lexical_warnings status =
     (if status \<in> plain_statuses then Inr []
      else if status \<in> fallback_statuses then Inr [''lexical_disjunction_fallback'']
      else Inl Malformed)"
  unfolding lexical_warnings_def plain_statuses_def fallback_statuses_def insert_iff empty_iff
    simp_thms ..

lemma lexical_warnings_results:
  "lexical_warnings status = Inr extra \<longleftrightarrow>
     status \<in> plain_statuses \<and> extra = []
     \<or> status \<in> fallback_statuses \<and> extra = [''lexical_disjunction_fallback'']"
  "lexical_warnings status = Inl e \<longleftrightarrow>
     e = Malformed \<and> status \<notin> plain_statuses \<union> fallback_statuses"
  unfolding lexical_warnings_cases using statuses_disjoint [of status] by auto

lemma run_preparation:
  "preparation_warnings input env c = (Finished (Inr extra), c') \<Longrightarrow>
     calls c' = calls c @ preparation_calls input \<and> timed c' = timed c
     \<and> lexical_outcome env (calls c') input extra"
proof (cases "query_mode input = BoundedV1")
  case True
  moreover assume "preparation_warnings input env c = (Finished (Inr extra), c')"
  ultimately show ?thesis
    by (simp add: preparation_warnings_def effect_simps preparation_calls_def lexical_outcome_def)
next
  case False
  let ?h = "calls c @ preparation_calls input"
  assume "preparation_warnings input env c = (Finished (Inr extra), c')"
  with False obtain status where t: "on_text env ?h = Inr status"
    and w: "lexical_warnings status = Inr extra" and c: "calls c' = ?h" "timed c' = timed c"
    by (auto simp: preparation_warnings_def effect_simps preparation_calls_def)
  from w have "lexical_outcome env ?h input extra"
    unfolding lexical_warnings_results lexical_outcome_def using False t by auto
  with c show ?thesis by simp
qed

text \<open>
  What one committed search transaction that started after the calls \<open>h\<close> answers.
\<close>

definition search_answer ::
    "library \<Rightarrow> env \<Rightarrow> bytes \<Rightarrow> caller \<Rightarrow> str \<Rightarrow> search_input \<Rightarrow> semantic_plan \<Rightarrow> call list
      \<Rightarrow> search_response \<Rightarrow> call list \<Rightarrow> bool" where
  "search_answer lib env digest reader request_id input plan h found h' =
     (\<exists>effective rows extra.
        current_plan env (h @ ready_calls digest reader input plan) plan effective
        \<and> (let asked = h @ search_calls digest reader request_id input plan effective
           in on_rows env asked = Inr rows
              \<and> pack_rows_for lib input (plan_status effective) rows (on_permits env asked)
                    (on_join env asked)
                  = Inr ((sr_items found, sr_context_bytes found, sr_truncated found),
                         sr_context found)
              \<and> lexical_outcome env (asked @ preparation_calls input) input extra
              \<and> h' = asked @ preparation_calls input @ [Commit])
        \<and> on_unit env h' = Inr ()
        \<and> sr_request_id found = request_id \<and> sr_status found = ''ready''
        \<and> sr_warnings found = plan_diagnostics effective (rows = []) @ extra)"

lemma run_search_database:
  assumes "search_memories_in_database lib digest reader input i plan env c
    = (Finished (Inr found), c')"
  shows "search_answer lib env digest reader i input plan (calls c) found (calls c')"
  using assms unfolding search_memories_in_database_def
  apply (clarsimp simp: effect_simps result_simps)
  apply (drule run_open_read, drule run_recheck, drule run_preparation)
  subgoal for c1 effective c2 rows
    unfolding search_answer_def Let_def search_calls_def ready_calls_def
    by (intro exI [of _ effective] exI [of _ rows]) auto
  done

lemma grows_search_database [intro!]:
  "grows (search_memories_in_database lib digest reader input i plan)"
  unfolding search_memories_in_database_def open_read_transaction_def recheck_plan_def
    preparation_warnings_def
  by (intro grows_try grows_andthen) (auto split: semantic_plan.split prod.split)

lemma planning_public: "planning lib env digest reader input h plan h' \<Longrightarrow> public_plan plan"
  using allowed_public
  by (auto simp: planning_def Let_def public_diagnostics_def split: if_splits)

section \<open>An abandoned attempt\<close>

text \<open>
  A search transaction that fails leaves a beginning of its calls behind and no successful commit.
  It fails for one of four reasons: the last call was refused; the row of the recheck cannot be read;
  the returned rows cannot be packed; the status of the lexical preparation is unknown.
\<close>

definition attempt_calls ::
    "bytes \<Rightarrow> caller \<Rightarrow> str \<Rightarrow> search_input \<Rightarrow> semantic_plan \<Rightarrow> semantic_plan \<Rightarrow> call list" where
  "attempt_calls digest reader request_id input plan effective =
     search_calls digest reader request_id input plan effective @ preparation_calls input @ [Commit]"

definition readable :: "pg_row \<Rightarrow> bool" where
  "readable row =
     ((\<exists>g. get_opt_text row ''generation_id'' = Inr g)
      \<and> (\<exists>s. get_text row ''semantic_status'' = Inr s)
      \<and> (\<exists>d. get_text row ''diagnostic'' = Inr d))"

definition abandoned ::
    "library \<Rightarrow> env \<Rightarrow> bytes \<Rightarrow> caller \<Rightarrow> str \<Rightarrow> search_input \<Rightarrow> semantic_plan \<Rightarrow> call list
      \<Rightarrow> call list \<Rightarrow> bool" where
  "abandoned lib env digest reader request_id input plan h h' =
     (\<exists>effective.
        let checked = h @ ready_calls digest reader input plan;
            asked = h @ search_calls digest reader request_id input plan effective
        in strict_prefix h h'
           \<and> prefix h' (h @ attempt_calls digest reader request_id input plan effective)
           \<and> (prefix asked h' \<longrightarrow> current_plan env checked plan effective)
           \<and> (refused env h'
              \<or> h' = checked \<and> (\<exists>row. on_row env h' = Inr row \<and> \<not> readable row)
              \<or> h' = asked
                \<and> (\<exists>rows e. on_rows env h' = Inr rows
                     \<and> pack_rows_for lib input (plan_status effective) rows (on_permits env h')
                           (on_join env h') = Inl e)
              \<or> h' = asked @ preparation_calls input \<and> query_mode input \<noteq> BoundedV1
                \<and> (\<exists>status. on_text env h' = Inr status
                     \<and> status \<notin> plain_statuses \<union> fallback_statuses)))"

lemma unreadable_row:
  "\<not> readable row \<longleftrightarrow>
     (\<exists>e. get_opt_text row ''generation_id'' = Inl e) \<or> (\<exists>e. get_text row ''semantic_status'' = Inl e)
     \<or> (\<exists>e. get_text row ''diagnostic'' = Inl e)"
  unfolding readable_def
  by (cases "get_opt_text row ''generation_id''"; cases "get_text row ''semantic_status''";
      cases "get_text row ''diagnostic''") simp_all

lemma recheck_fails:
  assumes "recheck_plan reader subjects plan env c = (Finished (Inl e), c')"
  shows "calls c' = calls c @ recheck_calls reader subjects plan \<and> recheck_calls reader subjects plan \<noteq> []
    \<and> (refused env (calls c') \<or> (\<exists>row. on_row env (calls c') = Inr row \<and> \<not> readable row))"
proof (cases plan)
  case (Ready g v)
  let ?u = "readiness_statement reader subjects"
  have u: "Query ''semantic_readiness''
      [P_text (tenant_id reader), P_text (credential_id reader), P_opt_texts subjects] = ?u"
    by (simp add: readiness_statement_def)
  show ?thesis
  proof (cases "on_row env (calls c @ [?u])")
    case (Inl d)
    with assms show ?thesis
      unfolding recheck_plan_def Ready semantic_plan.case
      by (auto simp: failed_runs effect_simps u recheck_calls_def Ready)
  next
    case (Inr row)
    with assms have "\<not> readable row \<and> calls c' = calls c @ [?u]"
      unfolding recheck_plan_def Ready semantic_plan.case unreadable_row
      by (auto simp: failed_runs effect_simps result_simps u)
    with Inr show ?thesis by (auto simp: recheck_calls_def Ready)
  qed
qed (use assms in \<open>simp_all add: recheck_plan_def run_give\<close>)

lemma refused_statement [simp]:
  "refused env (h @ [Query ''current_setting'' ps])
     \<longleftrightarrow> (\<exists>e. on_text env (h @ [Query ''current_setting'' ps]) = Inl e)"
  "refused env (h @ [Query (search_function plan mode) ps])
     \<longleftrightarrow> (\<exists>e. on_rows env (h @ [Query (search_function plan mode) ps]) = Inl e)"
  by (cases plan; simp add: refused_def search_function_def)+

lemma preparation_fails:
  assumes "preparation_warnings input env c = (Finished (Inl e), c')"
  shows "calls c' = calls c @ preparation_calls input \<and> query_mode input \<noteq> BoundedV1
    \<and> (refused env (calls c')
       \<or> (\<exists>status. on_text env (calls c') = Inr status \<and> status \<notin> plain_statuses \<union> fallback_statuses))"
proof (cases "query_mode input = BoundedV1")
  case True
  with assms show ?thesis by (simp add: preparation_warnings_def run_give)
next
  case False
  let ?u = "Query ''current_setting'' [P_text ''app.lexical_preparation_status'']"
  have r: "try_then (or_err Storage (fetch_scalar ''current_setting''
        [P_text ''app.lexical_preparation_status''])) (\<lambda>status. give (lexical_warnings status)) env c
      = (Finished (Inl e), c')"
    using assms False by (simp add: preparation_warnings_def)
  show ?thesis
  proof (cases "on_text env (calls c @ [?u])")
    case (Inl d)
    with r False show ?thesis
      by (auto simp: failed_runs effect_simps preparation_calls_def)
  next
    case (Inr status)
    with r have "lexical_warnings status = Inl e" "calls c' = calls c @ [?u]"
      by (simp_all add: failed_runs effect_simps)
    with Inr False show ?thesis by (auto simp: preparation_calls_def lexical_warnings_results)
  qed
qed

lemma attempt_split:
  "attempt_calls digest reader i input plan effective
     = ready_calls digest reader input plan
       @ [Query (search_function effective (query_mode input)) (search_params reader i input effective)]
       @ preparation_calls input @ [Commit]"
  "search_calls digest reader i input plan effective
     = ready_calls digest reader input plan
       @ [Query (search_function effective (query_mode input)) (search_params reader i input effective)]"
  by (simp_all add: attempt_calls_def search_calls_def ready_calls_def)

lemma ready_calls_nonempty [simp]: "ready_calls digest reader input plan \<noteq> []"
  by (simp add: ready_calls_def read_transaction_calls_def)

text \<open>Before the search statement, and from it on.\<close>

lemma abandoned_early:
  assumes "h' = h @ early" and "early \<noteq> []" and "prefix early (ready_calls digest reader input plan)"
    and "refused env h' \<or> h' = h @ ready_calls digest reader input plan
      \<and> (\<exists>row. on_row env h' = Inr row \<and> \<not> readable row)"
  shows "abandoned lib env digest reader i input plan h h'"
proof -
  have "prefix early (attempt_calls digest reader i input plan plan)"
    unfolding attempt_split using assms(3) by (rule prefix_prefix)
  moreover have "\<not> prefix (search_calls digest reader i input plan plan) early"
    using prefix_length_le [OF assms(3)] by (auto dest!: prefix_length_le simp: attempt_split)
  ultimately show ?thesis
    unfolding abandoned_def Let_def using assms
    by (intro exI [of _ plan]) (auto simp: strict_prefix_def)
qed

lemma abandoned_late:
  assumes "current_plan env (h @ ready_calls digest reader input plan) plan effective"
    and "h' = (h @ search_calls digest reader i input plan effective) @ late"
    and "prefix late (preparation_calls input @ [Commit])"
    and "refused env h'
      \<or> late = [] \<and> (\<exists>rows e. on_rows env h' = Inr rows
           \<and> pack_rows_for lib input (plan_status effective) rows (on_permits env h') (on_join env h')
               = Inl e)
      \<or> late = preparation_calls input \<and> query_mode input \<noteq> BoundedV1
        \<and> (\<exists>status. on_text env h' = Inr status \<and> status \<notin> plain_statuses \<union> fallback_statuses)"
  shows "abandoned lib env digest reader i input plan h h'"
  unfolding abandoned_def Let_def
proof (intro exI [of _ effective] conjI)
  show "strict_prefix h h'" by (simp add: assms(2) strict_prefix_def attempt_split)
  show "prefix h' (h @ attempt_calls digest reader i input plan effective)"
    using assms(3) by (simp add: assms(2) attempt_calls_def)
qed (use assms in auto)

lemma search_rest_fails:
  assumes "try_then (or_err classify_list_database_error (fetch_all f ps)) (\<lambda>rows.
      andthen (observe on_permits) (\<lambda>permits.
      andthen (observe on_join) (\<lambda>joined.
      try_then (give (pack rows permits joined)) (\<lambda>((its, used, short), ctx).
      try_then (preparation_warnings input) (\<lambda>extra.
      try_then (or_err Storage commit) (\<lambda>_.
        give (Inr (k rows its used short ctx extra)))))))) env c = (Finished (Inl e), c')"
  obtains (find) "\<exists>d. on_rows env (calls c @ [Query f ps]) = Inl d" "calls c' = calls c @ [Query f ps]"
  | (pack) rows where "on_rows env (calls c @ [Query f ps]) = Inr rows"
      "calls c' = calls c @ [Query f ps]" "pack rows (on_permits env (calls c')) (on_join env (calls c')) = Inl e"
  | (prepare) c3 where "calls c3 = calls c @ [Query f ps]"
      "preparation_warnings input env c3 = (Finished (Inl e), c')"
  | (commit) c3 extra c4 where "calls c3 = calls c @ [Query f ps]"
      "preparation_warnings input env c3 = (Finished (Inr extra), c4)"
      "calls c' = calls c4 @ [Commit]" "\<exists>d. on_unit env (calls c') = Inl d"
proof (cases "on_rows env (calls c @ [Query f ps])")
  case (Inl d)
  with assms find show ?thesis by (auto simp: failed_runs effect_simps)
next
  case (Inr rows)
  let ?c3 = "after_call c (Query f ps)"
  show ?thesis
  proof (cases "pack rows (on_permits env (calls ?c3)) (on_join env (calls ?c3))")
    case (Inl d)
    with assms Inr pack show ?thesis by (auto simp: failed_runs effect_simps)
  next
    case found: (Inr x)
    obtain its used short ctx where x: "x = ((its, used, short), ctx)" by (cases x) auto
    have "try_then (preparation_warnings input) (\<lambda>extra.
      try_then (or_err Storage commit) (\<lambda>_.
        give (Inr (k rows its used short ctx extra)))) env ?c3 = (Finished (Inl e), c')"
      using assms Inr found x by (auto simp: failed_runs effect_simps)
    then show ?thesis
      unfolding run_try_Inl [of "preparation_warnings input"]
      using prepare [of ?c3] commit [of ?c3] by (auto simp: failed_runs effect_simps)
  qed
qed

lemma run_search_database_fails:
  assumes "search_memories_in_database lib digest reader input i plan env c = (Finished (Inl e), c')"
  shows "abandoned lib env digest reader i input plan (calls c) (calls c')"
  using assms unfolding search_memories_in_database_def run_try_Inl [of "open_read_transaction _ _ _"]
    run_try_Inl [of "recheck_plan _ _ _"]
proof (elim disjE exE conjE)
  assume "open_read_transaction digest ''search'' (tenant_id reader) env c = (Finished (Inl e), c')"
  from followsD [OF follows_open_read this]
  obtain early where "calls c' = calls c @ early" "early \<noteq> []"
    "prefix early (read_transaction_calls digest ''search'' (tenant_id reader))"
    "refused env (calls c')"
    by (auto simp: stopped_def strict_prefix_def prefix_def)
  then show ?thesis
    by (intro abandoned_early) (auto simp: ready_calls_def intro: prefix_prefix)
next
  fix u c1
  assume "open_read_transaction digest ''search'' (tenant_id reader) env c = (Finished (Inr u), c1)"
    and "recheck_plan reader (scope input) plan env c1 = (Finished (Inl e), c')"
  from run_open_read [OF this(1)] recheck_fails [OF this(2)] show ?thesis
    by (intro abandoned_early [where early = "ready_calls digest reader input plan"])
      (auto simp: ready_calls_def)
next
  fix u c1 effective c2
  assume o: "open_read_transaction digest ''search'' (tenant_id reader) env c = (Finished (Inr u), c1)"
    and r: "recheck_plan reader (scope input) plan env c1 = (Finished (Inr effective), c2)"
    and rest: "try_then (or_err classify_list_database_error
        (fetch_all (search_function effective (query_mode input))
          (search_params reader i input effective))) (\<lambda>rows.
      andthen (observe on_permits) (\<lambda>permits.
      andthen (observe on_join) (\<lambda>joined.
      try_then (give (pack_rows_for lib input (plan_status effective) rows permits joined))
        (\<lambda>((items, context_bytes, short), ctx).
      try_then (preparation_warnings input) (\<lambda>extra.
      try_then (or_err Storage commit) (\<lambda>_.
        give (Inr \<lparr>sr_request_id = i, sr_status = ''ready'', sr_items = items,
                  sr_context_bytes = context_bytes, sr_truncated = short,
                  sr_warnings = plan_diagnostics effective (rows = []) @ extra,
                  sr_context = ctx\<rparr>))))))) env c2 = (Finished (Inl e), c')"
  from run_open_read [OF o] run_recheck [OF r]
  have c2: "calls c2 = calls c @ ready_calls digest reader input plan"
    and p: "current_plan env (calls c @ ready_calls digest reader input plan) plan effective"
    by (auto simp: ready_calls_def)
  let ?asked = "calls c @ search_calls digest reader i input plan effective"
  have asked: "calls c2 @ [Query (search_function effective (query_mode input))
      (search_params reader i input effective)] = ?asked"
    by (simp add: c2 attempt_split)
  from rest show ?thesis
  proof (cases rule: search_rest_fails)
    case find
    then have "refused env (calls c')" by simp
    with find asked show ?thesis by (intro abandoned_late [OF p, where late = "[]"]) simp_all
  next
    case (pack rows)
    with asked show ?thesis by (intro abandoned_late [OF p, where late = "[]"]) auto
  next
    case (prepare c3)
    with asked preparation_fails [OF prepare(2)] show ?thesis
      by (intro abandoned_late [OF p, where late = "preparation_calls input"]) auto
  next
    case (commit c3 extra c4)
    then have "refused env (calls c')" by simp
    with commit asked run_preparation [OF commit(2)] show ?thesis
      by (intro abandoned_late [OF p, where late = "preparation_calls input @ [Commit]"]) simp_all
  qed
qed

text \<open>
  What a search and its environment exchange after the request has been prepared: the planning; then
  one search transaction that is committed and whose answer is the response; or, when the plan was
  ready and the search has no token allowance, an abandoned attempt first, and a committed search
  transaction without vectors after it.
\<close>

definition search_exchange ::
    "library \<Rightarrow> env \<Rightarrow> bytes \<Rightarrow> caller \<Rightarrow> str \<Rightarrow> search_input \<Rightarrow> call list \<Rightarrow> search_response
      \<Rightarrow> call list \<Rightarrow> bool" where
  "search_exchange lib env digest reader request_id input h found h' =
     (\<exists>plan h1. planning lib env digest reader input h plan h1
        \<and> (search_answer lib env digest reader request_id input plan h1 found h'
           \<or> context_token_budget input = None \<and> (\<exists>generation vector. plan = Ready generation vector)
             \<and> (\<exists>h2. abandoned lib env digest reader request_id input plan h1 h2
                  \<and> search_answer lib env digest reader request_id input
                      (Pending ''semantic_unavailable'') h2 found h')))"

lemma exchange_answer:
  assumes "search_exchange lib env digest reader i input h found h'"
  obtains plan h1 where "public_plan plan"
    "search_answer lib env digest reader i input plan h1 found h'"
proof -
  have "public_plan (Pending ''semantic_unavailable'')" by (simp add: public_diagnostics_def)
  with assms that planning_public show ?thesis unfolding search_exchange_def by blast
qed

lemma run_search_prepared:
  assumes "search_prepared lib i p env c = (Finished (Inr found), c')"
  shows "search_exchange lib env (ps_digest p) (ps_reader p) i (ps_input p) (calls c) found (calls c')"
proof -
  let ?run = "search_memories_in_database lib (ps_digest p) (ps_reader p) (ps_input p) i"
  from assms obtain plan c1 first c2 where
    m: "(if semantic (ps_input p) then make_semantic_plan lib (ps_digest p) (ps_reader p)
          (query (ps_input p)) (scope (ps_input p)) (semantic_query (ps_input p))
        else give NotRequested) env c = (Finished plan, c1)" and
    f: "?run plan env c1 = (Finished first, c2)" and
    k: "(if retry_lexically (ps_input p) plan first then ?run (Pending ''semantic_unavailable'')
        else give first) env c2 = (Finished (Inr found), c')"
    unfolding search_prepared_def Let_def by (auto simp only: run_andthen)
  note plan = run_make_plan [OF m]
  show ?thesis
  proof (cases "retry_lexically (ps_input p) plan first")
    case True
    then obtain e g v where "first = Inl e" "context_token_budget (ps_input p) = None" "plan = Ready g v"
      by (auto simp: retry_lexically_def permits_semantic_fallback_def split: sum.splits semantic_plan.splits)
    moreover from True k have "?run (Pending ''semantic_unavailable'') env c2 = (Finished (Inr found), c')"
      by simp
    ultimately show ?thesis
      unfolding search_exchange_def
      using plan run_search_database [of lib "ps_digest p" "ps_reader p" "ps_input p" i _ env c2 found c']
        run_search_database_fails [of lib "ps_digest p" "ps_reader p" "ps_input p" i plan env c1 e c2] f
      by metis
  next
    case False
    with k f have "?run plan env c1 = (Finished (Inr found), c')" by (simp add: run_give)
    with plan run_search_database show ?thesis unfolding search_exchange_def by blast
  qed
qed

text \<open>The calls that identify the caller and read the body.\<close>

definition search_preamble :: "bytes \<Rightarrow> call list" where
  "search_preamble digest =
     authentication_calls ''resolve_current_reader'' digest ''search'' @ [Read_Body SEARCH_BODY_LIMIT]"

lemma run_prepare_search:
  assumes "prepare_search lib req limits env c = (Finished (Inr p), c')" and "calls c = []"
  shows "\<exists>token body. bearer_token req = Some token \<and> ps_digest p = sha256_of lib token
    \<and> uri_query req = None \<and> has_json_content_type req
    \<and> resolved_as env (butlast (authentication_calls ''resolve_current_reader'' (ps_digest p) ''search''))
        (ps_reader p)
    \<and> calls c' = search_preamble (ps_digest p)
    \<and> on_body env (calls c') = Inr body \<and> decode_prepared lib limits body = Inr (ps_input p)"
proof -
  from assms(1) obtain token where t: "bearer_token req = Some token"
    by (cases "bearer_token req") (simp_all add: prepare_search_def effect_simps)
  with assms(1) obtain c1 c2 body where
    a: "authenticated (authenticate_reader (sha256_of lib token) ''search'') env c
        = (Finished (Inr (ps_reader p)), c1)" and
    q: "uri_query req = None" "has_json_content_type req" and
    b: "bounded_body SEARCH_BODY_LIMIT env c1 = (Finished (Inr body), c2)" and
    l: "decode_prepared lib limits body = Inr (ps_input p)" "ps_digest p = sha256_of lib token"
      "c' = c2"
    unfolding prepare_search_def Let_def
    by (auto simp: effect_simps result_simps split: if_splits)
  show ?thesis
    using t l q run_authenticated [OF a [unfolded authenticate_reader_def]] run_bounded_body [OF b]
      assms(2) by (auto simp: search_preamble_def)
qed

lemma search_memories_handle:
  "search_memories lib limits request_id req =
     handle (prepare_search lib req limits) (search_prepared lib request_id) ps_digest (\<lambda>_. None)
       SearchOp (\<lambda>_. 200) request_id"
  by (simp add: search_memories_def handle_def)

lemma run_search_memories:
  assumes "search_memories lib limits i req env fresh = (Finished (Success st found), c')"
  obtains p c1 where "prepare_search lib req limits env fresh = (Finished (Inr p), c1)"
    "search_prepared lib i p env c1 = (Finished (Inr found), c')" "st = 200"
  using assms unfolding search_memories_handle by (rule run_handle_success)

lemma decode_prepared_ok:
  assumes "limits_ok limits" and "decode_prepared lib limits body = Inr input"
  shows "search_input_ok input limits
    \<and> (\<exists>b. input_context_bytes input = Some b \<and> 1 \<le> b \<and> b \<le> max_context_bytes limits)"
proof -
  from assms(2) have "validate_search_input_with_limits input limits = Inr ()"
    "input_context_bytes input \<noteq> None"
    by (auto simp: decode_prepared_def Let_def result_simps split: if_splits)
  then show ?thesis
    using validate_search_input_iff [OF assms(1)] by (auto simp: search_input_ok_def)
qed

section \<open>Properties\<close>

text \<open>
  C2. A successful search, call by call: the request carried a bearer token, no query string and a
  JSON body; the caller is the one the database resolved for the digest of that token; the body
  decoded to an input within the documented limits. The calls are those of one authentication and
  one body read; of the planning, if the search has a semantic part; and of one committed search
  transaction, before which at most one attempt was abandoned, and only if its plan was ready and
  the search has no token allowance. The plan is the one that the readiness row of a committed
  planning transaction allows, or to do without vectors when the planning was refused or late; a
  ready plan is used only if the row of the recheck still names its generation as ready. The
  response is what packing makes of the rows that the search function of the effective plan
  returned for that caller and that input, with the diagnostics of that plan.
\<close>

theorem search_memories_exact:
  assumes "limits_ok limits"
    and "search_memories lib limits request_id req env fresh = (Finished (Success st found), c')"
  shows "st = 200
    \<and> (\<exists>token reader body input. bearer_token req = Some token
        \<and> uri_query req = None \<and> has_json_content_type req
        \<and> (let digest = sha256_of lib token in
           resolved_as env
             (butlast (authentication_calls ''resolve_current_reader'' digest ''search'')) reader
           \<and> on_body env (search_preamble digest) = Inr body
           \<and> decode_prepared lib limits body = Inr input \<and> search_input_ok input limits
           \<and> search_exchange lib env digest reader request_id input (search_preamble digest) found
               (calls c')))"
proof -
  obtain p c1 where p: "prepare_search lib req limits env fresh = (Finished (Inr p), c1)"
    and r: "search_prepared lib request_id p env c1 = (Finished (Inr found), c')" and "st = 200"
    using assms(2) by (rule run_search_memories)
  obtain token body where t: "bearer_token req = Some token" "ps_digest p = sha256_of lib token"
    "uri_query req = None" "has_json_content_type req"
    "resolved_as env (butlast (authentication_calls ''resolve_current_reader'' (ps_digest p) ''search''))
        (ps_reader p)"
    "calls c1 = search_preamble (ps_digest p)" "on_body env (calls c1) = Inr body"
    "decode_prepared lib limits body = Inr (ps_input p)"
    using run_prepare_search [OF p] by (auto simp: fresh_def)
  with run_search_prepared [OF r] decode_prepared_ok [OF assms(1) t(8)] \<open>st = 200\<close> show ?thesis
    unfolding Let_def
    by (intro conjI exI [of _ token] exI [of _ "ps_reader p"] exI [of _ body]
        exI [of _ "ps_input p"]) simp_all
qed

text \<open>The search functions of the database.\<close>

definition search_functions :: "str set" where
  "search_functions =
     {''search_hybrid_current_memories'', ''search_current_memories'',
      ''search_current_memories_disjunctive_v2'', ''search_current_memories_disjunctive_v3''}"

lemma search_function_known: "search_function plan mode \<in> search_functions"
  by (cases plan) (simp_all add: search_function_def search_functions_def)

definition last_search :: "env \<Rightarrow> call list \<Rightarrow> pg_row list \<Rightarrow> bool" where
  "last_search env cs rows =
     (\<exists>pre f ps post. cs = pre @ [Query f ps] @ post \<and> f \<in> search_functions
        \<and> on_rows env (pre @ [Query f ps]) = Inr rows
        \<and> statements search_functions post = 0)"

lemma answer_last_search:
  assumes "search_answer lib env digest reader i input plan h found h'"
  shows "\<exists>rows status permits joined short.
    last_search env h' rows
    \<and> pack_rows_for lib input status rows permits joined
        = Inr ((sr_items found, sr_context_bytes found, short), sr_context found)"
proof -
  obtain effective rows where
    r: "on_rows env (h @ search_calls digest reader i input plan effective) = Inr rows" and
    p: "\<exists>permits joined. pack_rows_for lib input (plan_status effective) rows permits joined
          = Inr ((sr_items found, sr_context_bytes found, sr_truncated found), sr_context found)" and
    h: "h' = (h @ search_calls digest reader i input plan effective) @ preparation_calls input @ [Commit]"
    using assms unfolding search_answer_def Let_def by auto
  have "last_search env h' rows"
    unfolding last_search_def
  proof (intro exI conjI)
    show "h' = (h @ read_transaction_calls digest ''search'' (tenant_id reader)
          @ recheck_calls reader (scope input) plan)
        @ [Query (search_function effective (query_mode input)) (search_params reader i input effective)]
        @ preparation_calls input @ [Commit]"
      by (simp add: h search_calls_def)
    show "statements search_functions (preparation_calls input @ [Commit]) = 0"
      by (simp add: statements_def preparation_calls_def search_functions_def)
  qed (use r in \<open>simp_all add: search_function_known search_calls_def\<close>)
  with p show ?thesis by blast
qed

lemma answer_warnings:
  assumes "search_answer lib env digest reader i input plan h found h'" and "public_plan plan"
  shows "set (sr_warnings found) \<subseteq> public_diagnostics"
proof -
  obtain effective rows extra where e: "public_plan effective"
    "sr_warnings found = plan_diagnostics effective (rows = ([] :: pg_row list)) @ extra"
    "set extra \<subseteq> {''lexical_disjunction_fallback''}"
    using assms(1) current_public [OF _ assms(2)] lexical_outcome_closed
    unfolding search_answer_def Let_def by blast
  moreover have "''lexical_disjunction_fallback'' \<in> public_diagnostics"
    by (simp add: public_diagnostics_def)
  ultimately show ?thesis
    using public_plan_diagnostics [of effective "rows = []"] by auto
qed

text \<open>
  C1. The limits hold end to end: whatever the database answers and whatever the caller asked for, a
  successful search has at most twelve items, their excerpts add up to the reported context bytes
  and stay within the operator's maximum, no passage is quoted twice, no source contributes more
  than four passages, every item is a faithful reading of a row of the last search statement, in
  rank order, and every warning is one of the public diagnostics.
\<close>

theorem search_memories_limits:
  assumes "limits_ok limits"
    and "search_memories lib limits request_id req env fresh = (Finished (Success st found), c')"
  shows "length (sr_items found) \<le> 12
    \<and> sr_context_bytes found = sum_list (map (\<lambda>i. length (excerpt i)) (sr_items found))
    \<and> sr_context_bytes found \<le> unat (max_context_bytes limits)
    \<and> distinct (passages_of (sr_items found))
    \<and> (\<forall>source. from_source source (sr_items found) \<le> 4)
    \<and> (\<exists>rows chosen status. last_search env (calls c') rows \<and> subseq chosen rows
        \<and> list_all2 (item_of_row lib status) chosen (sr_items found))
    \<and> set (sr_warnings found) \<subseteq> public_diagnostics"
proof -
  obtain p c1 where p: "prepare_search lib req limits env fresh = (Finished (Inr p), c1)"
    and r: "search_prepared lib request_id p env c1 = (Finished (Inr found), c')"
    using assms(2) by (rule run_search_memories)
  from run_prepare_search [OF p] obtain body where
    "decode_prepared lib limits body = Inr (ps_input p)" by (auto simp: fresh_def)
  from decode_prepared_ok [OF assms(1) this] obtain b where
    b: "input_context_bytes (ps_input p) = Some b" "b \<le> max_context_bytes limits" by blast
  obtain plan h where a: "public_plan plan"
    "search_answer lib env (ps_digest p) (ps_reader p) request_id (ps_input p) plan h found (calls c')"
    using run_search_prepared [OF r] by (rule exchange_answer)
  obtain rows status permits joined short where l: "last_search env (calls c') rows"
    and k: "pack_rows_for lib (ps_input p) status rows permits joined
        = Inr ((sr_items found, sr_context_bytes found, short), sr_context found)"
    using answer_last_search [OF a(2)] by blast
  have "sound_packing lib status (unat b) rows (sr_items found) (sr_context_bytes found)"
    using sound_pack_rows_for [OF k] b(1) by simp
  moreover have "unat b \<le> unat (max_context_bytes limits)"
    using b(2) by (simp add: word_le_nat_alt)
  ultimately show ?thesis
    using l answer_warnings [OF a(2,1)] unfolding sound_packing_def by auto
qed

section \<open>Counting search statements\<close>

lemma search_functions_others [simp]:
  "''resolve_current_reader'' \<notin> search_functions" "''semantic_readiness'' \<notin> search_functions"
  "''record_request_rejection'' \<notin> search_functions" "''current_setting'' \<notin> search_functions"
  by (simp_all add: search_functions_def)

lemma search_function_other [simp]: "search_function plan mode \<noteq> ''record_request_rejection''"
  using search_function_known [of plan mode] by auto

lemma quiet_recheck: "issues search_functions 0 (recheck_plan reader subjects plan)"
  unfolding recheck_plan_def by (auto intro!: quiet split: semantic_plan.split)

lemma quiet_preparation: "issues search_functions 0 (preparation_warnings input)"
  unfolding preparation_warnings_def by (auto intro!: quiet)

lemma issues_search_database:
  "issues search_functions 1 (search_memories_in_database lib digest reader input i plan)"
  unfolding search_memories_in_database_def
  by (rule quiet_try [OF quiet_open_read], rule quiet_try [OF quiet_recheck],
      rule last_try [OF issues_or_err [OF issues_queries(3)]])
    (auto intro!: quiet quiet_preparation split: prod.split)

lemma quiet_make_plan:
  "issues search_functions 0 (make_semantic_plan lib digest reader question subjects external)"
  unfolding make_semantic_plan_def query_readiness_def by (intro quiet) simp_all

lemma quiet_plan:
  "issues search_functions 0
     (if b then make_semantic_plan lib digest reader question subjects external else give NotRequested)"
  by (simp add: quiet_make_plan issues_none)

lemma issues_search_prepared:
  "issues search_functions 2 (search_prepared lib i p)"
proof -
  have "issues search_functions (1 + 1) (search_prepared lib i p)"
    unfolding search_prepared_def Let_def
    by (intro quiet_andthen [OF quiet_plan] issues_andthen issues_search_database)
      (simp add: issues_search_database [simplified] issues_none)
  then show ?thesis by (simp only: one_add_one)
qed

lemma issues_search_once:
  assumes "\<not> semantic (ps_input p) \<or> context_token_budget (ps_input p) \<noteq> None"
  shows "issues search_functions 1 (search_prepared lib i p)"
proof (cases "semantic (ps_input p)")
  case True
  with assms have "\<not> retry_lexically (ps_input p) plan first" for plan first
    by (auto simp: retry_lexically_def permits_semantic_fallback_def split: sum.split)
  then show ?thesis
    unfolding search_prepared_def Let_def
    by (intro quiet_andthen [OF quiet_plan] last_andthen [OF issues_search_database])
      (simp add: issues_none)
next
  case False
  have "\<not> retry_lexically (ps_input p) NotRequested first" for first
    by (simp add: retry_lexically_def)
  with False have "search_prepared lib i p =
      andthen (give NotRequested) (\<lambda>plan. andthen (search_memories_in_database lib (ps_digest p)
        (ps_reader p) (ps_input p) i NotRequested) give)"
    by (simp add: search_prepared_def Let_def fun_eq_iff andthen_def give_def)
  then show ?thesis
    by (simp only:) (intro quiet_andthen last_andthen issues_none issues_search_database)
qed

lemma quiet_search_database:
  "quiet_log (search_memories_in_database lib digest reader input i plan)"
  unfolding search_memories_in_database_def recheck_plan_def preparation_warnings_def
  by (intro quiet_try [OF quiet_open_read] quiet_try)
    (auto intro!: quiet simp: search_function_def split: semantic_plan.split prod.split)

lemma quiet_search_prepared: "quiet_log (search_prepared lib i p)"
  unfolding search_prepared_def make_semantic_plan_def query_readiness_def Let_def
  by (auto intro!: quiet quiet_search_database)

lemma quiet_prepare_search: "issues search_functions 0 (prepare_search lib req limits)"
  unfolding prepare_search_def authenticate_reader_def Let_def
  by (auto intro!: quiet quiet_authenticate quiet_bounded_body split: option.split)

text \<open>
  C31. The database is asked for a search at most twice: however a search request ends, it makes at
  most two search statements, and a request in token mode or without a semantic part at most one.
  There is no second attempt after a token-mode failure.
\<close>

theorem search_memories_statements:
  assumes "search_memories lib limits request_id req env fresh = (out, c')"
  shows "statements search_functions (calls c') \<le> 2
    \<and> ((\<forall>token body input. bearer_token req = Some token
          \<and> on_body env (search_preamble (sha256_of lib token)) = Inr body
          \<and> decode_prepared lib limits body = Inr input
          \<longrightarrow> \<not> semantic input \<or> context_token_budget input \<noteq> None)
       \<longrightarrow> statements search_functions (calls c') \<le> 1)"
proof -
  obtain o1 c1 where p: "prepare_search lib req limits env fresh = (o1, c1)" by fastforce
  have z: "statements search_functions (calls c1) = 0"
    using issuesD [OF quiet_prepare_search p] by (simp add: fresh_def)
  show ?thesis
  proof (cases "\<exists>prepared. o1 = Finished (Inr prepared)")
    case False
    then have "statements search_functions (calls c') = 0"
      using assms p z issuesD [OF quiet_finish [of search_functions]]
      by (cases o1) (fastforce simp: search_memories_def andthen_def split: sum.splits)+
    then show ?thesis by simp
  next
    case True
    then obtain prepared where pr: "prepare_search lib req limits env fresh = (Finished (Inr prepared), c1)"
      using p by blast
    let ?rest = "andthen (search_prepared lib request_id prepared) (\<lambda>result.
             case result of
               Inl failure \<Rightarrow>
                 finish_operation_error request_id failure (Some (ps_digest prepared)) None SearchOp
             | Inr found \<Rightarrow> give (Success 200 found))"
    have r: "?rest env c1 = (out, c')"
      using assms pr by (simp add: search_memories_def andthen_def)
    have k: "issues search_functions k ?rest" if "issues search_functions k (search_prepared lib request_id prepared)" for k
      by (rule last_andthen [OF that]) (auto intro: quiet_finish issues_none split: sum.split)
    have "statements search_functions (calls c') \<le> 2"
      using issuesD [OF k [OF issues_search_prepared] r] z by simp
    moreover have "statements search_functions (calls c') \<le> 1"
      if "\<not> semantic (ps_input prepared) \<or> context_token_budget (ps_input prepared) \<noteq> None"
      using issuesD [OF k [OF issues_search_once [OF that]] r] z by simp
    moreover note run_prepare_search [OF pr]
    ultimately show ?thesis by (fastforce simp: fresh_def)
  qed
qed

section \<open>Discipline and completion\<close>

lemma disciplined_readiness:
  assumes "resolved s = Some reader"
  shows "disciplined env (Some digest) s (query_readiness digest reader subjects) (\<lambda>_ _. True)"
  unfolding query_readiness_def fetch_one_def
  by (intro raw_steps sessions.give) (use assms in \<open>simp_all add: statement_legal_def for_caller_def\<close>)

lemma disciplined_make_plan:
  assumes "resolved s = Some reader"
  shows "disciplined env (Some digest) s
    (if b then make_semantic_plan lib digest reader question subjects external else give NotRequested)
    (\<lambda>_ t. resolved t = Some reader)"
proof (rule disciplined_resolved)
  show "disciplined env (Some digest) s
      (if b then make_semantic_plan lib digest reader question subjects external else give NotRequested)
      (\<lambda>_ _. True)"
    unfolding make_semantic_plan_def
    by (auto intro!: sessions.andthen sessions.give sessions.timeout
        sessions.weaken [OF disciplined_readiness [OF assms]])
qed (use assms in auto)

lemma prepares_search:
  "prepares env (map_option (sha256_of lib) (bearer_token req)) ps_digest
     (\<lambda>p who. who = Some (ps_reader p)) (prepare_search lib req limits)"
  unfolding prepare_search_def authenticate_reader_def Let_def
  by (rule prepares_by_token,
      intro sessions.try_then disciplined_authenticated conjI allI impI sessions.give disciplined_body)
    (auto simp: resolvers_def intro!: sessions.give)

lemma disciplined_recheck:
  assumes "opened_for digest reader s" and "\<And>e t. Q (Inl e) t"
    and "\<And>p t. opened_for digest reader t \<Longrightarrow> Q (Inr p) t"
  shows "disciplined env (Some digest) s (recheck_plan reader subjects plan) Q"
  unfolding recheck_plan_def fetch_one_def
  by (cases plan)
   (auto intro!: transaction_steps sessions.give assms opened_legal)

lemma disciplined_preparation:
  assumes "opened_for digest reader s" and "\<And>e t. Q (Inl e) t"
    and "\<And>p t. opened_for digest reader t \<Longrightarrow> Q (Inr p) t"
  shows "disciplined env (Some digest) s (preparation_warnings input) Q"
proof -
  have g: "disciplined env (Some digest) t (give (lexical_warnings status)) Q"
    if "opened_for digest reader t" for t status
    using that assms(2,3) by (cases "lexical_warnings status") (auto intro: sessions.give)
  show ?thesis
    unfolding preparation_warnings_def fetch_scalar_def
    using assms by (auto intro!: step_query sessions.give g opened_legal)
qed

lemma disciplined_search_database:
  assumes "resolved s = Some reader"
  shows "disciplined env (Some digest) s
    (search_memories_in_database lib digest reader input i plan) (\<lambda>_ _. True)"
proof -
  have finish: "disciplined env (Some digest) t
      (try_then (give packed) (\<lambda>((its, used, short), ctx).
       try_then (preparation_warnings input) (\<lambda>extra.
       try_then (or_err Storage commit) (\<lambda>_.
         give (Inr (k its used short ctx extra)))))) (\<lambda>_ _. True)"
    if "opened_for digest reader t"
    for t packed and k :: "search_item list \<Rightarrow> nat \<Rightarrow> bool \<Rightarrow> token_context option \<Rightarrow> str list \<Rightarrow> search_response"
    using that
    by (intro step_give)
      (auto intro!: sessions.try_then disciplined_preparation sessions.or_err session_commit
        sessions.give intro: opened_some split: prod.split)
  show ?thesis
    unfolding search_memories_in_database_def fetch_all_def search_params_def
    using assms
    by (intro step_open_read sessions.try_then disciplined_recheck)
      (auto intro!: step_query sessions.andthen sessions.observe finish opened_legal)
qed

lemma disciplined_search_prepared:
  assumes "resolved s = Some (ps_reader p)"
  shows "disciplined env (Some (ps_digest p)) s (search_prepared lib i p) (\<lambda>_ _. True)"
proof -
  let ?run = "search_memories_in_database lib (ps_digest p) (ps_reader p) (ps_input p) i"
  have run: "disciplined env (Some (ps_digest p)) t (?run plan)
      (\<lambda>_ t. resolved t = Some (ps_reader p))" if "resolved t = Some (ps_reader p)" for t plan
    using that by (intro disciplined_resolved disciplined_search_database) auto
  show ?thesis
    unfolding search_prepared_def Let_def
    by (rule sessions.andthen, rule sessions.weaken [OF disciplined_make_plan [OF assms]],
        rule sessions.andthen, rule sessions.weaken [OF run])
      (auto intro: disciplined_search_database sessions.give)
qed

interpretation search_route: prepared_route "sha256_of lib" "\<lambda>req. prepare_search lib req limits"
  "search_prepared lib" ps_digest "\<lambda>_. None" "\<lambda>p who. who = Some (ps_reader p)" SearchOp "\<lambda>_. 200"
  for lib limits
proof
  fix req i p env and s :: session
  show "bearer_token req = None \<Longrightarrow>
      prepare_search lib req limits = give (Inl (unattributed Unauthenticated))"
    by (simp add: prepare_search_def)
  show "finishes (prepare_search lib req limits)" "grows (prepare_search lib req limits)"
    unfolding prepare_search_def authenticate_reader_def Let_def
    by (auto split: option.split intro!: finishes_try grows_try)
  show "finishes (search_prepared lib i p)"
    unfolding search_prepared_def search_memories_in_database_def make_semantic_plan_def
      recheck_plan_def preparation_warnings_def Let_def
    by (auto split: semantic_plan.split prod.split intro!: finishes_andthen finishes_try)
  show "grows (search_prepared lib i p)"
    unfolding search_prepared_def Let_def by (auto intro!: grows_andthen)
  show "prepares env (map_option (sha256_of lib) (bearer_token req)) ps_digest
      (\<lambda>p who. who = Some (ps_reader p)) (prepare_search lib req limits)"
    by (rule prepares_search)
  show "disciplined env (Some (ps_digest p)) s (search_prepared lib i p) (\<lambda>_ _. True)"
    if "resolved s = Some (ps_reader p)"
    using that by (rule disciplined_search_prepared)
  show "quiet_log (prepare_search lib req limits)"
    unfolding prepare_search_def authenticate_reader_def Let_def
    by (auto split: option.split intro!: quiet quiet_authenticate quiet_bounded_body)
  show "quiet_log (search_prepared lib i p)"
    by (rule quiet_search_prepared)
qed simp

section \<open>A search\<close>

definition search_library :: library where
  "search_library = sample_library\<lparr>decode_search :=
     (\<lambda>_. Inr \<lparr>query = ''a'', query_mode = BoundedV1, semantic = False, semantic_query = None,
        scope = None, input_context_bytes = Some 10, context_token_budget = None,
        input_time_mode = Current\<rparr>)\<rparr>"

definition search_script :: env where
  "search_script = scripted
     (\<lambda>f. if f = ''resolve_current_reader'' then Some caller_row else None)
     (\<lambda>_. [sample_row ''passage'' ''p1'' [] ''abcd'']) ''{}''"

definition small_limits :: search_limits where
  "small_limits = \<lparr>default_context_bytes = 8, max_context_bytes = 16\<rparr>"


lemma pack_ok: "pack_search_rows search_library [sample_row ''passage'' ''p1'' [] ''abcd''] 10 ''not_requested'' None
     = Inr (([(sample_passage ''lexical'' ''p1'' ''abcd'')\<lparr>semantic_status := ''not_requested''\<rparr>], 4, False), None)"
  by code_simp

lemma decoded: "decode_prepared search_library small_limits ''{}''
  = Inr \<lparr>query = ''a'', query_mode = BoundedV1, semantic = False, semantic_query = None,
        scope = None, input_context_bytes = Some 10, context_token_budget = None,
        input_time_mode = Current\<rparr>"
proof -
  have "\<not> trim_is_empty ''a''" by code_simp
  then show ?thesis
    by (simp add: decode_prepared_def guard_ok search_library_def default_search_context_bytes_def
      validate_search_input_with_limits_def small_limits_def contains_nul_def)
qed

lemma sample_search_run:
  "fst (search_memories search_library small_limits ''id'' (sample_request None None) search_script fresh)
   = Finished (Success 200 \<lparr>sr_request_id = ''id'', sr_status = ''ready'',
       sr_items = [(sample_passage ''lexical'' ''p1'' ''abcd'')\<lparr>semantic_status := ''not_requested''\<rparr>],
       sr_context_bytes = 4, sr_truncated = False, sr_warnings = [], sr_context = None\<rparr>)"
proof -
  have u: "uri_query (sample_request None None) = None" by (simp add: sample_request_def)
  show ?thesis
    unfolding search_memories_def prepare_search_def token_ok
    by (simp add: json_ok u decoded pack_ok run_simps search_script_def authenticated_def
      authenticate_reader_def authenticate_def bounded_body_def caller_columns
      search_prepared_def search_memories_in_database_def open_read_transaction_def recheck_plan_def
      pack_rows_for_def preparation_warnings_def retry_lexically_def plan_diagnostics_def
      search_function_def)
qed


definition sample_response :: search_response where
  "sample_response = \<lparr>sr_request_id = ''id'', sr_status = ''ready'',
       sr_items = [(sample_passage ''lexical'' ''p1'' ''abcd'')\<lparr>semantic_status := ''not_requested''\<rparr>],
       sr_context_bytes = 4, sr_truncated = False, sr_warnings = [], sr_context = None\<rparr>"

lemma sample_search:
  "\<exists>c'. search_memories search_library small_limits ''id'' (sample_request None None) search_script
     fresh = (Finished (Success 200 sample_response), c')"
  using sample_search_run unfolding sample_response_def by (metis prod.collapse)

lemma small_limits_ok: "limits_ok small_limits"
  by (simp add: limits_ok_def small_limits_def)

theorem search_memories_exact_witness:
  "limits_ok small_limits
   \<and> (\<exists>input h'. search_input_ok input small_limits
        \<and> search_exchange search_library search_script (replicate 32 CHR 0x00)
            \<lparr>tenant_id = ''t1'', credential_id = ''c1''\<rparr> ''id'' input
            (search_preamble (replicate 32 CHR 0x00)) sample_response h')"
proof -
  obtain c' where r: "search_memories search_library small_limits ''id'' (sample_request None None)
      search_script fresh = (Finished (Success 200 sample_response), c')"
    using sample_search by blast
  have d: "sha256_of search_library t = replicate 32 CHR 0x00" for t
    by (simp add: search_library_def sample_library_def)
  have who: "reader = \<lparr>tenant_id = ''t1'', credential_id = ''c1''\<rparr>"
    if "resolved_as search_script (butlast (authentication_calls ''resolve_current_reader'' x ''search''))
          reader" for reader :: caller and x
    using that caller_columns
    by (cases reader)
      (auto simp: resolved_as_def authentication_calls_def search_script_def scripted_def
        last_statement_def column_def result_simps)
  from search_memories_exact [OF small_limits_ok r] small_limits_ok show ?thesis
    unfolding d Let_def using who by metis
qed

theorem search_memories_limits_witness:
  "\<exists>c' :: ctx. \<exists>rows. last_search search_script (calls c') rows
     \<and> sr_context_bytes sample_response \<le> unat (max_context_bytes small_limits)"
proof -
  obtain c' where r: "search_memories search_library small_limits ''id'' (sample_request None None)
      search_script fresh = (Finished (Success 200 sample_response), c')"
    using sample_search by blast
  show ?thesis using search_memories_limits [OF small_limits_ok r] by blast
qed

theorem search_memories_statements_witness:
  "\<exists>c'. search_memories search_library small_limits ''id'' (sample_request None None) search_script
      fresh = (Finished (Success 200 sample_response), c')
    \<and> statements search_functions (calls c') \<le> 1"
proof -
  obtain c' where r: "search_memories search_library small_limits ''id'' (sample_request None None)
      search_script fresh = (Finished (Success 200 sample_response), c')"
    using sample_search by blast
  have "\<forall>body input. decode_prepared search_library small_limits body = Inr input \<longrightarrow> \<not> semantic input"
    by (auto simp: decode_prepared_def search_library_def Let_def result_simps split: if_splits)
  with search_memories_statements [OF r] r show ?thesis by blast
qed

end
