(* ===== verification/Write_Path.thy ===== *)
theory Write_Path
  imports Read_Path
begin

text \<open>
  The write routes (\<open>create_memory\<close>, \<open>correct_memory\<close>, \<open>forget_memory\<close> with their preparation
  and database functions in \<open>src/src/lib.rs\<close>). The idempotency key and the canonical request are
  digested before the database sees them; whether a request is a replay is the database's answer.
\<close>

section \<open>Prepared writes\<close>

text \<open>
  \<open>PreparedCreate\<close> is \<open>create_memory_input prepared_write\<close>; \<open>PreparedCorrect\<close> and
  \<open>PreparedForget\<close> are \<open>prepared_item_write\<close>, which adds the item identifier.
\<close>

record 'i prepared_write =
  pw_digest :: bytes
  pw_writer :: caller
  pw_key_digest :: bytes
  pw_request_digest :: bytes
  pw_input :: 'i

record 'i prepared_item_write = "'i prepared_write" +
  pw_item_id :: str

definition CREATE_BODY_LIMIT :: nat where
  "CREATE_BODY_LIMIT = 64 * 1024"

definition prepare_create ::
    "library \<Rightarrow> http_request \<Rightarrow> (request_rejection + create_memory_input prepared_write) prog" where
  "prepare_create lib req =
     (case bearer_token req of
        None \<Rightarrow> give (Inl (unattributed Unauthenticated))
      | Some token \<Rightarrow>
          let digest = sha256_of lib token in
          or_err (\<lambda>e. attributed e digest)
            (try_then (authenticated (authenticate_writer digest ''create'')) (\<lambda>writer.
             try_then (give (if uri_query req \<noteq> None \<or> \<not> has_json_content_type req
                             then Inl Malformed else Inr ())) (\<lambda>_.
             try_then (give (ok_or Malformed (idempotency_key req))) (\<lambda>key.
             let key_digest = sha256_of lib key in
             try_then (bounded_body CREATE_BODY_LIMIT) (\<lambda>body.
             try_then (give (parse_create_body lib body)) (\<lambda>(input, request_digest).
               give (Inr \<lparr>pw_digest = digest, pw_writer = writer, pw_key_digest = key_digest,
                          pw_request_digest = request_digest, pw_input = input\<rparr>))))))))"

text \<open>The path, query and content-type checks of the two item routes.\<close>

definition item_request :: "http_request \<Rightarrow> request_failure + str" where
  "item_request req =
     res_bind (ok_or Malformed (path_item req)) (\<lambda>item.
       if uri_query req \<noteq> None \<or> \<not> valid_opaque_id item \<or> \<not> has_json_content_type req
       then Inl Malformed else Inr item)"

definition item_path :: "str \<Rightarrow> str" where
  "item_path item = ''/v1/items/'' @ item"

definition prepare_correct ::
    "library \<Rightarrow> http_request
      \<Rightarrow> (request_rejection + correct_memory_input prepared_item_write) prog" where
  "prepare_correct lib req =
     (case bearer_token req of
        None \<Rightarrow> give (Inl (unattributed Unauthenticated))
      | Some token \<Rightarrow>
          let digest = sha256_of lib token in
          or_err (\<lambda>e. attributed e digest)
            (try_then (authenticated (authenticate_writer digest ''correct'')) (\<lambda>writer.
             try_then (give (item_request req)) (\<lambda>item.
             try_then (give (ok_or Malformed (idempotency_key req))) (\<lambda>key.
             try_then (bounded_body CREATE_BODY_LIMIT) (\<lambda>body.
             try_then (give (parse_correct_body lib body)) (\<lambda>input.
             let key_digest = sha256_of lib key in
             try_then (give (map_err JsonBody (encode_correct lib input))) (\<lambda>canonical.
             let request_digest =
               mutation_request_digest (sha256_of lib) ''PUT'' (item_path item) canonical in
               give (Inr \<lparr>pw_digest = digest, pw_writer = writer, pw_key_digest = key_digest,
                          pw_request_digest = request_digest, pw_input = input,
                          pw_item_id = item\<rparr>)))))))))"

definition prepare_forget ::
    "library \<Rightarrow> http_request
      \<Rightarrow> (request_rejection + forget_memory_input prepared_item_write) prog" where
  "prepare_forget lib req =
     (case bearer_token req of
        None \<Rightarrow> give (Inl (unattributed Unauthenticated))
      | Some token \<Rightarrow>
          let digest = sha256_of lib token in
          or_err (\<lambda>e. attributed e digest)
            (try_then (authenticated (authenticate_writer digest ''forget'')) (\<lambda>writer.
             try_then (give (item_request req)) (\<lambda>item.
             try_then (give (ok_or Malformed (idempotency_key req))) (\<lambda>key.
             let key_digest = sha256_of lib key in
             try_then (bounded_body CREATE_BODY_LIMIT) (\<lambda>body.
             try_then (give (parse_forget_body lib body)) (\<lambda>(input, canonical).
             let request_digest =
               mutation_request_digest (sha256_of lib) ''DELETE'' (item_path item) canonical in
               give (Inr \<lparr>pw_digest = digest, pw_writer = writer, pw_key_digest = key_digest,
                          pw_request_digest = request_digest, pw_input = input,
                          pw_item_id = item\<rparr>))))))))"

section \<open>Receipts\<close>

text \<open>\<open>CreateMemory\<close>, the receipt of create and correct; an absent field is left out of the JSON.\<close>

record create_memory_receipt =
  cm_request_id :: "str option"
  cm_status :: "str option"
  cm_operation :: "str option"
  cm_item_id :: "str option"
  cm_revision_id :: "str option"
  cm_operation_id :: str
  cm_completed_at :: str
  cm_replayed :: bool
  cm_lexical_status :: "str option"
  cm_semantic_status :: "str option"

record forget_memory_receipt =
  fm_request_id :: "str option"
  fm_status :: "str option"
  fm_operation :: str
  fm_operation_id :: str
  fm_completed_at :: str
  fm_replayed :: bool

definition then_some :: "bool \<Rightarrow> 'a \<Rightarrow> 'a option" where
  "then_some b a = (if b then Some a else None)"

text \<open>The receipt that create and correct make of the row, under the name of the operation.\<close>

definition write_receipt ::
    "str \<Rightarrow> str \<Rightarrow> pg_row \<Rightarrow> request_failure + create_memory_receipt" where
  "write_receipt operation request_id row =
     res_bind (column get_bool row ''replayed'') (\<lambda>replayed.
     res_bind (column get_opt_text row ''item_id'') (\<lambda>item.
     res_bind (column get_opt_text row ''revision_id'') (\<lambda>revision.
     let forgotten = (item = None) in
     res_bind (column get_text row ''operation_id'') (\<lambda>operation_id.
     res_bind (column get_text row ''completed_at'') (\<lambda>completed_at.
       Inr \<lparr>cm_request_id = then_some (\<not> forgotten) request_id,
            cm_status = then_some (\<not> forgotten) ''ready'',
            cm_operation = then_some forgotten operation,
            cm_item_id = item, cm_revision_id = revision,
            cm_operation_id = operation_id, cm_completed_at = completed_at,
            cm_replayed = replayed,
            cm_lexical_status = then_some (\<not> replayed) ''ready'',
            cm_semantic_status = then_some (\<not> replayed) ''not_requested''\<rparr>)))))"

definition forget_receipt :: "str \<Rightarrow> pg_row \<Rightarrow> request_failure + forget_memory_receipt" where
  "forget_receipt request_id row =
     res_bind (column get_bool row ''replayed'') (\<lambda>replayed.
     res_bind (if \<not> replayed then map_ok Some (column get_text row ''purge_state'') else Inr None)
       (\<lambda>status.
     res_bind (column get_text row ''operation_id'') (\<lambda>operation_id.
     res_bind (column get_text row ''completed_at'') (\<lambda>completed_at.
       Inr \<lparr>fm_request_id = then_some (\<not> replayed) request_id, fm_status = status,
            fm_operation = ''forget'', fm_operation_id = operation_id,
            fm_completed_at = completed_at, fm_replayed = replayed\<rparr>))))"

section \<open>The write transaction\<close>

definition open_write_transaction :: "bytes \<Rightarrow> str \<Rightarrow> (request_failure + unit) prog" where
  "open_write_transaction digest tenant =
     try_then (or_err Storage begin_transaction) (\<lambda>_.
     try_then (or_err Storage (set_local_bytes ''app.credential_digest'' digest)) (\<lambda>_.
     try_then (or_err Storage (set_local ''lock_timeout'' ''250ms'')) (\<lambda>_.
     try_then (or_err Storage (set_local ''statement_timeout'' ''1000ms'')) (\<lambda>_.
     try_then (or_err Storage (set_local ''app.tenant_id'' tenant)) (\<lambda>_.
       give (Inr ()))))))"

definition create_memory_in_database ::
    "bytes \<Rightarrow> caller \<Rightarrow> str \<Rightarrow> bytes \<Rightarrow> bytes \<Rightarrow> create_memory_input
      \<Rightarrow> (request_failure + create_memory_receipt) prog" where
  "create_memory_in_database digest writer request_id key_digest request_digest input =
     try_then (open_write_transaction digest (tenant_id writer)) (\<lambda>_.
     try_then (or_err classify_create_database_error
                 (fetch_one ''create_private_memory''
                   [P_text (tenant_id writer), P_text (credential_id writer), P_text request_id,
                    P_bytes key_digest, P_bytes request_digest, P_text (create_content input),
                    P_texts (create_subjects input), P_opt_text (create_valid_from input),
                    P_opt_text (create_valid_until input)])) (\<lambda>row.
     try_then (give (write_receipt ''create'' request_id row)) (\<lambda>created.
     try_then (or_err Storage commit) (\<lambda>_. give (Inr created)))))"

definition correct_memory_in_database ::
    "bytes \<Rightarrow> caller \<Rightarrow> str \<Rightarrow> bytes \<Rightarrow> bytes \<Rightarrow> str \<Rightarrow> correct_memory_input
      \<Rightarrow> (request_failure + create_memory_receipt) prog" where
  "correct_memory_in_database digest writer request_id key_digest request_digest item input =
     try_then (open_write_transaction digest (tenant_id writer)) (\<lambda>_.
     try_then (or_err classify_create_database_error
                 (fetch_one ''correct_private_memory''
                   [P_text (tenant_id writer), P_text (credential_id writer), P_text request_id,
                    P_bytes key_digest, P_bytes request_digest, P_text item,
                    P_text (correct_expected_revision_id input), P_text (correct_content input),
                    P_texts (correct_subjects input), P_opt_text (correct_valid_from input),
                    P_opt_text (correct_valid_until input)])) (\<lambda>row.
     try_then (give (write_receipt ''correct'' request_id row)) (\<lambda>receipt.
     try_then (or_err Storage commit) (\<lambda>_. give (Inr receipt)))))"

definition forget_memory_in_database ::
    "str \<Rightarrow> forget_memory_input prepared_item_write
      \<Rightarrow> (request_failure + forget_memory_receipt) prog" where
  "forget_memory_in_database request_id p =
     try_then (open_write_transaction (pw_digest p) (tenant_id (pw_writer p))) (\<lambda>_.
     try_then (or_err classify_create_database_error
                 (fetch_one ''forget_private_memory''
                   [P_text (tenant_id (pw_writer p)), P_text (credential_id (pw_writer p)),
                    P_text request_id, P_bytes (pw_key_digest p), P_bytes (pw_request_digest p),
                    P_text (pw_item_id p), P_text (forget_expected_revision_id (pw_input p))]))
       (\<lambda>row.
     try_then (give (forget_receipt request_id row)) (\<lambda>receipt.
     try_then (or_err Storage commit) (\<lambda>_. give (Inr receipt)))))"

section \<open>The handlers\<close>

definition create_memory :: "library \<Rightarrow> str \<Rightarrow> http_request \<Rightarrow> create_memory_receipt response prog" where
  "create_memory lib request_id req =
     andthen (prepare_create lib req) (\<lambda>r.
       case r of
         Inl rejection \<Rightarrow>
           finish_operation_error request_id (rejection_error rejection)
             (rejection_digest rejection) None CreateOp
       | Inr p \<Rightarrow>
           andthen (create_memory_in_database (pw_digest p) (pw_writer p) request_id
                      (pw_key_digest p) (pw_request_digest p) (pw_input p)) (\<lambda>r.
             case r of
               Inl failure \<Rightarrow>
                 finish_operation_error request_id failure (Some (pw_digest p))
                   (Some (pw_key_digest p)) CreateOp
             | Inr created \<Rightarrow>
                 give (Success (if cm_replayed created then 200 else 201) created)))"

definition correct_memory :: "library \<Rightarrow> str \<Rightarrow> http_request \<Rightarrow> create_memory_receipt response prog" where
  "correct_memory lib request_id req =
     andthen (prepare_correct lib req) (\<lambda>r.
       case r of
         Inl rejection \<Rightarrow>
           finish_operation_error request_id (rejection_error rejection)
             (rejection_digest rejection) None CorrectOp
       | Inr p \<Rightarrow>
           andthen (correct_memory_in_database (pw_digest p) (pw_writer p) request_id
                      (pw_key_digest p) (pw_request_digest p) (pw_item_id p) (pw_input p)) (\<lambda>r.
             case r of
               Inl failure \<Rightarrow>
                 finish_operation_error request_id failure (Some (pw_digest p))
                   (Some (pw_key_digest p)) CorrectOp
             | Inr receipt \<Rightarrow> give (Success 200 receipt)))"

definition forget_memory :: "library \<Rightarrow> str \<Rightarrow> http_request \<Rightarrow> forget_memory_receipt response prog" where
  "forget_memory lib request_id req =
     andthen (prepare_forget lib req) (\<lambda>r.
       case r of
         Inl rejection \<Rightarrow>
           finish_operation_error request_id (rejection_error rejection)
             (rejection_digest rejection) None ForgetOp
       | Inr p \<Rightarrow>
           andthen (forget_memory_in_database request_id p) (\<lambda>r.
             case r of
               Inl failure \<Rightarrow>
                 finish_operation_error request_id failure (Some (pw_digest p))
                   (Some (pw_key_digest p)) ForgetOp
             | Inr receipt \<Rightarrow> give (Success 200 receipt)))"

section \<open>Successful runs\<close>

definition write_transaction_calls :: "bytes \<Rightarrow> str \<Rightarrow> call list" where
  "write_transaction_calls digest tenant =
     [Begin, Set_Local_Bytes ''app.credential_digest'' digest, Set_Local ''lock_timeout'' ''250ms'',
      Set_Local ''statement_timeout'' ''1000ms'', Set_Local ''app.tenant_id'' tenant]"

lemma run_open_write:
  "open_write_transaction digest tenant env c = (Finished (Inr u), c') \<Longrightarrow>
     calls c' = calls c @ write_transaction_calls digest tenant \<and> timed c' = timed c"
  unfolding open_write_transaction_def
  by (clarsimp simp: effect_simps write_transaction_calls_def)

text \<open>The calls of a write before its statement, and the three statements.\<close>

definition write_body_calls :: "bytes \<Rightarrow> str \<Rightarrow> call list" where
  "write_body_calls digest operation =
     authentication_calls ''resolve_current_writer'' digest operation @ [Read_Body CREATE_BODY_LIMIT]"

definition create_statement :: "caller \<Rightarrow> str \<Rightarrow> bytes \<Rightarrow> bytes \<Rightarrow> create_memory_input \<Rightarrow> call" where
  "create_statement writer request_id key_digest request_digest input =
     Query ''create_private_memory''
       [P_text (tenant_id writer), P_text (credential_id writer), P_text request_id,
        P_bytes key_digest, P_bytes request_digest, P_text (create_content input),
        P_texts (create_subjects input), P_opt_text (create_valid_from input),
        P_opt_text (create_valid_until input)]"

definition correct_statement ::
    "caller \<Rightarrow> str \<Rightarrow> bytes \<Rightarrow> bytes \<Rightarrow> str \<Rightarrow> correct_memory_input \<Rightarrow> call" where
  "correct_statement writer request_id key_digest request_digest item input =
     Query ''correct_private_memory''
       [P_text (tenant_id writer), P_text (credential_id writer), P_text request_id,
        P_bytes key_digest, P_bytes request_digest, P_text item,
        P_text (correct_expected_revision_id input), P_text (correct_content input),
        P_texts (correct_subjects input), P_opt_text (correct_valid_from input),
        P_opt_text (correct_valid_until input)]"

definition forget_statement ::
    "caller \<Rightarrow> str \<Rightarrow> bytes \<Rightarrow> bytes \<Rightarrow> str \<Rightarrow> forget_memory_input \<Rightarrow> call" where
  "forget_statement writer request_id key_digest request_digest item input =
     Query ''forget_private_memory''
       [P_text (tenant_id writer), P_text (credential_id writer), P_text request_id,
        P_bytes key_digest, P_bytes request_digest, P_text item,
        P_text (forget_expected_revision_id input)]"

text \<open>What one committed write transaction that started with the calls \<open>h\<close> leaves behind.\<close>

definition committed ::
    "env \<Rightarrow> bytes \<Rightarrow> str \<Rightarrow> call \<Rightarrow> (pg_row \<Rightarrow> request_failure + 'x) \<Rightarrow> call list \<Rightarrow> 'x \<Rightarrow> call list \<Rightarrow> bool" where
  "committed env digest tenant statement read h receipt h' =
     (let asked = h @ write_transaction_calls digest tenant @ [statement]
      in h' = asked @ [Commit] \<and> (\<exists>row. on_row env asked = Inr row \<and> read row = Inr receipt))"

lemma run_create_database:
  "create_memory_in_database digest writer i kd rd input env c = (Finished (Inr found), c') \<Longrightarrow>
     committed env digest (tenant_id writer) (create_statement writer i kd rd input)
       (write_receipt ''create'' i) (calls c) found (calls c')"
  unfolding create_memory_in_database_def committed_def create_statement_def Let_def
  by (clarsimp simp: effect_simps dest!: run_open_write)

lemma run_correct_database:
  "correct_memory_in_database digest writer i kd rd item input env c = (Finished (Inr found), c') \<Longrightarrow>
     committed env digest (tenant_id writer) (correct_statement writer i kd rd item input)
       (write_receipt ''correct'' i) (calls c) found (calls c')"
  unfolding correct_memory_in_database_def committed_def correct_statement_def Let_def
  by (clarsimp simp: effect_simps dest!: run_open_write)

lemma run_forget_database:
  "forget_memory_in_database i p env c = (Finished (Inr found), c') \<Longrightarrow>
     committed env (pw_digest p) (tenant_id (pw_writer p))
       (forget_statement (pw_writer p) i (pw_key_digest p) (pw_request_digest p) (pw_item_id p)
          (pw_input p))
       (forget_receipt i) (calls c) found (calls c')"
  unfolding forget_memory_in_database_def committed_def forget_statement_def Let_def
  by (clarsimp simp: effect_simps dest!: run_open_write)

text \<open>
  What the three preparations share: the caller of the token, the digest of the idempotency key and
  the body that was read.
\<close>

definition prepared_by ::
    "library \<Rightarrow> http_request \<Rightarrow> env \<Rightarrow> str \<Rightarrow> bytes \<Rightarrow> caller \<Rightarrow> bytes \<Rightarrow> bytes \<Rightarrow> bool" where
  "prepared_by lib req env operation digest writer key_digest body =
     (\<exists>token key. bearer_token req = Some token \<and> digest = sha256_of lib token
        \<and> idempotency_key req = Some key \<and> key_digest = sha256_of lib key
        \<and> uri_query req = None \<and> has_json_content_type req
        \<and> resolved_as env (butlast (authentication_calls ''resolve_current_writer'' digest operation)) writer
        \<and> on_body env (write_body_calls digest operation) = Inr body)"

lemma run_prepare_create:
  assumes "prepare_create lib req env c = (Finished (Inr p), c')" and "calls c = []"
  shows "\<exists>body. prepared_by lib req env ''create'' (pw_digest p) (pw_writer p) (pw_key_digest p) body
    \<and> parse_create_body lib body = Inr (pw_input p, pw_request_digest p)
    \<and> calls c' = write_body_calls (pw_digest p) ''create''"
proof -
  from assms(1) obtain token where t: "bearer_token req = Some token"
    by (cases "bearer_token req") (simp_all add: prepare_create_def effect_simps)
  with assms(1) obtain c1 key body where
    a: "authenticated (authenticate_writer (sha256_of lib token) ''create'') env c
        = (Finished (Inr (pw_writer p)), c1)" and
    k: "uri_query req = None" "has_json_content_type req" "idempotency_key req = Some key"
      "pw_key_digest p = sha256_of lib key" "pw_digest p = sha256_of lib token" and
    b: "bounded_body CREATE_BODY_LIMIT env c1 = (Finished (Inr body), c')" and
    l: "parse_create_body lib body = Inr (pw_input p, pw_request_digest p)"
    unfolding prepare_create_def Let_def
    by (auto simp: effect_simps result_simps split: if_splits)
  show ?thesis
    using t l k run_authenticated [OF a [unfolded authenticate_writer_def]] run_bounded_body [OF b]
      assms(2) by (auto simp: prepared_by_def write_body_calls_def)
qed

lemma run_prepare_correct:
  assumes "prepare_correct lib req env c = (Finished (Inr p), c')" and "calls c = []"
  shows "\<exists>body canonical.
      prepared_by lib req env ''correct'' (pw_digest p) (pw_writer p) (pw_key_digest p) body
    \<and> parse_correct_body lib body = Inr (pw_input p) \<and> encode_correct lib (pw_input p) = Inr canonical
    \<and> pw_request_digest p
        = mutation_request_digest (sha256_of lib) ''PUT'' (item_path (pw_item_id p)) canonical
    \<and> path_item req = Some (pw_item_id p) \<and> valid_opaque_id (pw_item_id p)
    \<and> calls c' = write_body_calls (pw_digest p) ''correct''"
proof -
  from assms(1) obtain token where t: "bearer_token req = Some token"
    by (cases "bearer_token req") (simp_all add: prepare_correct_def effect_simps)
  with assms(1) obtain c1 key body canonical where
    a: "authenticated (authenticate_writer (sha256_of lib token) ''correct'') env c
        = (Finished (Inr (pw_writer p)), c1)" and
    k: "item_request req = Inr (pw_item_id p)" "idempotency_key req = Some key"
      "pw_key_digest p = sha256_of lib key" "pw_digest p = sha256_of lib token" and
    b: "bounded_body CREATE_BODY_LIMIT env c1 = (Finished (Inr body), c')" and
    l: "parse_correct_body lib body = Inr (pw_input p)" "encode_correct lib (pw_input p) = Inr canonical"
      "pw_request_digest p
        = mutation_request_digest (sha256_of lib) ''PUT'' (item_path (pw_item_id p)) canonical"
    unfolding prepare_correct_def Let_def
    by (auto simp: effect_simps result_simps)
  have i: "path_item req = Some (pw_item_id p)" "valid_opaque_id (pw_item_id p)" "uri_query req = None"
    "has_json_content_type req"
    using k(1) by (auto simp: item_request_def result_simps split: if_splits)
  show ?thesis
    using t l k i run_authenticated [OF a [unfolded authenticate_writer_def]] run_bounded_body [OF b]
      assms(2) by (auto simp: prepared_by_def write_body_calls_def)
qed

lemma run_prepare_forget:
  assumes "prepare_forget lib req env c = (Finished (Inr p), c')" and "calls c = []"
  shows "\<exists>body canonical.
      prepared_by lib req env ''forget'' (pw_digest p) (pw_writer p) (pw_key_digest p) body
    \<and> parse_forget_body lib body = Inr (pw_input p, canonical)
    \<and> pw_request_digest p
        = mutation_request_digest (sha256_of lib) ''DELETE'' (item_path (pw_item_id p)) canonical
    \<and> path_item req = Some (pw_item_id p) \<and> valid_opaque_id (pw_item_id p)
    \<and> calls c' = write_body_calls (pw_digest p) ''forget''"
proof -
  from assms(1) obtain token where t: "bearer_token req = Some token"
    by (cases "bearer_token req") (simp_all add: prepare_forget_def effect_simps)
  with assms(1) obtain c1 key body canonical where
    a: "authenticated (authenticate_writer (sha256_of lib token) ''forget'') env c
        = (Finished (Inr (pw_writer p)), c1)" and
    k: "item_request req = Inr (pw_item_id p)" "idempotency_key req = Some key"
      "pw_key_digest p = sha256_of lib key" "pw_digest p = sha256_of lib token" and
    b: "bounded_body CREATE_BODY_LIMIT env c1 = (Finished (Inr body), c')" and
    l: "parse_forget_body lib body = Inr (pw_input p, canonical)"
      "pw_request_digest p
        = mutation_request_digest (sha256_of lib) ''DELETE'' (item_path (pw_item_id p)) canonical"
    unfolding prepare_forget_def Let_def
    by (auto simp: effect_simps result_simps)
  have i: "path_item req = Some (pw_item_id p)" "valid_opaque_id (pw_item_id p)" "uri_query req = None"
    "has_json_content_type req"
    using k(1) by (auto simp: item_request_def result_simps split: if_splits)
  show ?thesis
    using t l k i run_authenticated [OF a [unfolded authenticate_writer_def]] run_bounded_body [OF b]
      assms(2) by (auto simp: prepared_by_def write_body_calls_def)
qed

lemma create_memory_handle:
  "create_memory lib i req =
     handle (prepare_create lib req)
       (\<lambda>p. create_memory_in_database (pw_digest p) (pw_writer p) i (pw_key_digest p)
              (pw_request_digest p) (pw_input p))
       pw_digest (\<lambda>p. Some (pw_key_digest p)) CreateOp
       (\<lambda>x. if cm_replayed x then 200 else 201) i"
  by (simp add: create_memory_def handle_def)

lemma correct_memory_handle:
  "correct_memory lib i req =
     handle (prepare_correct lib req)
       (\<lambda>p. correct_memory_in_database (pw_digest p) (pw_writer p) i (pw_key_digest p)
              (pw_request_digest p) (pw_item_id p) (pw_input p))
       pw_digest (\<lambda>p. Some (pw_key_digest p)) CorrectOp (\<lambda>_. 200) i"
  by (simp add: correct_memory_def handle_def)

lemma forget_memory_handle:
  "forget_memory lib i req =
     handle (prepare_forget lib req) (forget_memory_in_database i)
       pw_digest (\<lambda>p. Some (pw_key_digest p)) ForgetOp (\<lambda>_. 200) i"
  by (simp add: forget_memory_def handle_def)

lemma parsed_create:
  "parse_create_body lib body = Inr (input, d) \<Longrightarrow>
     content_ok (create_content input) \<and> subjects_ok (create_subjects input)
     \<and> decode_create lib body = Inr input
     \<and> (\<exists>canonical. encode_create lib input = Inr canonical
          \<and> d = canonical_request_digest (sha256_of lib) canonical)"
  using create_body.parsed_ok [of lib body "(input, d)"]
  by (auto simp: parse_create_body_def result_simps split: if_splits)

section \<open>Properties\<close>

text \<open>
  C12. A successful create is one committed call of \<open>create_private_memory\<close>: for the caller that the
  token identifies, with the SHA-256 digest of the idempotency key and of the canonical request
  (never the key or the raw body), and with the decoded content, which is within its bounds. The
  receipt is the reading of the row the database returned, and the status is 201 exactly when the
  database says that the request was not a replay.
\<close>

theorem create_memory_exact:
  assumes "create_memory lib request_id req env fresh = (Finished (Success st found), c')"
  shows "st = (if cm_replayed found then 200 else 201)
    \<and> (\<exists>digest writer key_digest body input canonical.
        prepared_by lib req env ''create'' digest writer key_digest body
        \<and> decode_create lib body = Inr input \<and> encode_create lib input = Inr canonical
        \<and> content_ok (create_content input) \<and> subjects_ok (create_subjects input)
        \<and> committed env digest (tenant_id writer)
            (create_statement writer request_id key_digest
               (canonical_request_digest (sha256_of lib) canonical) input)
            (write_receipt ''create'' request_id) (write_body_calls digest ''create'') found (calls c'))"
proof -
  obtain p c1 where p: "prepare_create lib req env fresh = (Finished (Inr p), c1)"
    and d: "create_memory_in_database (pw_digest p) (pw_writer p) request_id (pw_key_digest p)
              (pw_request_digest p) (pw_input p) env c1 = (Finished (Inr found), c')"
    and st: "st = (if cm_replayed found then 200 else 201)"
    using assms unfolding create_memory_handle by (rule run_handle_success)
  from run_prepare_create [OF p] obtain body where
    "prepared_by lib req env ''create'' (pw_digest p) (pw_writer p) (pw_key_digest p) body"
    "parse_create_body lib body = Inr (pw_input p, pw_request_digest p)"
    "calls c1 = write_body_calls (pw_digest p) ''create''"
    by (auto simp: fresh_def)
  with parsed_create [OF this(2)] run_create_database [OF d] st show ?thesis by fastforce
qed

text \<open>
  C32. A successful correction is one committed call of \<open>correct_private_memory\<close> for the item of
  the path, whose identifier is well formed, and its request digest binds the method, that item and
  the canonical body. The status is 200, and the receipt is the reading of the returned row.
\<close>

theorem correct_memory_exact:
  assumes "correct_memory lib request_id req env fresh = (Finished (Success st found), c')"
  shows "st = 200
    \<and> (\<exists>digest writer key_digest body input canonical item.
        prepared_by lib req env ''correct'' digest writer key_digest body
        \<and> parse_correct_body lib body = Inr input \<and> encode_correct lib input = Inr canonical
        \<and> path_item req = Some item \<and> valid_opaque_id item
        \<and> committed env digest (tenant_id writer)
            (correct_statement writer request_id key_digest
               (mutation_request_digest (sha256_of lib) ''PUT'' (item_path item) canonical) item input)
            (write_receipt ''correct'' request_id) (write_body_calls digest ''correct'') found
            (calls c'))"
proof -
  obtain p c1 where p: "prepare_correct lib req env fresh = (Finished (Inr p), c1)"
    and d: "correct_memory_in_database (pw_digest p) (pw_writer p) request_id (pw_key_digest p)
              (pw_request_digest p) (pw_item_id p) (pw_input p) env c1 = (Finished (Inr found), c')"
    and st: "st = 200"
    using assms unfolding correct_memory_handle by (rule run_handle_success)
  from run_prepare_correct [OF p] run_correct_database [OF d] st show ?thesis
    by (fastforce simp: fresh_def)
qed

text \<open>
  C33. A successful forget is one committed call of \<open>forget_private_memory\<close> for the item of the
  path and the expected revision of the body, with a request digest that binds the method, the item
  and the canonical body.
\<close>

theorem forget_memory_exact:
  assumes "forget_memory lib request_id req env fresh = (Finished (Success st found), c')"
  shows "st = 200
    \<and> (\<exists>digest writer key_digest body input canonical item.
        prepared_by lib req env ''forget'' digest writer key_digest body
        \<and> parse_forget_body lib body = Inr (input, canonical)
        \<and> path_item req = Some item \<and> valid_opaque_id item
        \<and> committed env digest (tenant_id writer)
            (forget_statement writer request_id key_digest
               (mutation_request_digest (sha256_of lib) ''DELETE'' (item_path item) canonical) item input)
            (forget_receipt request_id) (write_body_calls digest ''forget'') found (calls c'))"
proof -
  obtain p c1 where p: "prepare_forget lib req env fresh = (Finished (Inr p), c1)"
    and d: "forget_memory_in_database request_id p env c1 = (Finished (Inr found), c')"
    and st: "st = 200"
    using assms unfolding forget_memory_handle by (rule run_handle_success)
  from run_prepare_forget [OF p] run_forget_database [OF d] st show ?thesis
    by (fastforce simp: fresh_def)
qed

text \<open>
  What a write receipt reveals: a receipt without an item (the memory was forgotten) names the
  operation and carries neither the request identifier nor a status, and every other receipt carries
  both and no operation; a replayed receipt carries no index status. A forget receipt carries the
  request identifier and a purge state exactly when it is not a replay.
\<close>

theorem write_receipts_minimal:
  "(write_receipt operation request_id row = Inr r \<longrightarrow>
      (if cm_item_id r = None
       then cm_request_id r = None \<and> cm_status r = None \<and> cm_operation r = Some operation
       else cm_request_id r = Some request_id \<and> cm_status r = Some ''ready'' \<and> cm_operation r = None)
      \<and> (cm_lexical_status r = None) = cm_replayed r \<and> (cm_semantic_status r = None) = cm_replayed r
      \<and> get_bool row ''replayed'' = Inr (cm_replayed r)
      \<and> get_opt_text row ''item_id'' = Inr (cm_item_id r))
   \<and> (forget_receipt request_id row = Inr f \<longrightarrow>
      (fm_request_id f = None) = fm_replayed f \<and> (fm_status f = None) = fm_replayed f
      \<and> (\<forall>s. fm_status f = Some s \<longrightarrow> get_text row ''purge_state'' = Inr s)
      \<and> get_bool row ''replayed'' = Inr (fm_replayed f) \<and> fm_operation f = ''forget'')"
  by (auto simp: write_receipt_def forget_receipt_def then_some_def Let_def result_simps
      split: if_splits)

section \<open>A write\<close>

definition receipt_row :: pg_row where
  "receipt_row = row_of [(''replayed'', Truth False), (''item_id'', Text ''i1''),
     (''revision_id'', Text ''r1''), (''operation_id'', Text ''o1''), (''completed_at'', Text ''now''),
     (''purge_state'', Text ''purged'')]"

definition write_library :: library where
  "write_library = sample_library\<lparr>
     decode_create := (\<lambda>_. Inr \<lparr>create_content = ''a'', create_subjects = [''s''],
        create_valid_from = None, create_valid_until = None\<rparr>),
     encode_create := (\<lambda>_. Inr ''{}''),
     decode_correct := (\<lambda>_. Inr \<lparr>correct_expected_revision_id = ''r'', correct_content = ''a'',
        correct_subjects = [''s''], correct_valid_from = None, correct_valid_until = None\<rparr>),
     encode_correct := (\<lambda>_. Inr ''{}''),
     decode_forget := (\<lambda>_. Inr \<lparr>forget_expected_revision_id = ''r''\<rparr>),
     encode_forget := (\<lambda>_. Inr ''{}'')\<rparr>"

definition write_script :: env where
  "write_script = scripted
     (\<lambda>f. if f = ''resolve_current_writer'' then Some caller_row else Some receipt_row) (\<lambda>_. []) ''{}''"

lemma write_bodies_ok:
  "parse_create_body write_library ''{}''
     = Inr (\<lparr>create_content = ''a'', create_subjects = [''s''], create_valid_from = None,
              create_valid_until = None\<rparr>, replicate 32 CHR 0x00)"
  "parse_correct_body write_library ''{}''
     = Inr \<lparr>correct_expected_revision_id = ''r'', correct_content = ''a'', correct_subjects = [''s''],
             correct_valid_from = None, correct_valid_until = None\<rparr>"
  "parse_forget_body write_library ''{}'' = Inr (\<lparr>forget_expected_revision_id = ''r''\<rparr>, ''{}'')"
  "encode_correct write_library x = Inr ''{}''"
proof -
  have "subjects_ok [''s'']" "valid_opaque_id ''r''" by code_simp+
  then show "parse_create_body write_library ''{}''
     = Inr (\<lparr>create_content = ''a'', create_subjects = [''s''], create_valid_from = None,
              create_valid_until = None\<rparr>, replicate 32 CHR 0x00)"
  "parse_correct_body write_library ''{}''
     = Inr \<lparr>correct_expected_revision_id = ''r'', correct_content = ''a'', correct_subjects = [''s''],
             correct_valid_from = None, correct_valid_until = None\<rparr>"
  "parse_forget_body write_library ''{}'' = Inr (\<lparr>forget_expected_revision_id = ''r''\<rparr>, ''{}'')"
  "encode_correct write_library x = Inr ''{}''"
    by (simp_all add: parse_create_body_def parse_correct_body_def parse_forget_body_def
        bounded_json_structure_def guard_ok write_library_def sample_library_def contains_nul_def
        canonical_request_digest_def)
qed

lemma receipt_ok:
  "write_receipt op ''id'' receipt_row = Inr
     \<lparr>cm_request_id = Some ''id'', cm_status = Some ''ready'', cm_operation = None,
      cm_item_id = Some ''i1'', cm_revision_id = Some ''r1'', cm_operation_id = ''o1'',
      cm_completed_at = ''now'', cm_replayed = False, cm_lexical_status = Some ''ready'',
      cm_semantic_status = Some ''not_requested''\<rparr>"
  "forget_receipt ''id'' receipt_row = Inr
     \<lparr>fm_request_id = Some ''id'', fm_status = Some ''purged'', fm_operation = ''forget'',
      fm_operation_id = ''o1'', fm_completed_at = ''now'', fm_replayed = False\<rparr>"
  by (simp_all add: write_receipt_def forget_receipt_def column_def receipt_row_def row_of_def
      then_some_def)

lemmas write_run_simps =
  sample_request_simps caller_columns run_simps authenticated_def authenticate_writer_def
  authenticate_def bounded_body_def open_write_transaction_def write_script_def item_request_def
  write_bodies_ok receipt_ok

lemma sample_create_run:
  "\<exists>c' r. create_memory write_library ''id'' (sample_request None None) write_script fresh
     = (Finished (Success 201 r), c') \<and> cm_item_id r = Some ''i1''"
  unfolding create_memory_def prepare_create_def create_memory_in_database_def
  by (simp add: write_run_simps)

lemma sample_correct_run:
  "\<exists>c' r. correct_memory write_library ''id'' (sample_request None (Some ''i1'')) write_script fresh
     = (Finished (Success 200 r), c') \<and> cm_item_id r = Some ''i1''"
proof -
  have "valid_opaque_id ''i1''" by code_simp
  then show ?thesis
    unfolding correct_memory_def prepare_correct_def correct_memory_in_database_def
    by (simp add: write_run_simps)
qed

lemma sample_forget_run:
  "\<exists>c' r. forget_memory write_library ''id'' (sample_request None (Some ''i1'')) write_script fresh
     = (Finished (Success 200 r), c') \<and> fm_status r = Some ''purged''"
proof -
  have "valid_opaque_id ''i1''" by code_simp
  then show ?thesis
    unfolding forget_memory_def prepare_forget_def forget_memory_in_database_def
    by (simp add: write_run_simps)
qed

theorem create_memory_exact_witness:
  "\<exists>r :: create_memory_receipt. \<exists>digest writer key_digest body input canonical h'.
     cm_item_id r = Some ''i1''
     \<and> prepared_by write_library (sample_request None None) write_script ''create'' digest writer
         key_digest body
     \<and> decode_create write_library body = Inr input
     \<and> committed write_script digest (tenant_id writer)
         (create_statement writer ''id'' key_digest
            (canonical_request_digest (sha256_of write_library) canonical) input)
         (write_receipt ''create'' ''id'') (write_body_calls digest ''create'') r h'"
proof -
  obtain c' r where "create_memory write_library ''id'' (sample_request None None) write_script fresh
     = (Finished (Success 201 r), c')" "cm_item_id r = Some ''i1''"
    using sample_create_run by blast
  with create_memory_exact [OF this(1)] show ?thesis by blast
qed

theorem correct_memory_exact_witness:
  "\<exists>r :: create_memory_receipt. \<exists>digest writer key_digest input canonical h'.
     cm_item_id r = Some ''i1''
     \<and> committed write_script digest (tenant_id writer)
         (correct_statement writer ''id'' key_digest
            (mutation_request_digest (sha256_of write_library) ''PUT'' ''/v1/items/i1'' canonical)
            ''i1'' input)
         (write_receipt ''correct'' ''id'') (write_body_calls digest ''correct'') r h'"
proof -
  obtain c' r where "correct_memory write_library ''id'' (sample_request None (Some ''i1'')) write_script
     fresh = (Finished (Success 200 r), c')" "cm_item_id r = Some ''i1''"
    using sample_correct_run by blast
  note r = this
  from correct_memory_exact [OF r(1)] obtain digest writer key_digest input canonical item where
    i: "path_item (sample_request None (Some ''i1'')) = Some item" and
    c: "committed write_script digest (tenant_id writer)
        (correct_statement writer ''id'' key_digest
           (mutation_request_digest (sha256_of write_library) ''PUT'' (item_path item) canonical)
           item input)
        (write_receipt ''correct'' ''id'') (write_body_calls digest ''correct'') r (calls c')"
    by blast
  from i have "item = ''i1''" by (simp add: sample_request_fields)
  with c have "committed write_script digest (tenant_id writer)
        (correct_statement writer ''id'' key_digest
           (mutation_request_digest (sha256_of write_library) ''PUT'' ''/v1/items/i1'' canonical)
           ''i1'' input)
        (write_receipt ''correct'' ''id'') (write_body_calls digest ''correct'') r (calls c')"
    by (simp add: item_path_def)
  with r(2) show ?thesis by blast
qed

theorem forget_memory_exact_witness:
  "\<exists>r :: forget_memory_receipt. \<exists>digest writer key_digest input canonical h'.
     fm_status r = Some ''purged''
     \<and> committed write_script digest (tenant_id writer)
         (forget_statement writer ''id'' key_digest
            (mutation_request_digest (sha256_of write_library) ''DELETE'' ''/v1/items/i1'' canonical)
            ''i1'' input)
         (forget_receipt ''id'') (write_body_calls digest ''forget'') r h'"
proof -
  obtain c' r where "forget_memory write_library ''id'' (sample_request None (Some ''i1'')) write_script
     fresh = (Finished (Success 200 r), c')" "fm_status r = Some ''purged''"
    using sample_forget_run by blast
  note r = this
  from forget_memory_exact [OF r(1)] obtain digest writer key_digest input canonical item where
    i: "path_item (sample_request None (Some ''i1'')) = Some item" and
    c: "committed write_script digest (tenant_id writer)
        (forget_statement writer ''id'' key_digest
           (mutation_request_digest (sha256_of write_library) ''DELETE'' (item_path item) canonical)
           item input)
        (forget_receipt ''id'') (write_body_calls digest ''forget'') r (calls c')"
    by blast
  from i have "item = ''i1''" by (simp add: sample_request_fields)
  with c have "committed write_script digest (tenant_id writer)
        (forget_statement writer ''id'' key_digest
           (mutation_request_digest (sha256_of write_library) ''DELETE'' ''/v1/items/i1'' canonical)
           ''i1'' input)
        (forget_receipt ''id'') (write_body_calls digest ''forget'') r (calls c')"
    by (simp add: item_path_def)
  with r(2) show ?thesis by blast
qed

theorem write_receipts_minimal_witness:
  "\<exists>r f. write_receipt ''create'' ''id'' receipt_row = Inr r \<and> cm_request_id r = Some ''id''
     \<and> forget_receipt ''id'' receipt_row = Inr f \<and> fm_operation f = ''forget''"
proof -
  obtain r f where "write_receipt ''create'' ''id'' receipt_row = Inr r" "cm_item_id r \<noteq> None"
    "forget_receipt ''id'' receipt_row = Inr f"
    by (auto simp: receipt_ok)
  with write_receipts_minimal [of "''create''" "''id''" receipt_row r f] show ?thesis by auto
qed

section \<open>Discipline and completion\<close>

lemma finishes_open_write [intro!]: "finishes (open_write_transaction digest tenant)"
  unfolding open_write_transaction_def by (intro finishes_try finishes_or_err) auto

lemma grows_open_write [intro!]: "grows (open_write_transaction digest tenant)"
  unfolding open_write_transaction_def by (intro grows_try grows_or_err) auto

lemma quiet_open_write: "issues fs 0 (open_write_transaction digest tenant)"
  unfolding open_write_transaction_def by (intro quiet)

lemma step_open_write:
  assumes "resolved s = Some who" and "\<And>e t. Q (Inl e) t"
    and "\<And>t. opened_for digest who t \<Longrightarrow> disciplined env (Some digest) t (f ()) Q"
  shows "disciplined env (Some digest) s
    (try_then (open_write_transaction digest (tenant_id who)) f) Q"
proof (rule sessions.try_then)
  show "disciplined env (Some digest) s (open_write_transaction digest (tenant_id who))
      (\<lambda>r t. (\<forall>e. r = Inl e \<longrightarrow> Q (Inl e) t)
        \<and> (\<forall>a. r = Inr a \<longrightarrow> disciplined env (Some digest) t (f a) Q))"
    unfolding open_write_transaction_def
    by (intro transaction_steps sessions.give)
      (use assms in \<open>auto simp: opened_for_def\<close>)
qed

text \<open>A write transaction around one statement for the resolved caller.\<close>

lemma disciplined_write:
  assumes "resolved s = Some who" and "f \<noteq> ''record_request_rejection''"
  shows "disciplined env (Some digest) s
    (try_then (open_write_transaction digest (tenant_id who)) (\<lambda>_.
     try_then (or_err classify
                 (fetch_one f (P_text (tenant_id who) # P_text (credential_id who) # ps))) (\<lambda>row.
     try_then (give (read row)) (\<lambda>x.
     try_then (or_err Storage commit) (\<lambda>_. give (Inr x)))))) (\<lambda>_ _. True)"
  unfolding fetch_one_def
  by (intro step_open_write transaction_steps sessions.give)
    (use assms in \<open>auto intro: opened_legal opened_some\<close>)

lemma finishes_write:
  "finishes (try_then (open_write_transaction digest tenant) (\<lambda>_.
     try_then (or_err classify (fetch_one f ps)) (\<lambda>row.
     try_then (give (read row)) (\<lambda>x.
     try_then (or_err Storage commit) (\<lambda>_. give (Inr x))))))"
  by (intro finishes_try) auto

lemma grows_write:
  "grows (try_then (open_write_transaction digest tenant) (\<lambda>_.
     try_then (or_err classify (fetch_one f ps)) (\<lambda>row.
     try_then (give (read row)) (\<lambda>x.
     try_then (or_err Storage commit) (\<lambda>_. give (Inr x))))))"
  by (intro grows_try) auto

lemma quiet_write:
  "f \<noteq> ''record_request_rejection'' \<Longrightarrow>
   quiet_log (try_then (open_write_transaction digest tenant) (\<lambda>_.
     try_then (or_err classify (fetch_one f ps)) (\<lambda>row.
     try_then (give (read row)) (\<lambda>x.
     try_then (or_err Storage commit) (\<lambda>_. give (Inr x))))))"
  by (intro quiet quiet_open_write) simp

lemmas write_transactions =
  create_memory_in_database_def correct_memory_in_database_def forget_memory_in_database_def

lemmas prepare_defs = prepare_create_def prepare_correct_def prepare_forget_def
  authenticate_writer_def Let_def

lemma finishes_prepare_write:
  "finishes (prepare_create lib req)" "finishes (prepare_correct lib req)"
  "finishes (prepare_forget lib req)"
  unfolding prepare_defs by (auto split: option.split prod.split intro!: finishes_try)

lemma grows_prepare_write:
  "grows (prepare_create lib req)" "grows (prepare_correct lib req)"
  "grows (prepare_forget lib req)"
  unfolding prepare_defs by (auto split: option.split prod.split intro!: grows_try)

lemma quiet_prepare_write:
  "quiet_log (prepare_create lib req)" "quiet_log (prepare_correct lib req)"
  "quiet_log (prepare_forget lib req)"
  unfolding prepare_defs
  by (auto split: option.split prod.split intro!: quiet quiet_authenticate quiet_bounded_body)

lemma prepares_create:
  "prepares env (map_option (sha256_of lib) (bearer_token req)) pw_digest
     (\<lambda>p who. who = Some (pw_writer p)) (prepare_create lib req)"
  unfolding prepare_create_def authenticate_writer_def Let_def
  by (rule prepares_by_token,
      intro sessions.try_then disciplined_authenticated conjI allI impI sessions.give disciplined_body)
    (auto simp: resolvers_def intro!: sessions.give)

lemma prepares_correct:
  "prepares env (map_option (sha256_of lib) (bearer_token req)) pw_digest
     (\<lambda>p who. who = Some (pw_writer p)) (prepare_correct lib req)"
  unfolding prepare_correct_def authenticate_writer_def Let_def
  by (rule prepares_by_token,
      intro sessions.try_then disciplined_authenticated conjI allI impI sessions.give disciplined_body)
    (auto simp: resolvers_def intro!: sessions.give)

lemma prepares_forget:
  "prepares env (map_option (sha256_of lib) (bearer_token req)) pw_digest
     (\<lambda>p who. who = Some (pw_writer p)) (prepare_forget lib req)"
  unfolding prepare_forget_def authenticate_writer_def Let_def
  by (rule prepares_by_token,
      intro sessions.try_then disciplined_authenticated conjI allI impI sessions.give disciplined_body)
    (auto simp: resolvers_def intro!: sessions.give)

interpretation create_route: prepared_route "sha256_of lib" "prepare_create lib"
  "\<lambda>i p. create_memory_in_database (pw_digest p) (pw_writer p) i (pw_key_digest p)
           (pw_request_digest p) (pw_input p)"
  pw_digest "\<lambda>p. Some (pw_key_digest p)" "\<lambda>p who. who = Some (pw_writer p)"
  CreateOp "\<lambda>x. if cm_replayed x then 200 else 201"
  for lib
proof
  fix req and s :: session
  show "bearer_token req = None \<Longrightarrow> prepare_create lib req = give (Inl (unattributed Unauthenticated))"
    by (simp add: prepare_create_def)
qed (simp_all add: finishes_prepare_write grows_prepare_write quiet_prepare_write prepares_create
      write_transactions finishes_write grows_write quiet_write disciplined_write)

interpretation correct_route: prepared_route "sha256_of lib" "prepare_correct lib"
  "\<lambda>i p. correct_memory_in_database (pw_digest p) (pw_writer p) i (pw_key_digest p)
           (pw_request_digest p) (pw_item_id p) (pw_input p)"
  pw_digest "\<lambda>p. Some (pw_key_digest p)" "\<lambda>p who. who = Some (pw_writer p)"
  CorrectOp "\<lambda>_. 200"
  for lib
proof
  fix req and s :: session
  show "bearer_token req = None \<Longrightarrow> prepare_correct lib req = give (Inl (unattributed Unauthenticated))"
    by (simp add: prepare_correct_def)
qed (simp_all add: finishes_prepare_write grows_prepare_write quiet_prepare_write prepares_correct
      write_transactions finishes_write grows_write quiet_write disciplined_write)

interpretation forget_route: prepared_route "sha256_of lib" "prepare_forget lib"
  forget_memory_in_database pw_digest "\<lambda>p. Some (pw_key_digest p)"
  "\<lambda>p who. who = Some (pw_writer p)" ForgetOp "\<lambda>_. 200"
  for lib
proof
  fix req and s :: session
  show "bearer_token req = None \<Longrightarrow> prepare_forget lib req = give (Inl (unattributed Unauthenticated))"
    by (simp add: prepare_forget_def)
qed (simp_all add: finishes_prepare_write grows_prepare_write quiet_prepare_write prepares_forget
      write_transactions finishes_write grows_write quiet_write disciplined_write)

end
