(* ===== verification/Service.thy ===== *)
theory Service
  imports Search_Path Write_Path
begin

text \<open>
  The routes together (\<open>router_with_search_limits\<close> of \<open>src/src/lib.rs\<close>): the table of paths and
  methods, the handler of each route, the request identifier each handler draws first, and the
  properties that hold of every request, whatever its route. Matching a path against the table and
  answering an unknown one is the web framework's and is not modelled.
\<close>

section \<open>Routes\<close>

datatype http_method = GET | PUT | DELETE | POST

datatype route =
    List_Collections | List_Items | Read_Item | Correct_Memory | Forget_Memory | Create_Memory
  | Search_Memories

definition router :: "(str \<times> (http_method \<times> route) list) list" where
  "router =
     [(''/v1/collections'', [(GET, List_Collections)]),
      (''/v1/items'', [(GET, List_Items)]),
      (''/v1/items/{item_id}'',
         [(GET, Read_Item), (PUT, Correct_Memory), (DELETE, Forget_Memory)]),
      (''/v1/memories'', [(POST, Create_Memory)]),
      (''/v1/search'', [(POST, Search_Memories)])]"

text \<open>The operation under which a route's failures are recorded.\<close>

fun route_operation :: "route \<Rightarrow> request_operation" where
  "route_operation List_Collections = ListOp"
| "route_operation List_Items = ListOp"
| "route_operation Read_Item = ReadOp"
| "route_operation Correct_Memory = CorrectOp"
| "route_operation Forget_Memory = ForgetOp"
| "route_operation Create_Memory = CreateOp"
| "route_operation Search_Memories = SearchOp"

datatype reply =
    Item_Reply read_item
  | List_Reply list_response
  | Search_Reply search_response
  | Receipt_Reply create_memory_receipt
  | Forget_Reply forget_memory_receipt

definition list_collections :: "library \<Rightarrow> str \<Rightarrow> http_request \<Rightarrow> list_response response prog" where
  "list_collections lib request_id req = list_resources lib request_id req Collections"

definition list_items :: "library \<Rightarrow> str \<Rightarrow> http_request \<Rightarrow> list_response response prog" where
  "list_items lib request_id req = list_resources lib request_id req Items"

definition replying :: "('a \<Rightarrow> reply) \<Rightarrow> 'a response prog \<Rightarrow> reply response prog" where
  "replying f p = andthen p (\<lambda>r. give (map_response f r))"

definition serve :: "library \<Rightarrow> search_limits \<Rightarrow> str \<Rightarrow> route \<Rightarrow> http_request \<Rightarrow> reply response prog" where
  "serve lib limits request_id route req =
     (case route of
        List_Collections \<Rightarrow> replying List_Reply (list_collections lib request_id req)
      | List_Items \<Rightarrow> replying List_Reply (list_items lib request_id req)
      | Read_Item \<Rightarrow> replying Item_Reply (read_item lib request_id req)
      | Correct_Memory \<Rightarrow> replying Receipt_Reply (correct_memory lib request_id req)
      | Forget_Memory \<Rightarrow> replying Forget_Reply (forget_memory lib request_id req)
      | Create_Memory \<Rightarrow> replying Receipt_Reply (create_memory lib request_id req)
      | Search_Memories \<Rightarrow> replying Search_Reply (search_memories lib limits request_id req))"

text \<open>
  A handler first draws its request identifier from the clock and the process-wide counter.
\<close>

definition handle_request ::
    "library \<Rightarrow> search_limits \<Rightarrow> 128 word option \<Rightarrow> 64 word \<Rightarrow> route \<Rightarrow> http_request
      \<Rightarrow> reply response prog \<times> 64 word" where
  "handle_request lib limits since_epoch counter route req =
     (let (request_id, counter') = new_request_id since_epoch counter
      in (serve lib limits request_id route req, counter'))"

section \<open>One contract for all routes\<close>

lemma map_failure [simp]: "map_response f (failure_response e i) = failure_response e i"
  by (simp add: failure_response_def split: prod.split)

lemmas routes = list_resources_handle read_item_handle search_memories_handle create_memory_handle
  correct_memory_handle forget_memory_handle

lemmas serve_defs = serve_def list_collections_def list_items_def routes

lemma finishes_replying: "finishes p \<Longrightarrow> finishes (replying f p)"
  unfolding replying_def by (intro finishes_andthen) auto

lemma finishes_serve: "finishes (serve lib limits i route req)"
  unfolding serve_defs
  by (cases route)
    (simp_all add: finishes_replying list_route.always_answers read_route.always_answers
      search_route.always_answers create_route.always_answers correct_route.always_answers
      forget_route.always_answers)

lemma disciplined_replying:
  "disciplined env d s p (\<lambda>_ _. True) \<Longrightarrow> disciplined env d s (replying f p) (\<lambda>_ _. True)"
  unfolding replying_def by (rule sessions.andthen_any) (auto intro: sessions.give)

lemma disciplined_serve:
  "resolved s = None \<Longrightarrow>
     disciplined env (map_option (sha256_of lib) (bearer_token req)) s (serve lib limits i route req)
       (\<lambda>_ _. True)"
  unfolding serve_defs
  by (cases route)
    (simp_all add: disciplined_replying list_route.keeps_discipline read_route.keeps_discipline
      search_route.keeps_discipline create_route.keeps_discipline correct_route.keeps_discipline
      forget_route.keeps_discipline)

lemma answered_replying:
  assumes "\<And>r c'. p env c = (Finished r, c') \<Longrightarrow> answered i op r (calls c')"
    and "replying f p env c = (Finished r, c')"
  shows "answered i op r (calls c')"
proof -
  from assms(2) obtain r1 where "p env c = (Finished r1, c')" "r = map_response f r1"
    by (auto simp: replying_def effect_simps)
  with assms(1) [OF this(1)] show ?thesis by (auto simp: answered_def)
qed

lemma answered_serve:
  "serve lib limits i route req env fresh = (Finished r, c') \<Longrightarrow>
     answered i (route_operation route) r (calls c')"
  unfolding serve_defs
  by (cases route)
    (auto elim!: answered_replying [rotated] intro: list_route.answers read_route.answers
      search_route.answers create_route.answers correct_route.answers forget_route.answers)

lemma serve_run: "\<exists>r c'. serve lib limits i route req env fresh = (Finished r, c')"
proof -
  have "\<not> timed fresh" by (simp add: fresh_def)
  with finishes_serve show ?thesis unfolding finishes_def by blast
qed

section \<open>Properties\<close>

text \<open>
  C4. Every request is answered, whatever the database, the body and the deadlines do: a run of a
  route ends, with a success of status 200 or 201 and no recorded rejection, or with the response of
  one failure; a recorded rejection is at most one, and names this request, this route's operation
  and the outcome of that very failure.
\<close>

theorem serve_answers:
  "\<exists>r c'. serve lib limits request_id route req env fresh = (Finished r, c')
     \<and> answered request_id (route_operation route) r (calls c')"
proof -
  obtain r c' where "serve lib limits request_id route req env fresh = (Finished r, c')"
    using serve_run by blast
  then show ?thesis using answered_serve by blast
qed

text \<open>
  C3. Every route keeps the session discipline, in every run: each statement runs inside a
  transaction with a statement timeout; no statement except the recording of a rejection runs
  without the digest of the request's own token set in that transaction; and a recorded rejection
  names no other credential. No data function runs before the database has named the caller: an
  earlier transaction asked a resolver, the database answered a row, and the commit of that
  transaction succeeded. A data function then runs for the tenant and the credential of that row
  and for no other, in a transaction set to that tenant.
\<close>

theorem serve_disciplined:
  assumes "serve lib limits request_id route req env fresh = (out, c')"
  shows "accepts (session_step env)
      (session_legal (map_option (sha256_of lib) (bearer_token req))) session_start (calls c')
    \<and> (\<forall>pre f ps post.
        calls c' = pre @ Query f ps # post \<and> f \<notin> resolvers \<and> f \<noteq> ''record_request_rejection''
        \<longrightarrow> (\<exists>who. identified env pre who \<and> (f = ''current_setting'' \<or> for_caller who ps)))"
proof
  show "accepts (session_step env)
      (session_legal (map_option (sha256_of lib) (bearer_token req))) session_start (calls c')"
    by (rule sessions.accepted [OF disciplined_serve [OF unresolved_start] assms])
  then show "\<forall>pre f ps post.
      calls c' = pre @ Query f ps # post \<and> f \<notin> resolvers \<and> f \<noteq> ''record_request_rejection''
      \<longrightarrow> (\<exists>who. identified env pre who \<and> (f = ''current_setting'' \<or> for_caller who ps))"
    using accepted_identified by metis
qed

text \<open>The calls that record a rejection without a credential.\<close>

definition anonymous_record :: "str \<Rightarrow> str \<Rightarrow> str \<Rightarrow> call list" where
  "anonymous_record i op kind =
     [Try_Acquire, Begin_On_Connection, Set_Local ''lock_timeout'' ''100ms'',
      Set_Local ''statement_timeout'' ''250ms'',
      Query ''record_request_rejection'' [P_text i, P_text op, P_text kind], Commit]"

lemma run_anonymous_finish:
  assumes "finish_operation_error i Unauthenticated None None op env fresh = (Finished r, c')"
  shows "r = failure_response Unauthenticated i
    \<and> prefix (calls c') (anonymous_record i (operation_str op) ''unauthenticated'')"
proof -
  have a: "audit_outcome op Unauthenticated = Some ''unauthenticated''"
    by (simp add: audit_outcome_def)
  show ?thesis
    using assms
    unfolding finish_operation_error_def a option.case audit_rejection_def write_rejection_audit_def
    by (auto simp: anonymous_record_def call_defs try_then_def andthen_def await_def immediate_def
        give_def fresh_def Let_def split: if_splits sum.splits)
qed

lemma run_anonymous_reply:
  "replying f (finish_operation_error i Unauthenticated None None op) env fresh = (Finished r, c') \<Longrightarrow>
     r = failure_response Unauthenticated i
     \<and> prefix (calls c') (anonymous_record i (operation_str op) ''unauthenticated'')"
  using run_anonymous_finish by (fastforce simp: replying_def effect_simps)

lemma serve_anonymous:
  assumes "bearer_token req = None"
    and "serve lib limits i route req env fresh = (Finished r, c')"
  shows "r = failure_response Unauthenticated i
    \<and> prefix (calls c') (anonymous_record i (operation_str (route_operation route)) ''unauthenticated'')"
proof -
  show ?thesis
    using assms(2) unfolding serve_defs
    by (cases route)
      (auto dest!: run_anonymous_reply simp: assms(1) list_route.unauthenticated read_route.unauthenticated
        search_route.unauthenticated create_route.unauthenticated correct_route.unauthenticated
        forget_route.unauthenticated)
qed

text \<open>
  C35. A request without a bearer token gets 401 and touches nothing: its body is not read, and the
  database sees at most the recording of the rejection, without any credential, for this request and
  this operation.
\<close>

theorem serve_unauthenticated:
  assumes "bearer_token req = None"
  shows "\<exists>c'. serve lib limits request_id route req env fresh
      = (Finished (failure_response Unauthenticated request_id), c')
    \<and> prefix (calls c')
        (anonymous_record request_id (operation_str (route_operation route)) ''unauthenticated'')"
proof -
  obtain r c' where "serve lib limits request_id route req env fresh = (Finished r, c')"
    using serve_run by blast
  with serve_anonymous [OF assms this] show ?thesis by blast
qed

text \<open>What a failure is, without the details of its cause.\<close>

fun failure_kind :: "request_failure \<Rightarrow> request_failure" where
  "failure_kind (Storage _) = Storage missing"
| "failure_kind (StoredJson _) = Storage missing"
| "failure_kind (AuthenticationTimeout _) = Storage missing"
| "failure_kind (AuthorityRejected _) = Unauthenticated"
| "failure_kind (DatabaseInputRejected _) = Malformed"
| "failure_kind (BodyTimeout _) = Malformed"
| "failure_kind (BodyRead _) = Malformed"
| "failure_kind (JsonBody _) = Malformed"
| "failure_kind (DatabaseUnavailable _) = Unavailable"
| "failure_kind e = e"

text \<open>
  A failure response tells no more than its kind: it is the same for every error of the database,
  the body or the decoder of that kind. In particular a missing item and one the caller may not see
  are indistinguishable, as are an unknown token and a refused one.
\<close>

theorem failure_details_hidden:
  "failure_response e i = failure_response (failure_kind e) i
   \<and> (audit_outcome op e = audit_outcome op (failure_kind e))
   \<and> failure_response (DatabaseUnavailable d) i = failure_response Unavailable i
   \<and> failure_response (AuthorityRejected d) i = failure_response Unauthenticated i"
  by (cases e) (simp_all add: failure_response_def audit_outcome_def)

theorem serve_disciplined_witness:
  "\<exists>c' r. serve write_library default_search_limits ''id'' Create_Memory (sample_request None None)
      write_script fresh = (Finished (Success 201 r), c')
    \<and> accepts (session_step write_script) (session_legal (Some (replicate 32 CHR 0x00)))
        session_start (calls c')"
proof -
  obtain c' r where "create_memory write_library ''id'' (sample_request None None) write_script fresh
     = (Finished (Success 201 r), c')"
    using sample_create_run by blast
  then have s: "serve write_library default_search_limits ''id'' Create_Memory (sample_request None None)
      write_script fresh = (Finished (Success 201 (Receipt_Reply r)), c')"
    by (simp add: serve_def replying_def andthen_def give_def)
  have "map_option (sha256_of write_library) (bearer_token (sample_request None None))
      = Some (replicate 32 CHR 0x00)"
    by (simp add: token_ok write_library_def sample_library_def)
  with serve_disciplined [OF s] s show ?thesis by auto
qed

definition anonymous_request :: http_request where
  "anonymous_request = (sample_request None None)\<lparr>authorization := None\<rparr>"

theorem serve_unauthenticated_witness:
  "\<exists>c'. serve write_library default_search_limits ''id'' Search_Memories anonymous_request write_script
      fresh = (Finished (Failure 401 \<lparr>error_request_id = ''id'', error_status = ''unauthenticated'',
        error_code = ''unauthenticated''\<rparr>), c')
    \<and> prefix (calls c') (anonymous_record ''id'' ''search'' ''unauthenticated'')"
proof -
  have "bearer_token anonymous_request = None"
    by (simp add: anonymous_request_def bearer_token_def header_text_def)
  from serve_unauthenticated [OF this, of write_library default_search_limits "''id''" Search_Memories
      write_script]
  show ?thesis by (simp add: failure_response_def)
qed

end
