(* ===== verification/Reply_Types.thy ===== *)
theory Reply_Types
  imports Service
begin

text \<open>
  The types of the replies. The model writes a Rust \<open>String\<close> as its bytes; this theory proves that
  every text of every response is a value of that type, valid UTF-8, and that the numbers stay
  within the widths the code gives them, whatever the route, as long as the values the driver reads
  from the database are well typed themselves.
\<close>

section \<open>Well-typed answers of the driver\<close>

definition row_typed :: "pg_row \<Rightarrow> bool" where
  "row_typed row =
     ((\<forall>n t. get_text row n = Inr t \<longrightarrow> is_utf8 t)
      \<and> (\<forall>n t. get_opt_text row n = Inr (Some t) \<longrightarrow> is_utf8 t)
      \<and> (\<forall>n ts. get_texts row n = Inr ts \<longrightarrow> list_all is_utf8 ts))"

definition env_typed :: "env \<Rightarrow> bool" where
  "env_typed env =
     ((\<forall>h row. on_row env h = Inr row \<longrightarrow> row_typed row)
      \<and> (\<forall>h row. on_optional env h = Inr (Some row) \<longrightarrow> row_typed row)
      \<and> (\<forall>h rows. on_rows env h = Inr rows \<longrightarrow> list_all row_typed rows))"

lemma typed_texts:
  "row_typed row \<Longrightarrow> get_text row n = Inr t \<Longrightarrow> is_utf8 t"
  "row_typed row \<Longrightarrow> get_opt_text row n = Inr (Some t) \<Longrightarrow> is_utf8 t"
  by (auto simp: row_typed_def)

lemma typed_rows:
  "env_typed env \<Longrightarrow> on_row env h = Inr row \<Longrightarrow> row_typed row"
  "env_typed env \<Longrightarrow> on_optional env h = Inr (Some row) \<Longrightarrow> row_typed row"
  "env_typed env \<Longrightarrow> on_rows env h = Inr rows \<Longrightarrow> list_all row_typed rows"
  by (auto simp: env_typed_def)

section \<open>The texts and numbers of a reply\<close>

definition opt_text :: "str option \<Rightarrow> str list" where
  "opt_text t = (case t of None \<Rightarrow> [] | Some t \<Rightarrow> [t])"

lemma set_opt_text [simp]: "t \<in> set (opt_text x) \<longleftrightarrow> x = Some t"
  by (auto simp: opt_text_def split: option.splits)

definition item_texts :: "read_item \<Rightarrow> str list" where
  "item_texts r =
     [ri_request_id r, ri_status r, ri_item_id r, ri_revision_id r, ri_content r, ri_recorded_at r,
      ri_validity_status r] @ opt_text (ri_valid_from r) @ opt_text (ri_valid_until r)"

fun entry_texts :: "list_entry \<Rightarrow> str list" where
  "entry_texts (Collection c) = [cl_collection_id c, cl_audience_kind c]"
| "entry_texts (Item i) =
     [il_item_id i, il_revision_id i, il_collection_id i, il_validity_status i]
     @ opt_text (il_recorded_at i) @ opt_text (il_valid_from i) @ opt_text (il_valid_until i)"

definition list_texts :: "list_response \<Rightarrow> str list" where
  "list_texts r =
     [lr_request_id r, lr_status r] @ concat (map entry_texts (lr_items r))
     @ opt_text (lr_next_cursor r)"

definition citation_texts :: "search_citation \<Rightarrow> str list" where
  "citation_texts c = [source_revision_id c, extraction_set_id c, passage_id c]"

definition search_item_texts :: "search_item \<Rightarrow> str list" where
  "search_item_texts i =
     [item_id i, revision_id i, excerpt i, recorded_at i, validity_status i, reason i,
      semantic_status i]
     @ opt_text (valid_from i) @ opt_text (valid_until i)
     @ (case citation i of None \<Rightarrow> [] | Some c \<Rightarrow> citation_texts c)"

definition token_context_texts :: "token_context \<Rightarrow> str list" where
  "token_context_texts c = [context_format c, context_tokenizer c, context_text c]"

definition search_texts :: "search_response \<Rightarrow> str list" where
  "search_texts r =
     [sr_request_id r, sr_status r] @ concat (map search_item_texts (sr_items r)) @ sr_warnings r
     @ (case sr_context r of None \<Rightarrow> [] | Some c \<Rightarrow> token_context_texts c)"

definition receipt_texts :: "create_memory_receipt \<Rightarrow> str list" where
  "receipt_texts r =
     [cm_operation_id r, cm_completed_at r] @ opt_text (cm_request_id r) @ opt_text (cm_status r)
     @ opt_text (cm_operation r) @ opt_text (cm_item_id r) @ opt_text (cm_revision_id r)
     @ opt_text (cm_lexical_status r) @ opt_text (cm_semantic_status r)"

definition forget_texts :: "forget_memory_receipt \<Rightarrow> str list" where
  "forget_texts r =
     [fm_operation r, fm_operation_id r, fm_completed_at r] @ opt_text (fm_request_id r)
     @ opt_text (fm_status r)"

fun reply_texts :: "reply \<Rightarrow> str list" where
  "reply_texts (Item_Reply r) = item_texts r"
| "reply_texts (List_Reply r) = list_texts r"
| "reply_texts (Search_Reply r) = search_texts r"
| "reply_texts (Receipt_Reply r) = receipt_texts r"
| "reply_texts (Forget_Reply r) = forget_texts r"

fun reply_numbers :: "reply \<Rightarrow> nat list" where
  "reply_numbers (Search_Reply r) =
     sr_context_bytes r # (case sr_context r of None \<Rightarrow> [] | Some c \<Rightarrow> [token_count c])"
| "reply_numbers _ = []"

fun response_typed :: "reply response \<Rightarrow> bool" where
  "response_typed (Success st r) =
     (st \<in> {200, 201} \<and> list_all is_utf8 (reply_texts r) \<and> list_all (\<lambda>n. n < 2 ^ 16) (reply_numbers r))"
| "response_typed (Failure st b) =
     (st \<in> {400, 401, 404, 409, 422, 503} \<and> error_status b = error_code b
      \<and> list_all is_utf8 [error_request_id b, error_status b])"

lemmas texts_defs = item_texts_def list_texts_def citation_texts_def search_item_texts_def
  token_context_texts_def search_texts_def receipt_texts_def forget_texts_def

text \<open>The texts the code writes itself.\<close>

lemma ascii_utf8: "list_all (\<lambda>c. byte c < 128) s \<Longrightarrow> is_utf8 s"
  by (induction s) (auto intro: utf8_one)

lemma fixed_texts [simp]:
  "is_utf8 ''ready''" "is_utf8 ''not_requested''" "is_utf8 ''create''" "is_utf8 ''correct''"
  "is_utf8 ''forget''" "is_utf8 ''native-evidence-json-v1''" "is_utf8 TOKENIZER"
  by (rule ascii_utf8, code_simp)+

lemma reason_utf8 [simp]: "is_utf8 (reason_of h)"
proof -
  have "is_utf8 ''adjacent_continuation''" "is_utf8 ''semantic''" "is_utf8 ''lexical''"
    by (rule ascii_utf8, code_simp)+
  then show ?thesis by (simp add: reason_of_def)
qed

lemma status_utf8 [simp]: "is_utf8 (plan_status plan)"
  by (cases plan) (auto intro!: ascii_utf8)

lemma diagnostic_utf8: "d \<in> public_diagnostics \<Longrightarrow> is_utf8 d"
proof -
  have "\<forall>d \<in> public_diagnostics. list_all (\<lambda>c. byte c < 128) d"
    unfolding public_diagnostics_def by code_simp
  moreover assume "d \<in> public_diagnostics"
  ultimately show ?thesis by (auto intro: ascii_utf8)
qed

lemma failure_utf8: "status_and_code e = (st, code) \<Longrightarrow>
    st \<in> {400, 401, 404, 409, 422, 503} \<and> is_utf8 code"
  by (cases e) (auto intro!: ascii_utf8)

section \<open>The token context\<close>

definition context_typed :: "work \<Rightarrow> bool" where
  "context_typed w =
     (list_all is_utf8 (token_context_texts (work_context w))
      \<and> token_count (work_context w) \<le> unat (context_max_tokens (work_context w)))"

lemma work_count_context: "work_count lib w t = Inr (n, w') \<Longrightarrow> work_context w' = work_context w"
  by (auto simp: work_count_def Let_def split: if_splits option.splits)

lemma work_new_typed: "work_new lib a = Inr w \<Longrightarrow> context_typed w"
  by (auto simp: work_new_def Let_def result_simps context_typed_def token_context_texts_def
      render_evidence_iff dest!: work_count_context split: if_splits)

lemma work_admit_typed:
  "work_admit lib w xs c = Inr (ok, w') \<Longrightarrow> context_typed w \<Longrightarrow> context_typed w'"
  by (auto simp: work_admit_def result_simps context_typed_def token_context_texts_def
      render_evidence_iff Let_def dest!: work_count_context split: if_splits)

lemma offer_typed:
  "offer lib tokens xs c = Inr (ok, tokens') \<Longrightarrow> (\<forall>w. tokens = Some w \<longrightarrow> context_typed w) \<Longrightarrow>
     (\<forall>w. tokens' = Some w \<longrightarrow> context_typed w)"
  by (cases tokens) (auto simp: offer_def result_simps dest: work_admit_typed)

lemma packed_context:
  "packed lib status limit tokens seen acc st \<Longrightarrow> (\<forall>w. tokens = Some w \<longrightarrow> context_typed w) \<Longrightarrow>
     (\<forall>w. token_work st = Some w \<longrightarrow> context_typed w)"
proof (induction rule: packed.induct)
  case start
  then show ?case by (simp add: pack_start_def)
next
  case (skip seen acc st row st')
  from skip(2) show ?case
    by (rule skip_cases) (use skip(3,4) in \<open>auto simp: omit_def dest: offer_typed\<close>)
next
  case (keep seen acc st row item st')
  from keep(2) show ?case
    by (rule keep_cases)
      (use keep(3,4) in \<open>auto simp: accept_def Let_def dest: offer_typed split: option.splits\<close>)
qed

lemma token_pack_typed:
  assumes "token_pack lib permits joined rows bytes status a = Inr (packing, ctx)"
  shows "list_all is_utf8 (token_context_texts ctx) \<and> token_count ctx < 2 ^ 16"
proof -
  obtain w w' where w: "work_new lib a = Inr w" "ctx = work_context w'"
    "pack_search_rows lib rows bytes status (Some w) = Inr (packing, Some w')"
    using token_pack_Inr [OF assms] by blast
  obtain found used short where "packing = (found, used, short)" by (cases packing)
  with w(3) obtain seen acc st where
    "packed lib status (unat bytes) (Some w) seen acc st" "token_work st = Some w'"
    by (metis pack_search_rows_packed)
  then have "context_typed w'"
    using packed_context work_new_typed [OF w(1)] by blast
  moreover have "unat (context_max_tokens (work_context w')) < 2 ^ 16"
    using unsigned_less [of "context_max_tokens (work_context w')"] by simp
  ultimately show ?thesis by (simp add: context_typed_def w(2))
qed

section \<open>The answers of the database functions\<close>

lemma column_utf8:
  "row_typed row \<Longrightarrow> column get_text row n = Inr t \<Longrightarrow> is_utf8 t"
  "row_typed row \<Longrightarrow> column get_opt_text row n = Inr (Some t) \<Longrightarrow> is_utf8 t"
  by (auto simp: column_Inr intro: typed_texts)

lemma item_typed:
  "read_item_row row i = Inr r \<Longrightarrow> row_typed row \<Longrightarrow> is_utf8 i \<Longrightarrow> list_all is_utf8 (item_texts r)"
  by (auto simp: read_item_row_def result_simps item_texts_def list_all_iff intro: typed_texts)

lemma entry_typed:
  "read_list_entry row kind = Inr entry \<Longrightarrow> row_typed row \<Longrightarrow> list_all is_utf8 (entry_texts entry)"
  by (cases kind) (auto simp: result_simps list_all_iff intro: typed_texts)

lemma receipt_typed:
  "write_receipt op i row = Inr r \<Longrightarrow> row_typed row \<Longrightarrow> is_utf8 i \<Longrightarrow> is_utf8 op \<Longrightarrow>
     list_all is_utf8 (receipt_texts r)"
  by (auto simp: write_receipt_def Let_def result_simps receipt_texts_def then_some_def list_all_iff
      intro: typed_texts split: if_splits)

lemma forget_typed:
  "forget_receipt i row = Inr r \<Longrightarrow> row_typed row \<Longrightarrow> is_utf8 i \<Longrightarrow> list_all is_utf8 (forget_texts r)"
  by (auto simp: forget_receipt_def result_simps forget_texts_def then_some_def list_all_iff
      intro: typed_texts split: if_splits)

lemma search_item_typed:
  assumes "item_of_row lib status row item" and "row_typed row" and "is_utf8 status"
  shows "list_all is_utf8 (search_item_texts item)"
  using assms
  by (cases "citation item")
    (auto simp: item_of_row_def search_item_texts_def citation_texts_def list_all_iff
      intro: typed_texts)

lemma packing_typed:
  assumes "sound_packing lib status allowance rows found used" and "list_all row_typed rows"
    and "is_utf8 status"
  shows "list_all is_utf8 (concat (map search_item_texts found))"
proof -
  from assms(1) obtain chosen where c: "subseq chosen rows"
    "list_all2 (item_of_row lib status) chosen found"
    unfolding sound_packing_def by blast
  have "list_all row_typed chosen"
    using c(1) assms(2) by (auto simp: list_all_iff dest: list_emb_set)
  with c(2) have "list_all (\<lambda>i. list_all is_utf8 (search_item_texts i)) found"
    by (induction rule: list_all2_induct) (auto intro: search_item_typed [OF _ _ assms(3)])
  then show ?thesis by (auto simp: list_all_iff)
qed

lemma packed_rows_typed:
  assumes "pack_rows_for lib input status rows permits joined = Inr ((found, used, short), ctx)"
    and "list_all row_typed rows" and "is_utf8 status"
  shows "list_all is_utf8 (concat (map search_item_texts found)) \<and> used < 2 ^ 16
    \<and> (\<forall>c. ctx = Some c \<longrightarrow> list_all is_utf8 (token_context_texts c) \<and> token_count c < 2 ^ 16)"
proof -
  note p = sound_pack_rows_for [OF assms(1)]
  have "unat b < 2 ^ 16" for b :: "16 word"
    using unsigned_less [of b] by simp
  then have "used < 2 ^ 16"
    using p unfolding sound_packing_def by (meson le_less_trans)
  moreover have "list_all is_utf8 (token_context_texts c) \<and> token_count c < 2 ^ 16"
    if "ctx = Some c" for c
    using assms(1) that
    by (auto simp: pack_rows_for_def result_simps dest: token_pack_typed split: option.splits)
  ultimately show ?thesis using packing_typed [OF p assms(2,3)] by blast
qed

lemma answer_typed:
  assumes "search_answer lib env digest reader i input plan h found h'"
    and "env_typed env" and "is_utf8 i" and "public_plan plan"
  shows "response_typed (Success 200 (Search_Reply found))"
proof -
  obtain effective rows permits joined extra asked where
    e: "public_plan effective" "on_rows env asked = Inr rows"
      "pack_rows_for lib input (plan_status effective) rows permits joined
        = Inr ((sr_items found, sr_context_bytes found, sr_truncated found), sr_context found)"
      "sr_request_id found = i" "sr_status found = ''ready''"
      "sr_warnings found = plan_diagnostics effective (rows = []) @ extra"
      "set extra \<subseteq> {''lexical_disjunction_fallback''}"
    using assms(1) current_public [OF _ assms(4)] lexical_outcome_closed
    unfolding search_answer_def Let_def by blast
  have "''lexical_disjunction_fallback'' \<in> public_diagnostics"
    by (simp add: public_diagnostics_def)
  then have "set (sr_warnings found) \<subseteq> public_diagnostics"
    using public_plan_diagnostics [OF e(1), of "rows = []"] e(7) unfolding e(6) set_append by blast
  then have "list_all is_utf8 (sr_warnings found)"
    by (auto simp: list_all_iff intro: diagnostic_utf8)
  with packed_rows_typed [OF e(3) typed_rows(3) [OF assms(2) e(2)]] e(4,5) assms(3)
  show ?thesis by (simp add: search_texts_def split: option.split)
qed

section \<open>The routes\<close>

lemma list_typed:
  assumes "list_resources_from_database p i kind env c = (Finished (Inr found), c')"
    and "env_typed env" and "is_utf8 i"
  shows "list_all is_utf8 (list_texts found)"
proof -
  obtain rows h where r: "on_rows env h = Inr rows"
    "list_all2 (\<lambda>row entry. read_list_entry row kind = Inr entry) rows (lr_items found)"
    "case rows of [] \<Rightarrow> lr_next_cursor found = None
       | row # _ \<Rightarrow> get_opt_text row ''next_cursor'' = Inr (lr_next_cursor found)"
    "lr_request_id found = i"
    using run_list_from_database [OF assms(1)] unfolding Let_def by blast
  have t: "list_all row_typed rows" by (rule typed_rows(3) [OF assms(2) r(1)])
  from r(2) t have "list_all (\<lambda>e. list_all is_utf8 (entry_texts e)) (lr_items found)"
    by (induction rule: list_all2_induct) (auto intro: entry_typed)
  then have "list_all is_utf8 (concat (map entry_texts (lr_items found)))"
    by (auto simp: list_all_iff)
  moreover have "list_all is_utf8 (opt_text (lr_next_cursor found))"
    using r(3) t by (cases rows) (auto simp: list_all_iff intro: typed_texts)
  moreover have "lr_status found = ''ready''"
    using assms(1) unfolding list_resources_from_database_def
    by (clarsimp simp: effect_simps result_simps Let_def)
  ultimately show ?thesis using r(4) assms(3) by (simp add: list_texts_def)
qed

lemma read_typed:
  assumes "read_prepared lib i req env c = (Finished (Inr (digest, found)), c')"
    and "env_typed env" and "is_utf8 i"
  shows "list_all is_utf8 (item_texts found)"
proof -
  from assms(1) obtain h row where "on_optional env h = Inr (Some row)" "read_item_row row i = Inr found"
    unfolding read_prepared_def read_steps_def
    by (auto simp: effect_simps result_simps Let_def dest!: run_read_from_database split: option.splits)
  then show ?thesis using assms(2,3) by (blast intro: item_typed typed_rows)
qed

lemma committed_typed:
  assumes "committed env digest tenant statement read h found h'" and "env_typed env"
    and "\<And>row. row_typed row \<Longrightarrow> read row = Inr found \<Longrightarrow> list_all is_utf8 texts"
  shows "list_all is_utf8 texts"
  using assms typed_rows(1) unfolding committed_def Let_def by blast

text \<open>A route whose answers are well typed answers with well-typed responses.\<close>

lemma handle_typed:
  assumes "replying f (handle prepare answer digest_of key_of op code i) env fresh
      = (Finished (Success st r), c')"
    and "\<And>p x c1 c2. prepare env fresh = (Finished (Inr p), c1) \<Longrightarrow>
      answer p env c1 = (Finished (Inr x), c2) \<Longrightarrow> response_typed (Success (code x) (f x))"
  shows "response_typed (Success st r)"
proof -
  from assms(1) obtain r1 where r1: "handle prepare answer digest_of key_of op code i env fresh
      = (Finished r1, c')" "Success st r = map_response f r1"
    by (auto simp: replying_def effect_simps)
  then obtain x where h: "handle prepare answer digest_of key_of op code i env fresh
      = (Finished (Success st x), c')" and r: "r = f x"
    by (cases r1) auto
  show ?thesis unfolding r using h by (rule run_handle_success) (use assms(2) in blast)
qed

lemma serve_success_typed:
  assumes "serve lib limits i route req env fresh = (Finished (Success st r), c')"
    and "env_typed env" and "is_utf8 i"
  shows "response_typed (Success st r)"
proof (cases route)
  case List_Collections
  show ?thesis
    using assms(1) unfolding serve_defs List_Collections route.case
    by (elim handle_typed) (simp add: list_typed [OF _ assms(2,3)])
next
  case List_Items
  show ?thesis
    using assms(1) unfolding serve_defs List_Items route.case
    by (elim handle_typed) (simp add: list_typed [OF _ assms(2,3)])
next
  case Read_Item
  show ?thesis
    using assms(1) unfolding serve_defs Read_Item route.case
    by (elim handle_typed) (auto simp: run_give intro: read_typed [OF _ assms(2,3)])
next
  case Correct_Memory
  show ?thesis
    using assms(1) unfolding serve_defs Correct_Memory route.case
    by (elim handle_typed) (simp add: committed_typed [OF run_correct_database assms(2)]
        receipt_typed [OF _ _ assms(3)])
next
  case Forget_Memory
  show ?thesis
    using assms(1) unfolding serve_defs Forget_Memory route.case
    by (elim handle_typed) (simp add: committed_typed [OF run_forget_database assms(2)]
        forget_typed [OF _ _ assms(3)])
next
  case Create_Memory
  show ?thesis
    using assms(1) unfolding serve_defs Create_Memory route.case
    by (elim handle_typed) (simp add: committed_typed [OF run_create_database assms(2)]
        receipt_typed [OF _ _ assms(3)])
next
  case Search_Memories
  have t: "response_typed (Success 200 (Search_Reply x))"
    if "search_prepared lib i p env c1 = (Finished (Inr x), c2)" for p x c1 c2
    using run_search_prepared [OF that] answer_typed [OF _ assms(2,3)] by (blast elim: exchange_answer)
  show ?thesis
    using assms(1) unfolding serve_defs Search_Memories route.case
    by (elim handle_typed) (rule t)
qed

text \<open>
  C5. Every response is well typed, whatever the route, the request and the database do, as long as
  the driver only hands out well-typed rows: its status is one the code uses, every text in it is
  valid UTF-8 (also an excerpt cut from a longer memory, and the envelope of a token-mode search),
  and its byte and token counts fit 16 bits. A failure names one fixed code twice.
\<close>

theorem serve_typed:
  assumes "env_typed env" and "is_utf8 request_id"
    and "serve lib limits request_id route req env fresh = (Finished r, c')"
  shows "response_typed r"
proof (cases r)
  case (Success st x)
  with assms show ?thesis using serve_success_typed by blast
next
  case (Failure st b)
  with answered_serve [OF assms(3)] obtain e where "r = failure_response e request_id"
    unfolding answered_def by blast
  with assms(2) show ?thesis
    using failure_utf8 [of e] by (auto simp: failure_response_def split: prod.splits)
qed

text \<open>A table of typed cells is a typed row.\<close>

fun cell_texts :: "cell \<Rightarrow> str list" where
  "cell_texts (Text t) = [t]"
| "cell_texts (Texts ts) = ts"
| "cell_texts _ = []"

lemma row_of_typed:
  assumes "list_all is_utf8 (concat (map (cell_texts \<circ> snd) cells))"
  shows "row_typed (row_of cells)"
proof -
  have c: "list_all is_utf8 (cell_texts c)" if "map_of cells n = Some c" for n c
    using assms map_of_SomeD [OF that] by (force simp: list_all_iff)
  show ?thesis
    unfolding row_typed_def row_of_def
    using c by (fastforce split: option.splits cell.splits)
qed

lemma write_script_typed: "env_typed write_script"
proof -
  have "row_typed receipt_row" "row_typed caller_row"
    unfolding receipt_row_def caller_row_def
    by (rule row_of_typed, simp, intro conjI ascii_utf8, (simp; fail)+)+
  then show ?thesis
    by (simp add: env_typed_def write_script_def scripted_def split: option.splits)
qed

theorem serve_typed_witness:
  "\<exists>c' r. serve write_library default_search_limits ''id'' Create_Memory (sample_request None None)
      write_script fresh = (Finished (Success 201 r), c')
    \<and> response_typed (Success 201 r) \<and> ''i1'' \<in> set (reply_texts r)"
proof -
  obtain c' r where "create_memory write_library ''id'' (sample_request None None) write_script fresh
     = (Finished (Success 201 r), c')" "cm_item_id r = Some ''i1''"
    using sample_create_run by blast
  note run = this
  then have s: "serve write_library default_search_limits ''id'' Create_Memory (sample_request None None)
      write_script fresh = (Finished (Success 201 (Receipt_Reply r)), c')"
    by (simp add: serve_def replying_def andthen_def give_def)
  have "is_utf8 ''id''" by (rule ascii_utf8) simp
  from serve_typed [OF write_script_typed this s] s run(2) show ?thesis
    by (auto simp: receipt_texts_def)
qed

end
