(* ===== verification/Process.thy ===== *)
theory Process
  imports Packing_Correct Digests "HOL-Library.Multiset"
begin

text \<open>
  Requests in flight together. The process keeps two values that its requests share: the counter
  their identifiers are drawn from (\<open>REQUEST_COUNTER\<close> of \<open>src/src/lib.rs\<close>) and the semaphore of two
  workers that pack under a token allowance (\<open>WORKERS\<close> of \<open>src/src/context_tokens.rs\<close>). A request
  that arrives draws its identifier; if it is a token-mode search it then takes a worker, or is
  refused when none is free, and its packing ends at some later time. A step of the process is one of
  these events, of any one request, and a run is any interleaving of such steps. Requests also share
  the connection pool and, in the database, the locks of their tenant; both are left out, so nothing
  is said here about how long a request waits. To wait is to take the next step later: what holds of
  every interleaving holds of those that the pool and the locks admit.
\<close>

section \<open>Shared state\<close>

record process =
  request_counter :: "64 word"
  free_workers :: nat

definition process_start :: process where
  "process_start = \<lparr>request_counter = 0, free_workers = 2\<rparr>"

text \<open>What a request keeps of its draw: the clock it read and the sequence number it was given.\<close>

record ticket =
  since_epoch :: "128 word option"
  sequence_no :: "64 word"

definition ticket_id :: "ticket \<Rightarrow> str" where
  "ticket_id t = fst (new_request_id (since_epoch t) (sequence_no t))"

definition draw :: "128 word option \<Rightarrow> process \<Rightarrow> ticket \<times> process" where
  "draw clock p =
     (\<lparr>since_epoch = clock, sequence_no = request_counter p\<rparr>,
      p\<lparr>request_counter := snd (new_request_id clock (request_counter p))\<rparr>)"

definition take_worker :: "process \<Rightarrow> process option" where
  "take_worker p =
     (if free_workers p = 0 then None else Some (p\<lparr>free_workers := free_workers p - 1\<rparr>))"

definition return_worker :: "process \<Rightarrow> process" where
  "return_worker p = p\<lparr>free_workers := free_workers p + 1\<rparr>"

text \<open>
  The contract of the semaphore, as the steps below rely on it: a permit is taken when one is free
  and never otherwise, and a returned permit is free again.
\<close>

locale worker_pool =
  fixes free :: "'p \<Rightarrow> nat"
    and take_one :: "'p \<Rightarrow> 'p option"
    and give_back :: "'p \<Rightarrow> 'p"
  assumes taken: "take_one p = Some p' \<Longrightarrow> free p = Suc (free p')"
    and none_free: "take_one p = None \<longleftrightarrow> free p = 0"
    and given: "free (give_back p) = Suc (free p)"
begin

lemma borrowed: "take_one p = Some p' \<Longrightarrow> free (give_back p') = free p"
  by (simp add: given taken)

lemma some_free: "take_one p \<noteq> None \<longleftrightarrow> (\<exists>n. free p = Suc n)"
  by (simp add: none_free gr0_conv_Suc [symmetric])

lemma given_usable: "\<exists>p'. take_one (give_back p) = Some p'"
  using none_free [of "give_back p"] by (cases "take_one (give_back p)") (simp_all add: given)

end

interpretation workers: worker_pool free_workers take_worker return_worker
  by unfold_locales (auto simp: take_worker_def return_worker_def split: if_splits)

section \<open>Requests and steps\<close>

record job =
  job_rows :: "pg_row list"
  job_bytes :: "16 word"
  job_status :: str
  job_allowance :: allowance

type_synonym packing = "request_failure + (search_item list \<times> nat \<times> bool) \<times> token_context"

text \<open>A request is a token-mode search, with its job, or another one.\<close>

datatype phase =
    Arrived "job option"
  | Named ticket "job option"
  | Packs ticket job
  | Answered ticket "job option" "packing option"

definition run_job :: "library \<Rightarrow> nat \<Rightarrow> bool \<Rightarrow> job \<Rightarrow> packing" where
  "run_job lib free joined j =
     token_pack lib free joined (job_rows j) (job_bytes j) (job_status j) (job_allowance j)"

text \<open>
  The steps of one request. The worker of a packing is given back when the blocking task ends,
  whether or not anybody still waits for it (\<open>joined\<close>).
\<close>

inductive request_step ::
    "library \<Rightarrow> process \<Rightarrow> phase \<Rightarrow> process \<Rightarrow> phase \<Rightarrow> bool" for lib where
  name: "draw clock p = (t, p') \<Longrightarrow> request_step lib p (Arrived j) p' (Named t j)"
| direct: "request_step lib p (Named t None) p (Answered t None None)"
| refused: "length (job_rows j) > 82 \<or> take_worker p = None \<Longrightarrow>
    request_step lib p (Named t (Some j)) p
      (Answered t (Some j) (Some (run_job lib (free_workers p) joined j)))"
| start: "length (job_rows j) \<le> 82 \<Longrightarrow> take_worker p = Some p' \<Longrightarrow>
    request_step lib p (Named t (Some j)) p' (Packs t j)"
| finish: "request_step lib p (Packs t j) (return_worker p)
    (Answered t (Some j) (Some (run_job lib 1 joined j)))"

inductive process_step ::
    "library \<Rightarrow> process \<times> phase list \<Rightarrow> process \<times> phase list \<Rightarrow> bool" for lib where
  step: "i < length rs \<Longrightarrow> request_step lib p (rs ! i) p' r \<Longrightarrow>
    process_step lib (p, rs) (p', rs[i := r])"

definition reachable :: "library \<Rightarrow> job option list \<Rightarrow> process \<Rightarrow> phase list \<Rightarrow> bool" where
  "reachable lib js p rs = (process_step lib)\<^sup>*\<^sup>* (process_start, map Arrived js) (p, rs)"

inductive_cases request_cases: "request_step lib p r p' r'"
inductive_cases process_cases: "process_step lib s s'"

section \<open>Workers\<close>

fun packs :: "phase \<Rightarrow> nat" where
  "packs (Packs t j) = 1"
| "packs _ = 0"

definition packing_now :: "phase list \<Rightarrow> nat" where
  "packing_now rs = sum_list (map packs rs)"

lemma sum_list_step:
  "i < length xs \<Longrightarrow>
     sum_list (map f (xs[i := x])) + f (xs ! i) = sum_list (map f xs) + (f x :: 'b :: comm_monoid_add)"
proof (induction xs arbitrary: i)
  case (Cons y ys)
  then show ?case by (cases i) (simp_all add: ac_simps)
qed simp

lemma request_workers:
  "request_step lib p r p' r' \<Longrightarrow> free_workers p' + packs r' = free_workers p + packs r"
  by (erule request_cases) (auto simp: draw_def workers.given dest: workers.taken)

lemma step_workers:
  assumes "process_step lib (p, rs) (p', rs')"
  shows "free_workers p' + packing_now rs' = free_workers p + packing_now rs"
proof -
  from assms obtain i r where "i < length rs" "request_step lib p (rs ! i) p' r" "rs' = rs[i := r]"
    by (auto elim: process_cases)
  with request_workers [of lib p "rs ! i" p' r] sum_list_step [of i rs packs r] show ?thesis
    by (simp add: packing_now_def)
qed

lemma reachable_induct [consumes 1, case_names start step]:
  assumes "reachable lib js p rs" and "I process_start (map Arrived js)"
    and "\<And>p rs i p' r. reachable lib js p rs \<Longrightarrow> I p rs \<Longrightarrow> i < length rs \<Longrightarrow>
      request_step lib p (rs ! i) p' r \<Longrightarrow> I p' (rs[i := r])"
  shows "I p rs"
proof -
  have "reachable lib js (fst s) (snd s) \<and> I (fst s) (snd s)"
    if "(process_step lib)\<^sup>*\<^sup>* (process_start, map Arrived js) s" for s
    using that
  proof (induction rule: rtranclp_induct)
    case base
    then show ?case using assms(2) by (simp add: reachable_def)
  next
    case (step s s')
    from step(1,2) have "reachable lib js (fst s') (snd s')"
      by (auto simp: reachable_def)
    moreover from step(2,3) have "I (fst s') (snd s')"
      by (cases s) (auto elim!: process_cases intro: assms(3))
    ultimately show ?case ..
  qed
  with assms(1) show ?thesis by (fastforce simp: reachable_def)
qed

lemma reachable_length: "reachable lib js p rs \<Longrightarrow> length rs = length js"
  by (induction rule: reachable_induct) simp_all

lemma reachable_workers: "reachable lib js p rs \<Longrightarrow> free_workers p + packing_now rs = 2"
proof (induction rule: reachable_induct)
  case start
  have "sum_list (map packs (map Arrived js)) = 0" by (induction js) simp_all
  then show ?case by (simp add: process_start_def packing_now_def)
next
  case (step p rs i p' r)
  have "process_step lib (p, rs) (p', rs[i := r])"
    by (rule process_step.step [OF step.hyps(2,3)])
  with step_workers [OF this] step.IH show ?case by simp
qed

text \<open>
  A packing does not depend on the other requests: with a worker its result is the one it has alone.
\<close>

fun undisturbed :: "library \<Rightarrow> phase \<Rightarrow> bool" where
  "undisturbed lib (Answered t (Some j) result) =
     (result \<in> {Some (run_job lib 2 True j), Some (Inl ContextBudgetUnavailable)})"
| "undisturbed lib (Answered t None result) = (result = None)"
| "undisturbed lib _ = True"

lemma request_undisturbed:
  "request_step lib p r p' r' \<Longrightarrow> undisturbed lib r'"
  by (erule request_cases) (auto simp: run_job_def token_pack_def take_worker_def split: if_splits)

lemma reachable_undisturbed: "reachable lib js p rs \<Longrightarrow> r \<in> set rs \<Longrightarrow> undisturbed lib r"
proof (induction arbitrary: r rule: reachable_induct)
  case (step p rs i p' r')
  then show ?case
    using request_undisturbed [OF step.hyps(3)] set_update_subset_insert [of rs i r'] by blast
qed auto

section \<open>Identifiers\<close>

fun ticket_of :: "phase \<Rightarrow> ticket option" where
  "ticket_of (Arrived j) = None"
| "ticket_of (Named t j) = Some t"
| "ticket_of (Packs t j) = Some t"
| "ticket_of (Answered t j result) = Some t"

definition drawn_by :: "phase \<Rightarrow> 64 word multiset" where
  "drawn_by r = (case ticket_of r of None \<Rightarrow> {#} | Some t \<Rightarrow> {#sequence_no t#})"

definition drawn :: "phase list \<Rightarrow> 64 word multiset" where
  "drawn rs = sum_list (map drawn_by rs)"

text \<open>The sequence numbers given out so far are the first ones, each once.\<close>

definition first_numbers :: "nat \<Rightarrow> 64 word list" where
  "first_numbers n = map word_of_nat [0..<n]"

definition numbered :: "process \<Rightarrow> phase list \<Rightarrow> bool" where
  "numbered p rs =
     (\<exists>n. request_counter p = word_of_nat n \<and> drawn rs = mset (first_numbers n))"

lemma first_numbers_simps:
  "first_numbers 0 = []" "first_numbers (Suc n) = first_numbers n @ [word_of_nat n]"
  "length (first_numbers n) = n"
  by (simp_all add: first_numbers_def)

lemma request_draws:
  "request_step lib p r p' r' \<Longrightarrow>
     (drawn_by r' = drawn_by r \<and> request_counter p' = request_counter p)
     \<or> (drawn_by r = {#} \<and> drawn_by r' = {#request_counter p#}
        \<and> request_counter p' = request_counter p + 1)"
  by (erule request_cases)
    (auto simp: draw_def take_worker_def return_worker_def drawn_by_def new_request_id_def
      split: if_splits)

lemma drawn_step: "i < length rs \<Longrightarrow> drawn (rs[i := r]) + drawn_by (rs ! i) = drawn rs + drawn_by r"
  unfolding drawn_def by (rule sum_list_step)

lemma reachable_numbered: "reachable lib js p rs \<Longrightarrow> numbered p rs"
proof (induction rule: reachable_induct)
  case start
  have "drawn (map Arrived js) = {#}"
    by (induction js) (simp_all add: drawn_def drawn_by_def)
  then show ?case
    unfolding numbered_def
    by (intro exI [of _ 0]) (simp add: process_start_def first_numbers_simps)
next
  case (step p rs i p' r)
  from step.IH obtain n where n: "request_counter p = word_of_nat n" "drawn rs = mset (first_numbers n)"
    by (auto simp: numbered_def)
  from request_draws [OF step.hyps(3)] show ?case
  proof
    assume "drawn_by r = drawn_by (rs ! i) \<and> request_counter p' = request_counter p"
    with n drawn_step [OF step.hyps(2), of r] show ?thesis by (auto simp: numbered_def)
  next
    assume "drawn_by (rs ! i) = {#} \<and> drawn_by r = {#request_counter p#}
      \<and> request_counter p' = request_counter p + 1"
    with n drawn_step [OF step.hyps(2), of r] show ?thesis
      unfolding numbered_def by (intro exI [of _ "Suc n"]) (simp add: first_numbers_simps)
  qed
qed

lemma size_drawn: "size (drawn rs) \<le> length rs"
proof (induction rs)
  case (Cons r rs)
  then show ?case by (cases "ticket_of r") (simp_all add: drawn_def drawn_by_def)
qed (simp add: drawn_def)

lemma numbered_once:
  assumes "numbered p rs" and "length rs \<le> 2 ^ 64"
  shows "count (drawn rs) a \<le> 1"
proof -
  from assms(1) obtain n where n: "drawn rs = mset (first_numbers n)"
    by (auto simp: numbered_def)
  then have "n \<le> 2 ^ 64"
    using size_drawn [of rs] assms(2) by (simp add: first_numbers_simps)
  then have "inj_on (word_of_nat :: nat \<Rightarrow> 64 word) {0..<n}"
    by (intro inj_onI) (metis atLeastLessThan_iff less_le_trans unat_usize)
  then have "distinct (first_numbers n)"
    by (simp add: first_numbers_def distinct_map)
  then show ?thesis
    by (simp add: n distinct_count_atmost_1 count_mset)
qed

lemma drawn_twice:
  assumes "i < length rs" "k < length rs" "i \<noteq> k"
    and "drawn_by (rs ! i) = {#a#}" "drawn_by (rs ! k) = {#a#}"
  shows "2 \<le> count (drawn rs) a"
proof -
  let ?rs = "rs[i := Arrived None]"
  have "drawn rs = drawn ?rs + {#a#}"
    using drawn_step [OF assms(1), of "Arrived None"] assms(4) by (simp add: drawn_by_def)
  moreover have "drawn ?rs = drawn (?rs[k := Arrived None]) + {#a#}"
    using drawn_step [of k ?rs "Arrived None"] assms(2,3,5) by (simp add: drawn_by_def)
  ultimately show ?thesis by simp
qed

lemma ticket_id_sequence:
  "ticket_id t = ticket_id t' \<Longrightarrow> sequence_no t = sequence_no t'"
proof -
  have "\<exists>n. ticket_id t = fst (new_request_id (Some n) (sequence_no t))" for t
    by (cases "since_epoch t") (auto simp: ticket_id_def new_request_id_def)
  moreover assume "ticket_id t = ticket_id t'"
  ultimately show ?thesis using request_id_unique by metis
qed

section \<open>Properties\<close>

text \<open>A token-mode search with at most 82 rows that is answered without having packed.\<close>

fun turned_away :: "phase \<Rightarrow> phase \<Rightarrow> bool" where
  "turned_away (Named t (Some j)) (Answered t' j' result) = (length (job_rows j) \<le> 82)"
| "turned_away _ _ = False"

lemma turned_away_full:
  "request_step lib p r p' r' \<Longrightarrow> turned_away r r' \<Longrightarrow> free_workers p = 0"
  by (erule request_cases) (auto simp: workers.none_free)

text \<open>
  C6. Whatever the interleaving of any number of requests, at most two packings under a token
  allowance run at a time: the free workers and the running packings always make two. No packing is
  disturbed by another: its result is the one it has when it runs alone, or the one report that the
  budget is unavailable. And a search is turned away for want of a worker only while two others pack.
\<close>

theorem process_packings:
  assumes "reachable lib js p rs"
  shows "free_workers p + packing_now rs = 2 \<and> (\<forall>r\<in>set rs. undisturbed lib r)
    \<and> (\<forall>i p' r. i < length rs \<and> request_step lib p (rs ! i) p' r \<and> turned_away (rs ! i) r
          \<longrightarrow> packing_now rs = 2)"
proof (intro conjI ballI allI impI)
  show w: "free_workers p + packing_now rs = 2" by (rule reachable_workers [OF assms])
  show "undisturbed lib r" if "r \<in> set rs" for r
    by (rule reachable_undisturbed [OF assms that])
  show "packing_now rs = 2"
    if "i < length rs \<and> request_step lib p (rs ! i) p' r \<and> turned_away (rs ! i) r" for i p' r
    using w that turned_away_full [of lib p "rs ! i" p' r] by simp
qed

text \<open>
  C27. The identifiers of the requests of a process are pairwise different, in every interleaving and
  whatever the clock shows (it may stand still, jump back, or be before the epoch), as long as the
  process has not served more than 2^64 requests; each has 36 characters.
\<close>

theorem process_identifiers:
  assumes "reachable lib js p rs" and "length js \<le> 2 ^ 64"
    and "i < length rs" "k < length rs" "i \<noteq> k"
    and "ticket_of (rs ! i) = Some t" "ticket_of (rs ! k) = Some t'"
  shows "ticket_id t \<noteq> ticket_id t' \<and> length (ticket_id t) = 36"
proof -
  have "length rs \<le> 2 ^ 64" using assms(2) reachable_length [OF assms(1)] by simp
  then have once: "count (drawn rs) a \<le> 1" for a
    by (rule numbered_once [OF reachable_numbered [OF assms(1)]])
  have "sequence_no t \<noteq> sequence_no t'"
    using drawn_twice [OF assms(3-5), of "sequence_no t"] once [of "sequence_no t"] assms(6,7)
    by (auto simp: drawn_by_def)
  then have "ticket_id t \<noteq> ticket_id t'" using ticket_id_sequence by blast
  moreover have "length (ticket_id t) = 36"
    unfolding ticket_id_def by (rule request_id_unique [THEN conjunct1])
  ultimately show ?thesis ..
qed

section \<open>Three searches at once\<close>

definition sample_job :: job where
  "sample_job = \<lparr>job_rows = [], job_bytes = 100, job_status = ''not_requested'',
     job_allowance = sample_allowance\<rparr>"

definition nth_ticket :: "64 word \<Rightarrow> ticket" where
  "nth_ticket k = \<lparr>since_epoch = None, sequence_no = k\<rparr>"

definition busy :: process where
  "busy = \<lparr>request_counter = 3, free_workers = 0\<rparr>"

definition three_searches :: "phase list" where
  "three_searches = [Packs (nth_ticket 0) sample_job, Packs (nth_ticket 1) sample_job,
     Named (nth_ticket 2) (Some sample_job)]"

lemma process_step_at:
  "i < length rs \<Longrightarrow> request_step lib p r p' r' \<Longrightarrow> r = rs ! i \<Longrightarrow> rs' = rs[i := r'] \<Longrightarrow>
     process_step lib (p, rs) (p', rs')"
  by (simp add: process_step.step)

lemma request_name:
  "p' = p\<lparr>request_counter := request_counter p + 1\<rparr> \<Longrightarrow> k = request_counter p \<Longrightarrow>
     request_step lib p (Arrived j) p' (Named (nth_ticket k) j)"
  by (intro request_step.name) (simp add: draw_def nth_ticket_def new_request_id_def)

lemma three_searches_run:
  "(process_step lib ^^ 5) (process_start, map Arrived (replicate 3 (Some sample_job)))
     (busy, three_searches)"
proof -
  let ?J = "Some sample_job" and ?N = "\<lambda>k. Named (nth_ticket k) (Some sample_job)"
  let ?P = "\<lambda>k. Packs (nth_ticket k) sample_job"
  let ?p = "\<lambda>c w. \<lparr>request_counter = c, free_workers = w\<rparr>"
  have "process_step lib (?p 0 2, [Arrived ?J, Arrived ?J, Arrived ?J]) (?p 1 2, [?N 0, Arrived ?J, Arrived ?J])"
    by (rule process_step_at [of 0, OF _ request_name]) simp_all
  moreover have "process_step lib (?p 1 2, [?N 0, Arrived ?J, Arrived ?J]) (?p 2 2, [?N 0, ?N 1, Arrived ?J])"
    by (rule process_step_at [of 1, OF _ request_name]) simp_all
  moreover have "process_step lib (?p 2 2, [?N 0, ?N 1, Arrived ?J]) (?p 3 2, [?N 0, ?N 1, ?N 2])"
    by (rule process_step_at [of 2, OF _ request_name]) simp_all
  moreover have "process_step lib (?p 3 2, [?N 0, ?N 1, ?N 2]) (?p 3 1, [?P 0, ?N 1, ?N 2])"
    by (rule process_step_at [of 0, OF _ request_step.start])
      (simp_all add: sample_job_def take_worker_def)
  moreover have "process_step lib (?p 3 1, [?P 0, ?N 1, ?N 2]) (?p 3 0, [?P 0, ?P 1, ?N 2])"
    by (rule process_step_at [of 1, OF _ request_step.start])
      (simp_all add: sample_job_def take_worker_def)
  ultimately show ?thesis
    unfolding process_start_def busy_def three_searches_def
    by (simp add: numeral_eq_Suc relcompp_apply) blast
qed

lemma three_searches_reachable:
  "reachable lib (replicate 3 (Some sample_job)) busy three_searches"
  using three_searches_run unfolding reachable_def by (rule relpowp_imp_rtranclp)

theorem process_packings_witness:
  "\<exists>r. request_step sample_library busy (three_searches ! 2) busy r \<and> turned_away (three_searches ! 2) r
     \<and> packing_now three_searches = 2"
proof -
  let ?r = "Answered (nth_ticket 2) (Some sample_job)
    (Some (run_job sample_library (free_workers busy) True sample_job))"
  have s: "request_step sample_library busy (three_searches ! 2) busy ?r"
    unfolding three_searches_def
    by (simp, intro request_step.refused) (simp add: take_worker_def busy_def)
  moreover have t: "turned_away (three_searches ! 2) ?r"
    by (simp add: three_searches_def sample_job_def)
  moreover have "2 < length three_searches" by (simp add: three_searches_def)
  ultimately show ?thesis
    using process_packings [OF three_searches_reachable [of sample_library]] by blast
qed

theorem process_identifiers_witness:
  "ticket_id (nth_ticket 0) \<noteq> ticket_id (nth_ticket 2) \<and> length (ticket_id (nth_ticket 0)) = 36"
  by (rule process_identifiers [OF three_searches_reachable [of sample_library], of 0 2])
    (simp_all add: three_searches_def)

end
