(* ===== verification/Bench_Trace.thy ===== *)
theory Bench_Trace
  imports Packing_Correct
begin

text \<open>
  The benchmark trace (\<open>src/src/benchmark_trace.rs\<close>) and the packing loop of
  \<open>src/src/lib.rs\<close> as it is compiled with the \<open>benchmark-trace\<close> feature. The task-local
  \<open>EVENTS\<close> is an optional list of events, absent outside a capture scope. A traced operation is a
  function of the log that returns its result and the log; the loop below has the observations of
  the source at the same places. A JSON event keeps its fields; a column that cannot be read is
  null.
\<close>

section \<open>Events and scopes\<close>

record row_observation =
  ob_ordinal :: nat
  ob_decision :: str
  ob_remaining :: nat
  ob_selected :: nat
  ob_texts :: "(str \<times> str option) list"
  ob_parents :: "str list option"
  ob_omitted :: "bool option"

datatype trace_event =
    Packing_Event row_observation
  | Whole_Passage nat nat bool
  | Token_Count nat nat nat bool
  | Sql_Candidates "str option"

type_synonym trace_log = "trace_event list option"

definition enabled :: "trace_log \<Rightarrow> bool" where
  "enabled log = (log \<noteq> None)"

definition record_event :: "trace_event \<Rightarrow> trace_log \<Rightarrow> trace_log" where
  "record_event event log = map_option (\<lambda>events. events @ [event]) log"

text \<open>\<open>capture\<close>, and \<open>capture_sync\<close> for a blocking computation: a new scope, whose events are taken
  at its end, inside whatever scope there is.\<close>

definition capture :: "(trace_log \<Rightarrow> 'a \<times> trace_log) \<Rightarrow> trace_log \<Rightarrow> ('a \<times> trace_event list) \<times> trace_log" where
  "capture run log =
     (case run (Some []) of
        (output, inner) \<Rightarrow> ((output, (case inner of None \<Rightarrow> [] | Some events \<Rightarrow> events)), log))"

definition capture_sync :: "(trace_log \<Rightarrow> 'a \<times> trace_log) \<Rightarrow> trace_log \<Rightarrow> ('a \<times> trace_event list) \<times> trace_log" where
  "capture_sync run log =
     (case run (Some []) of
        (result, inner) \<Rightarrow> ((result, (case inner of None \<Rightarrow> [] | Some events \<Rightarrow> events)), log))"

section \<open>Observing rows\<close>

definition observed_columns :: "str list" where
  "observed_columns =
     [''item_id'', ''revision_id'', ''source_revision_id'', ''extraction_set_id'', ''passage_id'',
      ''hit_kind'', ''locator'', ''content'', ''recorded_at'', ''valid_from'', ''valid_until'',
      ''validity_status'']"

text \<open>\<open>try_get\<close> with its error discarded (\<open>.ok().flatten()\<close>).\<close>

fun ok_value :: "'e + 'a \<Rightarrow> 'a option" where
  "ok_value (Inr a) = Some a"
| "ok_value (Inl _) = None"

definition observation :: "pg_row \<Rightarrow> nat \<Rightarrow> str \<Rightarrow> nat \<Rightarrow> nat \<Rightarrow> row_observation" where
  "observation row ordinal decision bytes_left selected =
     \<lparr>ob_ordinal = ordinal, ob_decision = decision, ob_remaining = bytes_left,
      ob_selected = selected,
      ob_texts = map (\<lambda>key. (key, Option.bind (ok_value (get_opt_text row key)) (\<lambda>x. x)))
                   observed_columns,
      ob_parents = ok_value (get_texts row ''parent_passage_ids''),
      ob_omitted = ok_value (get_bool row ''candidate_omitted'')\<rparr>"

definition trace_row :: "pg_row \<Rightarrow> nat \<Rightarrow> str \<Rightarrow> nat \<Rightarrow> nat \<Rightarrow> trace_log \<Rightarrow> trace_log" where
  "trace_row row ordinal decision bytes_left selected log =
     (if \<not> enabled log then log
      else record_event (Packing_Event (observation row ordinal decision bytes_left selected)) log)"

definition trace_tail :: "pg_row list \<Rightarrow> nat \<Rightarrow> str \<Rightarrow> nat \<Rightarrow> nat \<Rightarrow> trace_log \<Rightarrow> trace_log" where
  "trace_tail rows start decision bytes_left selected log =
     (if enabled log then
        fold (\<lambda>(ordinal, item). trace_row item ordinal decision bytes_left selected)
          (drop start (enumerate 0 rows)) log
      else log)"

section \<open>The traced loop\<close>

text \<open>Sequencing of traced fallible operations.\<close>

type_synonym 'a traced = "trace_log \<Rightarrow> (request_failure + 'a) \<times> trace_log"

definition traced :: "request_failure + 'a \<Rightarrow> 'a traced" where
  "traced r log = (r, log)"

definition then_traced :: "'a traced \<Rightarrow> ('a \<Rightarrow> 'b traced) \<Rightarrow> 'b traced" where
  "then_traced m f log =
     (case m log of
        (Inl e, log) \<Rightarrow> (Inl e, log)
      | (Inr a, log) \<Rightarrow> f a log)"

definition noting :: "(trace_log \<Rightarrow> trace_log) \<Rightarrow> 'a traced \<Rightarrow> 'a traced" where
  "noting note m log = m (note log)"

definition take_whole_traced ::
    "excerpt_budget \<Rightarrow> str \<Rightarrow> trace_log \<Rightarrow> (str option \<times> excerpt_budget) \<times> trace_log" where
  "take_whole_traced b content log =
     (let log = record_event
                  (Whole_Passage (length content) (remaining b) (length content \<le> remaining b)) log
      in if length content > remaining b then ((None, b\<lparr>truncated := True\<rparr>), log)
         else ((Some content, b\<lparr>remaining := remaining b - length content\<rparr>), log))"

definition search_item_row_traced ::
    "library \<Rightarrow> pg_row \<Rightarrow> excerpt_budget \<Rightarrow> str \<Rightarrow> bool \<Rightarrow> (search_item option \<times> excerpt_budget) traced" where
  "search_item_row_traced lib row b status whole_only =
     then_traced (traced (column get_text row ''content'')) (\<lambda>content.
     then_traced (traced (column get_text row ''hit_kind'')) (\<lambda>hit_kind log.
       case (if passage_kind hit_kind \<or> whole_only then take_whole_traced b content log
             else (take_excerpt b content, log)) of
         ((None, b), log) \<Rightarrow> (Inr (None, b), log)
       | ((Some taken, b), log) \<Rightarrow>
           (res_bind (row_item lib row hit_kind status taken) (\<lambda>item. Inr (Some item, b)), log)))"

definition work_admit_traced ::
    "library \<Rightarrow> work \<Rightarrow> search_item list \<Rightarrow> search_item \<Rightarrow> (bool \<times> work) traced" where
  "work_admit_traced lib w found candidate =
     then_traced (traced (render_evidence lib found (Some candidate))) (\<lambda>text.
     then_traced (traced (work_count lib w text)) (\<lambda>(count, w).
       let most = unat (context_max_tokens (work_context w)); accepted = (count \<le> most) in
       noting (record_event (Token_Count count most (length text) accepted))
         (traced (Inr
           (if accepted then
              (True, w\<lparr>work_context :=
                 (work_context w)\<lparr>context_text := text, token_count := count\<rparr>\<rparr>)
            else (False, w))))))"

definition offer_traced ::
    "library \<Rightarrow> work option \<Rightarrow> search_item list \<Rightarrow> search_item \<Rightarrow> (bool \<times> work option) traced" where
  "offer_traced lib tokens accepted item =
     (case tokens of
        None \<Rightarrow> traced (Inr (True, None))
      | Some w \<Rightarrow>
          then_traced (work_admit_traced lib w accepted item) (\<lambda>(ok, w). traced (Inr (ok, Some w))))"

definition consider_row_traced ::
    "library \<Rightarrow> str \<Rightarrow> pg_row list \<Rightarrow> nat \<Rightarrow> pg_row \<Rightarrow> str \<Rightarrow> passage_source option
      \<Rightarrow> (passage_source \<times> str) option \<Rightarrow> pack_state \<Rightarrow> loop_control traced" where
  "consider_row_traced lib status rows ordinal row hit_kind source_key passage_identity st =
     (let remaining_before = remaining (budget st) in
      then_traced (search_item_row_traced lib row (budget st) status (token_work st \<noteq> None))
        (\<lambda>(found, b).
        case found of
          None \<Rightarrow>
            noting (trace_row row ordinal ''byte_budget'' (remaining b) (length (items st)))
              (if remaining b > 0 then traced (Inr (Continue (st\<lparr>budget := b\<rparr>)))
               else
                 noting (trace_tail rows (ordinal + 1) ''unvisited_byte_stop'' (remaining b)
                           (length (items st)))
                   (traced (Inr (Break (st\<lparr>budget := b\<rparr>)))))
        | Some item \<Rightarrow>
            then_traced (offer_traced lib (token_work st) (items st) item) (\<lambda>(ok, tokens).
              if \<not> ok then
                noting (trace_row row ordinal ''token_budget'' remaining_before (length (items st)))
                  (traced (Inr (Continue
                    (st\<lparr>budget := b\<lparr>remaining := remaining_before, truncated := True\<rparr>,
                        token_work := tokens\<rparr>))))
              else
                noting (trace_row row ordinal ''accepted'' (remaining b) (length (items st) + 1))
                  (traced (Inr (Continue
                    (accept hit_kind source_key passage_identity item
                      (st\<lparr>budget := b, token_work := tokens\<rparr>))))))))"

definition pack_row_traced ::
    "library \<Rightarrow> str \<Rightarrow> pg_row list \<Rightarrow> nat \<Rightarrow> pg_row \<Rightarrow> pack_state \<Rightarrow> loop_control traced" where
  "pack_row_traced lib status rows ordinal row st =
     (let note = (\<lambda>decision. trace_row row ordinal decision (remaining (budget st))
                    (length (items st))) in
      if length (items st) = 12 then
        noting (trace_tail rows ordinal ''unvisited_item_limit'' (remaining (budget st))
                  (length (items st)))
          (traced (Inr (Break st)))
      else
        then_traced (traced (column get_text row ''hit_kind'')) (\<lambda>hit_kind.
        then_traced (traced (passage_source_key row (passage_kind hit_kind))) (\<lambda>source_key.
        then_traced (traced (identify row source_key)) (\<lambda>passage_identity.
        then_traced (traced (orphan row hit_kind source_key st)) (\<lambda>no_parent.
          if no_parent then noting (note ''parent_not_accepted'') (traced (Inr (Continue (omit st))))
          else if (case passage_identity of None \<Rightarrow> False | Some i \<Rightarrow> i \<in> accepted_passages st)
          then noting (note ''duplicate_passage'') (traced (Inr (Continue (omit st))))
          else if (case source_key of None \<Rightarrow> False | Some key \<Rightarrow> contributions st key = 4)
          then noting (note ''source_limit'') (traced (Inr (Continue (omit st))))
          else consider_row_traced lib status rows ordinal row hit_kind source_key passage_identity st)))))"

fun pack_rows_traced ::
    "library \<Rightarrow> str \<Rightarrow> pg_row list \<Rightarrow> nat \<Rightarrow> pg_row list \<Rightarrow> pack_state \<Rightarrow> pack_state traced" where
  "pack_rows_traced lib status rows ordinal [] st = traced (Inr st)"
| "pack_rows_traced lib status rows ordinal (row # left) st =
     then_traced (pack_row_traced lib status rows ordinal row st) (\<lambda>control.
       case control of
         Continue st \<Rightarrow> pack_rows_traced lib status rows (Suc ordinal) left st
       | Break st \<Rightarrow> traced (Inr st))"

definition pack_search_rows_traced ::
    "library \<Rightarrow> pg_row list \<Rightarrow> 16 word \<Rightarrow> str \<Rightarrow> work option
      \<Rightarrow> ((search_item list \<times> nat \<times> bool) \<times> work option) traced" where
  "pack_search_rows_traced lib rows byte_limit status tokens =
     then_traced (traced (first_column get_bool rows ''candidate_omitted'')) (\<lambda>first.
     let candidate_omitted = (case first of None \<Rightarrow> False | Some b \<Rightarrow> b) in
     then_traced (pack_rows_traced lib status rows 0 rows (pack_start (unat byte_limit) tokens)) (\<lambda>st.
       traced (Inr ((items st,
             unat byte_limit - remaining (budget st),
             candidate_omitted \<or> source_contribution_omitted st \<or> truncated (budget st)
               \<or> length rows > length (items st)),
            token_work st))))"

text \<open>
  \<open>pack\<close> with the feature: the blocking thread is outside the caller's scope, so it captures its own
  events when the caller observes, and the caller records them after the join.
\<close>

definition token_pack_traced ::
    "library \<Rightarrow> nat \<Rightarrow> bool \<Rightarrow> pg_row list \<Rightarrow> 16 word \<Rightarrow> str \<Rightarrow> allowance
      \<Rightarrow> ((search_item list \<times> nat \<times> bool) \<times> token_context) traced" where
  "token_pack_traced lib permits joined rows byte_limit status a log =
     (if length rows > 82 then (Inl ContextBudgetUnavailable, log)
      else if permits = 0 then (Inl ContextBudgetUnavailable, log)
      else
        let run =
          then_traced (traced (work_new lib a)) (\<lambda>work.
          then_traced (pack_search_rows_traced lib rows byte_limit status (Some work)) (\<lambda>(packed, tokens).
            traced (case tokens of
                Some work \<Rightarrow> Inr (packed, work_context work)
              | None \<Rightarrow> Inl ContextBudgetUnavailable)));
          (result, events) =
            (if enabled log then fst (capture_sync run None) else (fst (run None), []))
        in
        if \<not> joined then (Inl ContextBudgetUnavailable, log)
        else (result, fold record_event events log))"

section \<open>Observation only\<close>

text \<open>
  \<open>observes m r\<close>: whatever the log, the traced operation has the result \<open>r\<close>, and it leaves an
  absent log absent and only appends to a present one.
\<close>

definition observes :: "'a traced \<Rightarrow> request_failure + 'a \<Rightarrow> bool" where
  "observes m r =
     (\<forall>log. fst (m log) = r
        \<and> (case log of
             None \<Rightarrow> snd (m log) = None
           | Some events \<Rightarrow> \<exists>more. snd (m log) = Some (events @ more)))"


definition appends :: "(trace_log \<Rightarrow> trace_log) \<Rightarrow> bool" where
  "appends note = (\<forall>log. case log of None \<Rightarrow> note None = None
     | Some events \<Rightarrow> \<exists>more. note (Some events) = Some (events @ more))"

lemma trace_row_None [simp]: "trace_row row i d b n None = None"
  by (simp add: trace_row_def enabled_def)

lemma trace_row_Some [simp]:
  "trace_row row i d b n (Some events) = Some (events @ [Packing_Event (observation row i d b n)])"
  by (simp add: trace_row_def enabled_def record_event_def)

lemma trace_tail_None [simp]: "trace_tail rows i d b n None = None"
  by (simp add: trace_tail_def enabled_def)

lemma fold_trace_row:
  "fold (\<lambda>(i, row). trace_row row i d b n) xs (Some events)
     = Some (events @ map (\<lambda>(i, row). Packing_Event (observation row i d b n)) xs)"
  by (induction xs arbitrary: events) auto

lemma trace_tail_Some [simp]:
  "trace_tail rows i d b n (Some events)
     = Some (events @ map (\<lambda>(i, row). Packing_Event (observation row i d b n))
                        (drop i (enumerate 0 rows)))"
  by (simp add: trace_tail_def enabled_def fold_trace_row)

lemma appends_notes [intro!]:
  "appends (trace_row row i d b n)" "appends (trace_tail rows i d b n)" "appends (record_event e)"
  by (auto simp: appends_def record_event_def split: option.split)

lemma observes_traced [intro!]: "observes (traced r) r"
  by (auto simp: observes_def traced_def split: option.split)

lemma observes_noting [intro!]:
  assumes n: "appends note" and m: "observes m r"
  shows "observes (noting note m) r"
  unfolding observes_def
proof (intro allI)
  fix log
  show "fst (noting note m log) = r
      \<and> (case log of None \<Rightarrow> snd (noting note m log) = None
         | Some events \<Rightarrow> \<exists>more. snd (noting note m log) = Some (events @ more))"
  proof (cases log)
    case None
    then have "note log = None" using n by (auto simp: appends_def split: option.splits)
    moreover have "fst (m None) = r \<and> snd (m None) = None"
      using m [unfolded observes_def, rule_format, of None] by simp
    ultimately show ?thesis using None by (simp add: noting_def)
  next
    case (Some events)
    then obtain more where l: "note log = Some (events @ more)"
      using n by (auto simp: appends_def split: option.splits)
    have "fst (m (Some (events @ more))) = r
        \<and> (\<exists>x. snd (m (Some (events @ more))) = Some ((events @ more) @ x))"
      using m [unfolded observes_def, rule_format, of "Some (events @ more)"] by simp
    with l Some show ?thesis by (auto simp: noting_def)
  qed
qed

lemma observes_then [intro!]:
  assumes m: "observes m r" and f: "\<And>a. r = Inr a \<Longrightarrow> observes (f a) (g a)"
  shows "observes (then_traced m f) (res_bind r g)"
  unfolding observes_def
proof (intro allI)
  fix log
  obtain l where l: "m log = (r, l)" "case log of None \<Rightarrow> l = None | Some events \<Rightarrow> \<exists>more. l = Some (events @ more)"
    using m unfolding observes_def by (metis prod.collapse option.case_eq_if)
  show "fst (then_traced m f log) = res_bind r g
      \<and> (case log of None \<Rightarrow> snd (then_traced m f log) = None
         | Some events \<Rightarrow> \<exists>more. snd (then_traced m f log) = Some (events @ more))"
  proof (cases r)
    case (Inl e)
    with l show ?thesis by (auto simp: then_traced_def split: option.splits)
  next
    case (Inr a)
    have "fst (f a l) = g a" "case l of None \<Rightarrow> snd (f a l) = None
        | Some events \<Rightarrow> \<exists>more. snd (f a l) = Some (events @ more)"
      using f [OF Inr] unfolding observes_def by auto
    with l Inr show ?thesis by (auto simp: then_traced_def split: option.splits)
  qed
qed

lemma observes_search_item_row:
  "observes (search_item_row_traced lib row b status whole) (search_item_row lib row b status whole)"
  unfolding search_item_row_traced_def search_item_row_def
  apply (intro observes_then observes_traced)
  apply (auto simp: observes_def admit_content_def take_whole_def take_whole_traced_def Let_def
      record_event_def split: option.split prod.split)
  done

lemma observes_offer: "observes (offer_traced lib tokens xs x) (offer lib tokens xs x)"
proof (cases tokens)
  case (Some w)
  have "observes (work_admit_traced lib w xs x) (work_admit lib w xs x)"
    unfolding work_admit_traced_def work_admit_def Let_def
    by (auto intro!: observes_then simp flip: if_distrib[of Inr])
  then have "observes (offer_traced lib (Some w) xs x)
      (res_bind (work_admit lib w xs x) (\<lambda>(ok, w). Inr (ok, Some w)))"
    unfolding offer_traced_def by (auto intro!: observes_then)
  then show ?thesis
    using Some by (cases "work_admit lib w xs x") (auto simp: offer_def)
qed (auto simp: offer_traced_def offer_def)

lemma observes_consider:
  "observes (consider_row_traced lib status rows i row h key identity st)
     (consider_row lib status row h key identity st)"
  unfolding consider_row_traced_def consider_row_def Let_def
  by (intro observes_then observes_search_item_row)
    (auto intro!: observes_then observes_offer split: option.split prod.split)

lemma observes_pack_row:
  "observes (pack_row_traced lib status rows i row st) (pack_row lib status row st)"
  unfolding pack_row_traced_def pack_row_def Let_def
  by (auto intro!: observes_then observes_consider)

lemma observes_pack_rows:
  "observes (pack_rows_traced lib status rows i left st) (pack_rows lib status left st)"
proof (induction left arbitrary: i st)
  case (Cons row left)
  then show ?case
    by (auto intro!: observes_then observes_pack_row split: loop_control.split)
qed auto

lemma observes_pack_search_rows:
  "observes (pack_search_rows_traced lib rows bytes status tokens)
     (pack_search_rows lib rows bytes status tokens)"
  unfolding pack_search_rows_traced_def pack_search_rows_def Let_def
  by (intro observes_then observes_traced observes_pack_rows)

lemma fold_record_event [simp]:
  "fold record_event events None = None"
  "fold record_event events (Some es) = Some (es @ events)"
  by (induction events arbitrary: es) (auto simp: record_event_def)

lemma observes_token_pack:
  "observes (token_pack_traced lib permits joined rows bytes status a)
     (token_pack lib permits joined rows bytes status a)"
proof -
  define run where "run = then_traced (traced (work_new lib a)) (\<lambda>work.
      then_traced (pack_search_rows_traced lib rows bytes status (Some work)) (\<lambda>(packed, tokens).
        traced (case tokens of
            Some work \<Rightarrow> Inr (packed, work_context work)
          | None \<Rightarrow> Inl ContextBudgetUnavailable)))"
  define r where "r = res_bind (work_new lib a) (\<lambda>work.
      res_bind (pack_search_rows lib rows bytes status (Some work)) (\<lambda>(packed, tokens).
        case tokens of
            Some work \<Rightarrow> Inr (packed, work_context work)
          | None \<Rightarrow> Inl ContextBudgetUnavailable))"
  have "observes run r"
    unfolding run_def r_def by (auto intro!: observes_then observes_pack_search_rows split: prod.split)
  note observed = this[unfolded observes_def, THEN spec]
  have outside: "run None = (r, None)" using observed[of None] by (simp add: prod_eq_iff)
  obtain events where inside: "run (Some []) = (r, Some events)"
    using observed[of "Some []"] by (auto simp: prod_eq_iff)
  have "token_pack_traced lib permits joined rows bytes status a log
      = (token_pack lib permits joined rows bytes status a,
         if length rows > 82 \<or> permits = 0 \<or> \<not> joined then log else fold record_event events log)" for log
    unfolding token_pack_traced_def token_pack_def run_def [symmetric] r_def [symmetric] Let_def
    by (cases log) (simp_all add: outside inside enabled_def capture_sync_def)
  then show ?thesis by (auto simp: observes_def split: option.split)
qed

section \<open>What the trace reports\<close>

text \<open>The rows an event list reports on, in order, and how many of them it calls accepted.\<close>

definition visited :: "trace_event list \<Rightarrow> nat list" where
  "visited events = concat (map (\<lambda>e. case e of Packing_Event ob \<Rightarrow> [ob_ordinal ob] | _ \<Rightarrow> []) events)"

definition accepted_events :: "trace_event list \<Rightarrow> nat" where
  "accepted_events events = length (filter (\<lambda>e. case e of
       Packing_Event ob \<Rightarrow> ob_decision ob = ''accepted'' | _ \<Rightarrow> False) events)"

lemma report_simps [simp]:
  "visited [] = []" "visited (xs @ ys) = visited xs @ visited ys"
  "visited (Whole_Passage a b c # xs) = visited xs"
  "visited (Token_Count a b k ok # xs) = visited xs"
  "visited (Packing_Event ob # xs) = ob_ordinal ob # visited xs"
  "accepted_events [] = 0" "accepted_events (xs @ ys) = accepted_events xs + accepted_events ys"
  "accepted_events (Whole_Passage a b c # xs) = accepted_events xs"
  "accepted_events (Token_Count a b k ok # xs) = accepted_events xs"
  "accepted_events (Packing_Event ob # xs)
     = (if ob_decision ob = ''accepted'' then 1 else 0) + accepted_events xs"
  by (simp_all add: visited_def accepted_events_def)

lemma observation_simps [simp]:
  "ob_ordinal (observation row i d b n) = i" "ob_decision (observation row i d b n) = d"
  by (simp_all add: observation_def)

lemma visited_tail:
  "visited (map (\<lambda>(i, row). Packing_Event (observation row i d b n)) xs) = map fst xs"
  "d \<noteq> ''accepted'' \<Longrightarrow>
     accepted_events (map (\<lambda>(i, row). Packing_Event (observation row i d b n)) xs) = 0"
  by (induction xs) auto

lemma enumerated_tail: "map fst (drop i (enumerate 0 rows)) = [i..<length rows]"
  by (simp add: drop_map [symmetric] drop_upt)

text \<open>\<open>reports i n st r events\<close>: the events of one visit of row \<open>i\<close> of \<open>n\<close> rows.\<close>

definition reports :: "nat \<Rightarrow> nat \<Rightarrow> pack_state \<Rightarrow> loop_control \<Rightarrow> trace_event list \<Rightarrow> bool" where
  "reports i n st control events =
     (case control of
        Continue st' \<Rightarrow> visited events = [i]
          \<and> length (items st') = length (items st) + accepted_events events
      | Break st' \<Rightarrow> visited events = [i..<n]
          \<and> length (items st') = length (items st) + accepted_events events)"

lemma then_traced_Inr:
  "then_traced m f log = (Inr b, log') \<longleftrightarrow>
     (\<exists>a l. m log = (Inr a, l) \<and> f a l = (Inr b, log'))"
  by (auto simp: then_traced_def split: prod.splits sum.splits)

lemma traced_Inr: "traced r log = (Inr a, log') \<longleftrightarrow> r = Inr a \<and> log' = log"
  by (auto simp: traced_def)

lemma search_item_row_report:
  "search_item_row_traced lib row b status whole (Some events) = (Inr r, log') \<Longrightarrow>
     \<exists>more. log' = Some (events @ more) \<and> visited more = [] \<and> accepted_events more = 0"
  unfolding search_item_row_traced_def
  by (auto simp: then_traced_Inr traced_Inr take_whole_traced_def record_event_def Let_def
      split: if_splits option.splits prod.splits)

lemma offer_report:
  "offer_traced lib tokens xs x (Some events) = (Inr r, log') \<Longrightarrow>
     \<exists>more. log' = Some (events @ more) \<and> visited more = [] \<and> accepted_events more = 0"
  unfolding offer_traced_def work_admit_traced_def
  by (auto simp: then_traced_Inr traced_Inr noting_def record_event_def Let_def
      split: if_splits option.splits prod.splits)

lemma consider_row_report:
  assumes "consider_row_traced lib status rows i row h key identity st (Some events)
      = (Inr control, log')"
    and "i < length rows"
  shows "\<exists>more. log' = Some (events @ more) \<and> reports i (length rows) st control more"
proof -
  from assms(1) obtain found b l where
    s: "search_item_row_traced lib row (budget st) status (token_work st \<noteq> None) (Some events)
        = (Inr (found, b), l)" and
    k: "(case found of
          None \<Rightarrow>
            noting (trace_row row i ''byte_budget'' (remaining b) (length (items st)))
              (if remaining b > 0 then traced (Inr (Continue (st\<lparr>budget := b\<rparr>)))
               else
                 noting (trace_tail rows (i + 1) ''unvisited_byte_stop'' (remaining b)
                           (length (items st)))
                   (traced (Inr (Break (st\<lparr>budget := b\<rparr>)))))
        | Some item \<Rightarrow>
            then_traced (offer_traced lib (token_work st) (items st) item) (\<lambda>(ok, tokens).
              if \<not> ok then
                noting (trace_row row i ''token_budget'' (remaining (budget st)) (length (items st)))
                  (traced (Inr (Continue
                    (st\<lparr>budget := b\<lparr>remaining := remaining (budget st), truncated := True\<rparr>,
                        token_work := tokens\<rparr>))))
              else
                noting (trace_row row i ''accepted'' (remaining b) (length (items st) + 1))
                  (traced (Inr (Continue
                    (accept h key identity item
                      (st\<lparr>budget := b, token_work := tokens\<rparr>))))))) l = (Inr control, log')"
    unfolding consider_row_traced_def Let_def then_traced_Inr by auto
  obtain more where l: "l = Some (events @ more)" "visited more = []" "accepted_events more = 0"
    using search_item_row_report [OF s] by blast
  have u: "i # [Suc i..<length rows] = [i..<length rows]"
    using assms(2) by (simp add: upt_conv_Cons)
  show ?thesis
  proof (cases found)
    case None
    with k l u show ?thesis
      by (auto simp: noting_def traced_Inr reports_def visited_tail enumerated_tail split: if_splits)
  next
    case (Some item)
    then obtain ok tokens l2 where o: "offer_traced lib (token_work st) (items st) item l = (Inr (ok, tokens), l2)"
      using k by (auto simp: then_traced_Inr)
    then obtain extra where "l2 = Some ((events @ more) @ extra)" "visited extra = []"
      "accepted_events extra = 0"
      using offer_report l(1) by blast
    with o k l Some show ?thesis
      by (cases ok)
        (auto simp: then_traced_def traced_def noting_def reports_def accept_fields)
  qed
qed

lemma pack_row_report:
  assumes "pack_row_traced lib status rows i row st (Some events) = (Inr control, log')"
    and "i < length rows"
  shows "\<exists>more. log' = Some (events @ more) \<and> reports i (length rows) st control more"
proof (cases "length (items st) = 12")
  case True
  with assms(1) show ?thesis
    by (auto simp: pack_row_traced_def Let_def noting_def traced_Inr reports_def visited_tail
        enumerated_tail)
next
  case False
  with assms show ?thesis
    by (auto simp: pack_row_traced_def Let_def noting_def traced_Inr then_traced_Inr reports_def omit_def
        dest: consider_row_report split: if_splits)
qed

lemma pack_rows_report:
  assumes "pack_rows_traced lib status rows i left st (Some events) = (Inr st', log')"
    and "i + length left = length rows"
  shows "\<exists>more. log' = Some (events @ more) \<and> visited more = [i..<length rows]
    \<and> length (items st') = length (items st) + accepted_events more"
  using assms
proof (induction left arbitrary: i st events)
  case Nil
  then show ?case by (auto simp: traced_Inr)
next
  case (Cons row left)
  from Cons.prems obtain control l where
    c: "pack_row_traced lib status rows i row st (Some events) = (Inr control, l)" and
    k: "(case control of Continue st \<Rightarrow> pack_rows_traced lib status rows (Suc i) left st
         | Break st \<Rightarrow> traced (Inr st)) l = (Inr st', log')"
    by (auto simp: then_traced_Inr)
  have i: "i < length rows" using Cons.prems(2) by simp
  obtain more where m: "l = Some (events @ more)" "reports i (length rows) st control more"
    using pack_row_report [OF c i] by blast
  show ?case
  proof (cases control)
    case (Break st1)
    with k m show ?thesis by (auto simp: traced_Inr reports_def)
  next
    case (Continue st1)
    with k m have "pack_rows_traced lib status rows (Suc i) left st1 (Some (events @ more)) = (Inr st', log')"
      by simp
    from Cons.IH [OF this] Cons.prems(2) obtain rest where
      "log' = Some ((events @ more) @ rest)" "visited rest = [Suc i..<length rows]"
      "length (items st') = length (items st1) + accepted_events rest"
      by auto
    with m Continue i show ?thesis
      by (intro exI [of _ "more @ rest"]) (simp add: reports_def upt_conv_Cons)
  qed
qed

section \<open>Properties\<close>

text \<open>
  C16. The benchmark trace only observes: with the feature on, packing gives exactly the result it
  gives without it, in every case and for every log; outside a capture scope nothing is recorded,
  and inside one the events are only appended to. The same holds for the result of packing on a worker
  thread under a token budget, which captures its events apart and records them after the join.
\<close>

theorem trace_observes_packing:
  "fst (pack_search_rows_traced lib rows bytes status tokens log)
     = pack_search_rows lib rows bytes status tokens
   \<and> (case log of
        None \<Rightarrow> snd (pack_search_rows_traced lib rows bytes status tokens log) = None
      | Some events \<Rightarrow> \<exists>more. snd (pack_search_rows_traced lib rows bytes status tokens log)
          = Some (events @ more))
   \<and> fst (token_pack_traced lib permits joined rows bytes status a log)
     = token_pack lib permits joined rows bytes status a"
  using observes_pack_search_rows observes_token_pack unfolding observes_def by blast

text \<open>
  C39. The trace is complete: captured around a successful packing, it reports on every returned row
  exactly once and in rank order, it calls accepted exactly as many rows as the response has items,
  and the scope outside the capture is left as it was.
\<close>

theorem trace_reports_every_row:
  assumes "capture_sync (pack_search_rows_traced lib rows bytes status tokens) log
    = ((Inr ((found, used, short), tokens'), events), log')"
  shows "visited events = [0..<length rows] \<and> accepted_events events = length found \<and> log' = log"
proof -
  from assms obtain inner where
    p: "pack_search_rows_traced lib rows bytes status tokens (Some [])
        = (Inr ((found, used, short), tokens'), inner)" and
    e: "events = (case inner of None \<Rightarrow> [] | Some es \<Rightarrow> es)" "log' = log"
    by (auto simp: capture_sync_def split: prod.splits)
  from p obtain st where
    "pack_rows_traced lib status rows 0 rows (pack_start (unat bytes) tokens) (Some []) = (Inr st, inner)"
    "found = items st"
    by (auto simp: pack_search_rows_traced_def Let_def then_traced_Inr traced_Inr)
  with pack_rows_report [OF this(1)] e show ?thesis
    by (auto simp: pack_start_def)
qed

theorem trace_reports_every_row_witness:
  "\<exists>events. capture_sync (pack_search_rows_traced sample_library sample_rows 10 ''ready'' None) None
      = ((Inr ((sample_found, 7, True), None), events), None)
    \<and> visited events = [0..<length sample_rows]
    \<and> accepted_events events = length sample_found"
proof -
  obtain inner where "pack_search_rows_traced sample_library sample_rows 10 ''ready'' None (Some [])
      = (Inr ((sample_found, 7, True), None), inner)"
    using observes_pack_search_rows [of sample_library sample_rows 10 "''ready''" None] sample_packing
    unfolding observes_def by (metis prod.collapse)
  then have c: "capture_sync (pack_search_rows_traced sample_library sample_rows 10 ''ready'' None) None
      = ((Inr ((sample_found, 7, True), None),
          (case inner of None \<Rightarrow> [] | Some events \<Rightarrow> events)), None)"
    by (simp add: capture_sync_def)
  with trace_reports_every_row [OF c] show ?thesis by blast
qed

end
