(* ===== verification/Search_Trace.thy ===== *)
theory Search_Trace
  imports Search_Path Bench_Trace
begin

text \<open>
  The search route of \<open>src/src/lib.rs\<close> as it is compiled with the \<open>benchmark-trace\<close> feature: inside a
  capture scope the search transaction makes two more settings, asks for the candidates the database
  functions noted, and observes the returned rows and the packing. A logged operation is a program
  that also takes and returns the event log of the task. The route is shown to be the plain one
  outside a capture scope, and to keep the session discipline inside one.
\<close>

section \<open>Logged programs\<close>

type_synonym 'a logged = "trace_log \<Rightarrow> ((request_failure + 'a) \<times> trace_log) prog"

definition unlogged :: "(request_failure + 'a) prog \<Rightarrow> 'a logged" where
  "unlogged p log = andthen p (\<lambda>r. give (r, log))"

definition then_logged :: "'a logged \<Rightarrow> ('a \<Rightarrow> 'b logged) \<Rightarrow> 'b logged" where
  "then_logged m f log =
     andthen (m log) (\<lambda>(r, log). case r of Inl e \<Rightarrow> give (Inl e, log) | Inr a \<Rightarrow> f a log)"

section \<open>The traced search transaction\<close>

definition benchmark_settings :: "unit logged" where
  "benchmark_settings log =
     (if enabled log then
        unlogged
          (try_then (or_err Storage (set_local ''app.benchmark_search_trace'' ''enabled'')) (\<lambda>_.
             or_err Storage (set_local ''app.benchmark_search_trace_rows'' ''''))) log
      else give (Inr (), log))"

definition observe_candidates :: "pg_row list \<Rightarrow> nat \<Rightarrow> unit logged" where
  "observe_candidates rows bytes log =
     (if enabled log then
        then_logged
          (unlogged
            (try_then (or_err Storage
                (fetch_one ''current_setting'' [P_text ''app.benchmark_search_trace_rows'']))
              (\<lambda>row. give (column get_opt_text row ''current_setting''))))
          (\<lambda>observed log.
             give (Inr (),
               fold (\<lambda>(ordinal, row). trace_row row ordinal ''sql_returned'' bytes 0)
                 (enumerate 0 rows) (record_event (Sql_Candidates observed) log))) log
      else give (Inr (), log))"

definition pack_rows_for_traced ::
    "library \<Rightarrow> search_input \<Rightarrow> str \<Rightarrow> pg_row list \<Rightarrow> nat \<Rightarrow> bool
      \<Rightarrow> ((search_item list \<times> nat \<times> bool) \<times> token_context option) traced" where
  "pack_rows_for_traced lib input status rows permits joined =
     (case context_token_budget input of
        Some a \<Rightarrow>
          then_traced
            (token_pack_traced lib permits joined rows (the (input_context_bytes input)) status a)
            (\<lambda>(packed, ctx). traced (Inr (packed, Some ctx)))
      | None \<Rightarrow>
          then_traced
            (pack_search_rows_traced lib rows (the (input_context_bytes input)) status None)
            (\<lambda>(packed, _). traced (Inr (packed, None))))"

definition search_memories_in_database_traced ::
    "library \<Rightarrow> bytes \<Rightarrow> caller \<Rightarrow> search_input \<Rightarrow> str \<Rightarrow> semantic_plan \<Rightarrow> search_response logged" where
  "search_memories_in_database_traced lib digest reader input request_id plan =
     then_logged (unlogged (open_read_transaction digest ''search'' (tenant_id reader))) (\<lambda>_.
     then_logged (unlogged (recheck_plan reader (scope input) plan)) (\<lambda>effective.
     then_logged benchmark_settings (\<lambda>_.
     then_logged (unlogged (or_err classify_list_database_error
                 (fetch_all (search_function effective (query_mode input))
                   (search_params reader request_id input effective)))) (\<lambda>rows.
     then_logged (observe_candidates rows (unat (the (input_context_bytes input)))) (\<lambda>_ log.
     andthen (observe on_permits) (\<lambda>permits.
     andthen (observe on_join) (\<lambda>joined.
     then_logged
       (\<lambda>log. give (pack_rows_for_traced lib input (plan_status effective) rows permits joined log))
       (\<lambda>((items, context_bytes, short), ctx).
     then_logged (unlogged (preparation_warnings input)) (\<lambda>extra.
     then_logged (unlogged (or_err Storage commit)) (\<lambda>_.
       unlogged (give (Inr
                 \<lparr>sr_request_id = request_id, sr_status = ''ready'', sr_items = items,
                  sr_context_bytes = context_bytes, sr_truncated = short,
                  sr_warnings = plan_diagnostics effective (rows = []) @ extra,
                  sr_context = ctx\<rparr>))))) log)))))))"

definition search_prepared_traced ::
    "library \<Rightarrow> str \<Rightarrow> prepared_search \<Rightarrow> search_response logged" where
  "search_prepared_traced lib request_id prepared log =
     (let digest = ps_digest prepared; reader = ps_reader prepared; input = ps_input prepared in
      andthen
        (if semantic input then
           make_semantic_plan lib digest reader (query input) (scope input) (semantic_query input)
         else give NotRequested) (\<lambda>plan.
      andthen (search_memories_in_database_traced lib digest reader input request_id plan log)
        (\<lambda>(first, log).
        if retry_lexically input plan first then
          search_memories_in_database_traced lib digest reader input request_id
            (Pending ''semantic_unavailable'') log
        else give (first, log))))"

definition search_memories_traced ::
    "library \<Rightarrow> search_limits \<Rightarrow> str \<Rightarrow> http_request \<Rightarrow> trace_log
      \<Rightarrow> (search_response response \<times> trace_log) prog" where
  "search_memories_traced lib limits request_id req log =
     andthen (prepare_search lib req limits) (\<lambda>r.
       case r of
         Inl rejection \<Rightarrow>
           andthen (finish_operation_error request_id (rejection_error rejection)
               (rejection_digest rejection) None SearchOp) (\<lambda>answer. give (answer, log))
       | Inr prepared \<Rightarrow>
           andthen (search_prepared_traced lib request_id prepared log) (\<lambda>(result, log).
             case result of
               Inl failure \<Rightarrow>
                 andthen (finish_operation_error request_id failure (Some (ps_digest prepared)) None
                     SearchOp) (\<lambda>answer. give (answer, log))
             | Inr found \<Rightarrow> give (Success 200 found, log)))"

section \<open>Outside a capture scope\<close>

text \<open>\<open>mirrors m p\<close>: without a log the logged operation is the plain one.\<close>

definition mirrors :: "'a logged \<Rightarrow> (request_failure + 'a) prog \<Rightarrow> bool" where
  "mirrors m p = (m None = andthen p (\<lambda>r. give (r, None)))"

lemma andthen_assoc: "andthen (andthen p f) g = andthen p (\<lambda>a. andthen (f a) g)"
  by (auto simp: andthen_def fun_eq_iff split: prod.splits outcome.splits)

lemma andthen_ext: "(\<And>a. f a = g a) \<Longrightarrow> andthen p f = andthen p g"
  by presburger

lemma andthen_if: "andthen (if b then p else q) f = (if b then andthen p f else andthen q f)"
  by simp

lemma andthen_give [simp]: "andthen (give a) f = f a"
  by (simp add: andthen_def give_def fun_eq_iff)

lemma mirrors_unlogged [intro!]: "mirrors (unlogged p) p"
  by (simp add: mirrors_def unlogged_def)

lemma mirrors_then [intro!]:
  assumes "mirrors m p" and "\<And>a. mirrors (f a) (g a)"
  shows "mirrors (then_logged m f) (try_then p g)"
proof -
  have "(case r of Inl e \<Rightarrow> give (Inl e, None) | Inr a \<Rightarrow> f a None)
      = andthen (case r of Inl e \<Rightarrow> give (Inl e) | Inr a \<Rightarrow> g a) (\<lambda>r. give (r, None))" for r
    using assms(2) by (cases r) (auto simp: mirrors_def)
  then show ?thesis
    using assms(1) by (simp add: mirrors_def then_logged_def try_then_def andthen_assoc)
qed

lemma mirrors_skips:
  assumes "mirrors (f ()) q"
  shows "mirrors (then_logged benchmark_settings f) q"
    and "mirrors (then_logged (observe_candidates rows bytes) f) q"
  using assms
  by (simp_all add: mirrors_def then_logged_def benchmark_settings_def observe_candidates_def
      enabled_def)

lemma mirrors_observe:
  assumes "\<And>a. mirrors (f a) (g a)"
  shows "mirrors (\<lambda>log. andthen (observe h) (\<lambda>a. f a log)) (andthen (observe h) g)"
  using assms by (simp add: mirrors_def andthen_assoc)

lemma observes_pack_rows_for:
  "observes (pack_rows_for_traced lib input status rows permits joined)
     (pack_rows_for lib input status rows permits joined)"
proof (cases "context_token_budget input")
  case None
  have "map_ok (\<lambda>(packed, _). (packed, None)) r = res_bind r (\<lambda>(packed, _). Inr (packed, None :: token_context option))"
    for r :: "request_failure + (search_item list \<times> nat \<times> bool) \<times> work option"
    by (cases r) auto
  with None show ?thesis
    by (auto simp: pack_rows_for_def pack_rows_for_traced_def intro!: observes_then observes_pack_search_rows)
next
  case (Some a)
  have "map_ok (\<lambda>(packed, ctx). (packed, Some ctx)) r = res_bind r (\<lambda>(packed, ctx). Inr (packed, Some ctx))"
    for r :: "request_failure + (search_item list \<times> nat \<times> bool) \<times> token_context"
    by (cases r) auto
  with Some show ?thesis
    by (auto simp: pack_rows_for_def pack_rows_for_traced_def intro!: observes_then observes_token_pack)
qed

lemma mirrors_observed: "observes m r \<Longrightarrow> mirrors (\<lambda>log. give (m log)) (give r)"
  unfolding observes_def mirrors_def by (drule spec[of _ None]) (simp add: give_def prod_eq_iff fun_eq_iff andthen_def)

lemma mirrors_search_database:
  "mirrors (search_memories_in_database_traced lib digest reader input i plan)
     (search_memories_in_database lib digest reader input i plan)"
  unfolding search_memories_in_database_traced_def search_memories_in_database_def
  by (intro mirrors_then mirrors_unlogged mirrors_skips mirrors_observe mirrors_observed
      observes_pack_rows_for)
    (auto intro!: mirrors_then split: prod.split)

lemma search_prepared_untraced:
  "search_prepared_traced lib i p None = andthen (search_prepared lib i p) (\<lambda>r. give (r, None))"
proof -
  have m: "search_memories_in_database_traced lib digest reader input i plan None
      = andthen (search_memories_in_database lib digest reader input i plan) (\<lambda>r. give (r, None))"
    for digest reader input plan
    using mirrors_search_database by (simp add: mirrors_def)
  show ?thesis
    unfolding search_prepared_traced_def search_prepared_def Let_def andthen_assoc
    by (intro andthen_ext) (simp add: m andthen_assoc andthen_if cong: if_cong)
qed

lemma search_memories_untraced:
  "search_memories_traced lib limits i req None
     = andthen (search_memories lib limits i req) (\<lambda>r. give (r, None))"
proof -
  show ?thesis
    unfolding search_memories_traced_def search_memories_def andthen_assoc
    by (intro andthen_ext)
      (auto simp: search_prepared_untraced andthen_assoc split: sum.split intro!: andthen_ext)
qed

section \<open>The log only grows\<close>

fun appended :: "trace_log \<Rightarrow> trace_log \<Rightarrow> bool" where
  "appended None log = (log = None)"
| "appended (Some events) log = (\<exists>more. log = Some (events @ more))"

lemma appended_refl [simp]: "appended log log"
  by (cases log) auto

lemma appended_trans: "appended a b \<Longrightarrow> appended b c \<Longrightarrow> appended a c"
  by (cases a) auto

definition appending :: "(trace_log \<Rightarrow> ('r \<times> trace_log) prog) \<Rightarrow> bool" where
  "appending m = (\<forall>log env c r log' c'. m log env c = (Finished (r, log'), c') \<longrightarrow> appended log log')"

lemma appending_unlogged [intro!]: "appending (unlogged p)"
  by (auto simp: appending_def unlogged_def effect_simps)

lemma appending_give [intro!]: "(\<And>log. appended log (snd (f log))) \<Longrightarrow> appending (\<lambda>log. give (f log))"
  by (auto simp: appending_def give_def) (metis snd_conv)

lemma appending_after [intro!]:
  "(\<And>a. appending (f a)) \<Longrightarrow> appending (\<lambda>log. andthen p (\<lambda>a. f a log))"
  unfolding appending_def by (fastforce simp: effect_simps)

lemma appending_before [intro!]:
  assumes "appending m" and "\<And>r. appending (f r)"
  shows "appending (\<lambda>log. andthen (m log) (\<lambda>(r, log). f r log))"
  unfolding appending_def
proof (intro allI impI)
  fix log env c r log' c'
  assume "andthen (m log) (\<lambda>(r, log). f r log) env c = (Finished (r, log'), c')"
  then obtain q l c1 where "m log env c = (Finished (q, l), c1)" "f q l env c1 = (Finished (r, log'), c')"
    by (auto simp: effect_simps)
  with assms show "appended log log'" unfolding appending_def by (blast intro: appended_trans)
qed

lemma appending_then [intro!]:
  assumes "appending m" and "\<And>a. appending (f a)"
  shows "appending (then_logged m f)"
proof -
  have "appending (\<lambda>log. case r of Inl e \<Rightarrow> give (Inl e, log) | Inr a \<Rightarrow> f a log)" for r
    using assms(2) by (cases r) auto
  from appending_before[OF assms(1) this] show ?thesis by (simp add: then_logged_def[abs_def])
qed

lemma appended_events:
  "appended log (record_event e log)"
  "appended log (fold (\<lambda>(i, row). trace_row row i d b n) xs log)"
proof -
  show "appended log (record_event e log)" by (cases log) (auto simp: record_event_def)
  show "appended log (fold (\<lambda>(i, row). trace_row row i d b n) xs log)"
  proof (cases log)
    case None
    then show ?thesis by (induction xs) auto
  qed (simp add: fold_trace_row)
qed

lemma appending_observed: "observes m r \<Longrightarrow> appending (\<lambda>log. give (m log))"
proof (rule appending_give)
  fix log
  assume "observes m r"
  then show "appended log (snd (m log))"
    unfolding observes_def by (cases log) (auto dest!: spec[of _ log])
qed

lemma appending_if: "appending f \<Longrightarrow> appending g \<Longrightarrow> appending (\<lambda>log. if P log then f log else g log)"
  by (simp add: appending_def)

lemma appending_sum:
  "(\<And>a. appending (f a)) \<Longrightarrow> (\<And>b. appending (g b)) \<Longrightarrow>
     appending (\<lambda>log. case r of Inl a \<Rightarrow> f a log | Inr b \<Rightarrow> g b log)"
  by (cases r) simp_all

lemma appending_search_database: "appending (search_memories_in_database_traced lib digest reader input i plan)"
proof -
  have settings: "appending benchmark_settings"
    unfolding benchmark_settings_def[abs_def] by (intro appending_if) auto
  have candidates: "appending (observe_candidates rows bytes)" for rows bytes
    unfolding observe_candidates_def[abs_def]
    by (intro appending_if appending_then appending_unlogged appending_give)
      (auto intro: appended_trans[OF appended_events(1) appended_events(2)])
  show ?thesis
    unfolding search_memories_in_database_traced_def
    by (auto intro!: settings candidates appending_observed[OF observes_pack_rows_for] split: prod.split)
qed

section \<open>Session discipline\<close>

lemma disciplined_unlogged:
  "disciplined env d s p (\<lambda>r t. Q (r, log) t) \<Longrightarrow> disciplined env d s (unlogged p log) Q"
  unfolding unlogged_def by (rule sessions.andthen) (auto intro: sessions.weaken sessions.give)

lemma logged_step:
  assumes "disciplined env d s (m log) (\<lambda>(r, _) t. \<forall>a. r = Inr a \<longrightarrow> K t)"
    and "\<And>a log t. K t \<Longrightarrow> disciplined env d t (f a log) (\<lambda>_ _. True)"
  shows "disciplined env d s (then_logged m f log) (\<lambda>_ _. True)"
  unfolding then_logged_def
  by (rule sessions.andthen, rule sessions.weaken[OF assms(1)])
    (use assms(2) in \<open>auto intro: sessions.give split: sum.split prod.split\<close>)

lemma plain_step:
  assumes "disciplined env d s p (\<lambda>r t. \<forall>a. r = Inr a \<longrightarrow> K t)"
    and "\<And>a log t. K t \<Longrightarrow> disciplined env d t (f a log) (\<lambda>_ _. True)"
  shows "disciplined env d s (then_logged (unlogged p) f log) (\<lambda>_ _. True)"
  by (rule logged_step[where K = K]) (use assms in \<open>auto intro!: disciplined_unlogged\<close>)

lemma opened_put:
  assumes "opened_for digest reader s"
    and "k \<noteq> ''statement_timeout''" "k \<noteq> ''app.credential_digest''" "k \<noteq> ''app.tenant_id''"
  shows "opened_for digest reader (session_step env s (Set_Local k v))"
  using assms by (auto simp: opened_for_def)

lemma disciplined_open_read:
  assumes "resolved s = Some reader"
  shows "disciplined env (Some digest) s
    (open_read_transaction digest operation (tenant_id reader))
    (\<lambda>r t. \<forall>a. r = Inr a \<longrightarrow> opened_for digest reader t)"
  unfolding open_read_transaction_def
  by (intro transaction_steps sessions.give) (use assms in \<open>auto simp: opened_for_def\<close>)

lemma disciplined_settings:
  assumes "opened_for digest reader s"
  shows "disciplined env (Some digest) s (benchmark_settings log)
    (\<lambda>(r, _) t. \<forall>a. r = Inr a \<longrightarrow> opened_for digest reader t)"
proof -
  have set: "disciplined env (Some digest) t (or_err Storage (set_local k v))
      (\<lambda>r t. r = Inr () \<longrightarrow> opened_for digest reader t)"
    if "opened_for digest reader t" "k = ''app.benchmark_search_trace_rows''" for t k v
    using that
    by (intro sessions.or_err session_set)
      (auto dest: opened_settings intro: opened_put)
  show ?thesis
    unfolding benchmark_settings_def
    using assms
    by (auto intro!: disciplined_unlogged sessions.give step_set set opened_put dest: opened_settings)
qed

lemma disciplined_candidates:
  assumes "opened_for digest reader s"
  shows "disciplined env (Some digest) s (observe_candidates rows bytes log)
    (\<lambda>(r, _) t. \<forall>a. r = Inr a \<longrightarrow> opened_for digest reader t)"
proof -
  have ask: "disciplined env (Some digest) s
      (try_then (or_err Storage
          (fetch_one ''current_setting'' [P_text ''app.benchmark_search_trace_rows'']))
        (\<lambda>row. give (column get_opt_text row ''current_setting'')))
      (\<lambda>r t. opened_for digest reader t \<or> (\<exists>e. r = Inl e))"
    unfolding fetch_one_def
    using assms by (auto intro!: step_query sessions.give opened_legal)
  show ?thesis
    unfolding observe_candidates_def then_logged_def unlogged_def
    using assms
    by (auto intro!: sessions.andthen sessions.give sessions.weaken[OF ask] split: sum.split)
qed

lemma disciplined_traced_database:
  assumes "resolved s = Some reader"
  shows "disciplined env (Some digest) s
    (search_memories_in_database_traced lib digest reader input i plan log) (\<lambda>_ _. True)"
proof -
  let ?K = "opened_for digest reader"
  have asked: "disciplined env (Some digest) t
      (or_err classify_list_database_error
        (fetch_all (search_function effective (query_mode input))
          (search_params reader i input effective)))
      (\<lambda>r t. \<forall>a. r = Inr a \<longrightarrow> ?K t)" if "?K t" for t effective
    unfolding fetch_all_def search_params_def using that
    by (auto intro!: sessions.or_err session_query opened_legal simp: search_function_def
        split: semantic_plan.split)
  have commit: "disciplined env (Some digest) t (or_err Storage commit) (\<lambda>r t. \<forall>a. r = Inr a \<longrightarrow> True)"
    if "?K t" for t
    using that by (auto intro!: sessions.or_err session_commit dest: opened_some)
  have packed: "disciplined env (Some digest) t (give (pack log)) (\<lambda>(r, _) t. \<forall>a. r = Inr a \<longrightarrow> ?K t)"
    if "?K t" for t log and pack :: "trace_log \<Rightarrow> (request_failure + 'x) \<times> trace_log"
    using that by (auto intro!: sessions.give split: prod.split)
  have finish: "disciplined env (Some digest) t
      (then_logged (unlogged (preparation_warnings input)) (\<lambda>extra.
        then_logged (unlogged (or_err Storage commit)) (\<lambda>_. unlogged (give (Inr (k extra))))) log)
      (\<lambda>_ _. True)"
    if "?K t" for t log and k :: "str list \<Rightarrow> search_response"
    using that
    by (intro plain_step[where K = ?K] disciplined_preparation plain_step[OF commit]
        disciplined_unlogged sessions.give) auto
  show ?thesis
    unfolding search_memories_in_database_traced_def
    by (rule plain_step[OF disciplined_open_read[OF assms]],
        rule plain_step[where K = ?K], rule disciplined_recheck, assumption, simp, simp,
        rule logged_step[OF disciplined_settings], assumption,
        rule plain_step[OF asked], assumption,
        rule logged_step[OF disciplined_candidates], assumption,
        rule sessions.andthen, rule sessions.observe, rule sessions.andthen, rule sessions.observe,
        rule logged_step[OF packed], assumption)
      (auto intro!: finish split: prod.split)
qed

section \<open>The whole route\<close>

lemma then_logged_runs [intro!]:
  "grows (m log) \<Longrightarrow> (\<And>a log. grows (f a log)) \<Longrightarrow> grows (then_logged m f log)"
  "finishes (m log) \<Longrightarrow> (\<And>a log. finishes (f a log)) \<Longrightarrow> finishes (then_logged m f log)"
  unfolding then_logged_def by (auto intro!: grows_andthen finishes_andthen split: sum.split prod.split)

lemma unlogged_runs [intro!]:
  "grows p \<Longrightarrow> grows (unlogged p log)" "finishes p \<Longrightarrow> finishes (unlogged p log)"
  unfolding unlogged_def by (auto intro!: grows_andthen finishes_andthen)

lemma traced_database_runs:
  "grows (search_memories_in_database_traced lib digest reader input i plan log)"
  "finishes (search_memories_in_database_traced lib digest reader input i plan log)"
  unfolding search_memories_in_database_traced_def benchmark_settings_def[abs_def]
    observe_candidates_def[abs_def] recheck_plan_def preparation_warnings_def open_read_transaction_def
  by (auto intro!: grows_andthen finishes_andthen split: semantic_plan.split prod.split)

lemma disciplined_search_prepared_traced:
  assumes "resolved s = Some (ps_reader p)"
  shows "disciplined env (Some (ps_digest p)) s (search_prepared_traced lib i p log) (\<lambda>_ _. True)"
proof -
  let ?run = "search_memories_in_database_traced lib (ps_digest p) (ps_reader p) (ps_input p) i"
  have run: "disciplined env (Some (ps_digest p)) t (?run plan log)
      (\<lambda>_ t. resolved t = Some (ps_reader p))"
    if "resolved t = Some (ps_reader p)" for t plan log
    using that by (intro disciplined_resolved disciplined_traced_database traced_database_runs)
  show ?thesis
    unfolding search_prepared_traced_def Let_def
    by (rule sessions.andthen, rule sessions.weaken [OF disciplined_make_plan [OF assms]],
        rule sessions.andthen, rule sessions.weaken [OF run])
      (auto intro: disciplined_traced_database sessions.give)
qed

lemma disciplined_search_memories_traced:
  "resolved s = None \<Longrightarrow> disciplined env (map_option (sha256_of lib) (bearer_token req)) s
     (search_memories_traced lib limits i req log) (\<lambda>_ _. True)"
proof -
  assume start: "resolved s = None"
  have noted: "disciplined env d t (andthen q (\<lambda>answer. give (answer, log))) (\<lambda>_ _. True)"
    if "disciplined env d t q (\<lambda>_ _. True)"
    for d t log and q :: "search_response response prog"
    using that by (rule sessions.andthen_any) (auto intro: sessions.give)
  have answered: "disciplined env (Some (ps_digest p)) t
      (andthen (search_prepared_traced lib i p log) (\<lambda>(result, log). case result of
           Inl failure \<Rightarrow>
             andthen (finish_operation_error i failure (Some (ps_digest p)) None SearchOp)
               (\<lambda>answer. give (answer, log))
         | Inr found \<Rightarrow> give (Success 200 found, log))) (\<lambda>_ _. True)"
    if "resolved t = Some (ps_reader p)" for p t log
    by (rule sessions.andthen_any [OF disciplined_search_prepared_traced [OF that]])
      (auto intro: noted disciplined_finish sessions.give split: sum.split prod.split)
  show ?thesis
    unfolding search_memories_traced_def
    by (rule sessions.andthen, rule sessions.weaken,
        rule preparesD [OF prepares_search start])
      (use answered in \<open>auto intro: noted disciplined_finish split: sum.splits\<close>)
qed

lemma appending_search_memories_traced: "appending (search_memories_traced lib limits i req)"
proof -
  have prepared: "appending (search_prepared_traced lib i p)" for p
    unfolding search_prepared_traced_def[abs_def] Let_def
    by (intro appending_after appending_before appending_search_database appending_if appending_give)
      simp
  show ?thesis
    unfolding search_memories_traced_def[abs_def]
    by (intro appending_after appending_before appending_sum prepared appending_give) simp_all
qed

lemma finishes_search_memories_traced: "finishes (search_memories_traced lib limits i req log)"
proof -
  have prepare: "finishes (prepare_search lib req limits)"
    unfolding prepare_search_def authenticate_reader_def Let_def
    by (auto split: option.split intro!: finishes_try)
  have plan: "finishes (make_semantic_plan lib digest reader question subjects external)"
    for digest reader question subjects external
    unfolding make_semantic_plan_def by (auto intro!: finishes_andthen split: option.split)
  show ?thesis
    unfolding search_memories_traced_def search_prepared_traced_def Let_def
    by (auto intro!: finishes_andthen prepare plan traced_database_runs split: sum.split prod.split)
qed

section \<open>Properties\<close>

text \<open>
  C17. The opt-in build changes nothing unless a trace is asked for: outside a capture scope the
  traced search makes the same calls and gives the same answer as the plain one, in every
  environment. Inside one it still always answers, keeps the session discipline of the plain route,
  and only appends to the log it is given.
\<close>

theorem search_memories_traced_transparent:
  "search_memories_traced lib limits request_id req None env c
     = (case search_memories lib limits request_id req env c of
          (Finished r, c') \<Rightarrow> (Finished (r, None), c')
        | (Expired, c') \<Rightarrow> (Expired, c'))
   \<and> (\<exists>r log' c'. search_memories_traced lib limits request_id req log env fresh
          = (Finished (r, log'), c')
        \<and> appended log log'
        \<and> accepts (session_step env) (session_legal (map_option (sha256_of lib) (bearer_token req)))
            session_start (calls c'))"
proof
  show "search_memories_traced lib limits request_id req None env c
     = (case search_memories lib limits request_id req env c of
          (Finished r, c') \<Rightarrow> (Finished (r, None), c')
        | (Expired, c') \<Rightarrow> (Expired, c'))"
    unfolding search_memories_untraced by (auto simp: andthen_def give_def split: prod.split outcome.split)
  have "\<not> timed fresh" by (simp add: fresh_def)
  with finishes_search_memories_traced[of lib limits request_id req log]
  obtain a c' where run: "search_memories_traced lib limits request_id req log env fresh = (Finished a, c')"
    unfolding finishes_def by blast
  obtain r log' where a: "a = (r, log')" by fastforce
  with run appending_search_memories_traced have "appended log log'"
    unfolding appending_def by blast
  with run a sessions.accepted[OF disciplined_search_memories_traced [OF unresolved_start] run]
  show "\<exists>r log' c'. search_memories_traced lib limits request_id req log env fresh
          = (Finished (r, log'), c')
        \<and> appended log log'
        \<and> accepts (session_step env) (session_legal (map_option (sha256_of lib) (bearer_token req)))
            session_start (calls c')"
    by blast
qed

end
