(* ===== verification/Pack_Order.thy ===== *)
theory Pack_Order
  imports Main "HOL-Library.Multiset" "HOL-Library.Product_Lexorder"
begin

text \<open>
  The reference orders of the fused rows (module \<open>source_block_order\<close> of
  \<open>src/src/context_tokens.rs\<close>), the executable description of the visiting orders that the database
  functions give to packing: the source block order, the lexical head, the deferral of large rows,
  the neighbours of a head, and the three refinements for Han queries. A hash map over sources is
  iterated in an order the program does not know; every order that does so takes that iteration
  order as the argument \<open>visit\<close>, and the properties hold for each. Row tuples are records with
  the same fields; the Han rows extend the others.
\<close>

section \<open>Rows\<close>

record order_row =
  row_source :: string
  row_lex :: "int option"
  row_octets :: nat

record han_row = order_row +
  row_sem :: "int option"
  row_pass :: int

text \<open>\<open>rank.is_some_and(|rank| rank <= k)\<close>.\<close>

definition at_most :: "int option \<Rightarrow> int \<Rightarrow> bool" where
  "at_most rank k = (case rank of None \<Rightarrow> False | Some r \<Rightarrow> r \<le> k)"

definition is_huge :: "nat \<Rightarrow> 'a order_row_scheme list \<Rightarrow> nat \<Rightarrow> bool" where
  "is_huge t rows i = (row_octets (rows ! i) > t)"

definition is_head :: "nat \<Rightarrow> 'a order_row_scheme list \<Rightarrow> nat \<Rightarrow> bool" where
  "is_head t rows i = (\<not> is_huge t rows i \<and> at_most (row_lex (rows ! i)) 4)"

definition source_of :: "'a order_row_scheme list \<Rightarrow> nat \<Rightarrow> string" where
  "source_of rows i = row_source (rows ! i)"

section \<open>The source block order\<close>

text \<open>The loop over the keys: the groups so far and the index of each key's group.\<close>

definition block_step ::
    "nat list list \<times> (string \<Rightarrow> nat option) \<Rightarrow> nat \<times> string
      \<Rightarrow> nat list list \<times> (string \<Rightarrow> nat option)" where
  "block_step st entry =
     (case (st, entry) of ((groups, index), (i, key)) \<Rightarrow>
        (case index key of
           Some g \<Rightarrow> (groups[g := groups ! g @ [i]], index)
         | None \<Rightarrow> (groups @ [[i]], index(key \<mapsto> length groups))))"

definition source_block_indices :: "string list \<Rightarrow> nat list" where
  "source_block_indices keys = concat (fst (foldl block_step ([], Map.empty) (enumerate 0 keys)))"

text \<open>\<open>blocked.map(|j| rest[j])\<close>: the blocks of a list of row indices.\<close>

definition source_blocks :: "'a order_row_scheme list \<Rightarrow> nat list \<Rightarrow> nat list" where
  "source_blocks rows rest =
     map (\<lambda>j. rest ! j) (source_block_indices (map (source_of rows) rest))"

text \<open>\<open>lex_head_then_source_block\<close>, which looks at no size.\<close>

definition lex_head_then_source_block :: "'a order_row_scheme list \<Rightarrow> nat list" where
  "lex_head_then_source_block rows =
     (let head = filter (\<lambda>i. at_most (row_lex (rows ! i)) 4) [0..<length rows];
          rest = filter (\<lambda>i. \<not> at_most (row_lex (rows ! i)) 4) [0..<length rows]
      in head @ source_blocks rows rest)"

section \<open>Deferring large rows\<close>

text \<open>\<open>first.entry(src).or_insert(i)\<close> over the rows.\<close>

definition source_first_of :: "'a order_row_scheme list \<Rightarrow> string \<Rightarrow> nat option" where
  "source_first_of rows =
     foldl (\<lambda>first (i, row).
        case first (row_source row) of
          Some _ \<Rightarrow> first
        | None \<Rightarrow> first(row_source row \<mapsto> i)) Map.empty (enumerate 0 rows)"

definition source_first :: "'a order_row_scheme list \<Rightarrow> nat \<Rightarrow> nat" where
  "source_first rows i = the (source_first_of rows (source_of rows i))"

definition by_source :: "'a order_row_scheme list \<Rightarrow> nat list \<Rightarrow> nat list" where
  "by_source rows = sort_key (\<lambda>i. (source_first rows i, i))"

definition heads :: "nat \<Rightarrow> 'a order_row_scheme list \<Rightarrow> nat list" where
  "heads t rows = filter (is_head t rows) [0..<length rows]"

definition huge_rows :: "nat \<Rightarrow> 'a order_row_scheme list \<Rightarrow> nat list" where
  "huge_rows t rows = filter (is_huge t rows) [0..<length rows]"

definition plain :: "nat \<Rightarrow> 'a order_row_scheme list \<Rightarrow> nat \<Rightarrow> bool" where
  "plain t rows i = (\<not> is_huge t rows i \<and> \<not> is_head t rows i)"

definition lex_head_defer_large :: "'a order_row_scheme list \<Rightarrow> nat \<Rightarrow> nat list" where
  "lex_head_defer_large rows t =
     heads t rows
     @ source_blocks rows (by_source rows (filter (plain t rows) [0..<length rows]))
     @ huge_rows t rows"

section \<open>Extras of a source\<close>

text \<open>
  \<open>extras\<close>: for each source the indices of its plain rows, in rank order. The keys of the map in
  order of first appearance are \<open>extra_sources\<close>; the program visits them in the order \<open>visit\<close>.
\<close>

definition extras :: "nat \<Rightarrow> 'a order_row_scheme list \<Rightarrow> string \<Rightarrow> nat list" where
  "extras t rows src = filter (\<lambda>i. plain t rows i \<and> source_of rows i = src) [0..<length rows]"

definition extra_sources :: "nat \<Rightarrow> 'a order_row_scheme list \<Rightarrow> string list" where
  "extra_sources t rows =
     rev (remdups (rev (map (source_of rows) (filter (plain t rows) [0..<length rows]))))"

definition head_count :: "nat \<Rightarrow> 'a order_row_scheme list \<Rightarrow> string \<Rightarrow> nat" where
  "head_count t rows src = length (filter (\<lambda>i. source_of rows i = src) (heads t rows))"

text \<open>The loop over the sources: what each gives to the neighbours, the rest and the deferred.\<close>

type_synonym share = "nat list \<times> nat list \<times> nat list"

fun share_out :: "(string \<Rightarrow> share) \<Rightarrow> string list \<Rightarrow> share" where
  "share_out f [] = ([], [], [])"
| "share_out f (src # left) =
     (case (f src, share_out f left) of
        ((n, r, d), (ns, rs, ds)) \<Rightarrow> (n @ ns, r @ rs, d @ ds))"

definition neighbor_share ::
    "'a order_row_scheme list \<Rightarrow> int \<Rightarrow> nat \<Rightarrow> string \<Rightarrow> share" where
  "neighbor_share rows k t src =
     (let ids = extras t rows src in
      if head_count t rows src > 0 \<and> at_most (row_lex (rows ! hd ids)) k
      then ([hd ids], take 1 (drop 1 ids), drop 2 ids)
      else ([], ids, []))"

definition headed_lex_neighbor ::
    "(string list \<Rightarrow> string list) \<Rightarrow> 'a order_row_scheme list \<Rightarrow> int \<Rightarrow> nat \<Rightarrow> nat list" where
  "headed_lex_neighbor visit rows k t =
     (case share_out (neighbor_share rows k t) (visit (extra_sources t rows)) of
        (neighbors, rest, deferred) \<Rightarrow>
          heads t rows @ by_source rows neighbors
          @ source_blocks rows (by_source rows rest)
          @ source_blocks rows (by_source rows deferred)
          @ huge_rows t rows)"

section \<open>Han queries\<close>

definition two_head_share ::
    "'a order_row_scheme list \<Rightarrow> int \<Rightarrow> nat \<Rightarrow> string \<Rightarrow> share" where
  "two_head_share rows k t src =
     (let ids = extras t rows src; nheads = head_count t rows src in
      if nheads > 0 \<and> at_most (row_lex (rows ! hd ids)) k
      then ([hd ids], take 1 (drop 1 ids), drop 2 ids)
      else if nheads \<ge> 2 then ([], [], ids)
      else if nheads > 0 then ([], [hd ids], drop 1 ids)
      else ([], ids, []))"

text \<open>The place of a row among the extras of its source, from one (\<open>extra_seq\<close>).\<close>

fun position :: "'a \<Rightarrow> 'a list \<Rightarrow> nat" where
  "position i [] = 0"
| "position i (j # js) = (if j = i then 0 else Suc (position i js))"

definition extra_seq :: "nat \<Rightarrow> 'a order_row_scheme list \<Rightarrow> nat \<Rightarrow> nat" where
  "extra_seq t rows i = position i (extras t rows (source_of rows i)) + 1"

text \<open>
  The end the three Han orders share: heads, neighbours, the rest of the headed sources, the rest
  of the unheaded ones by their own key, the deferred and the huge rows.
\<close>

definition han_order ::
    "nat \<Rightarrow> 'a order_row_scheme list \<Rightarrow> (nat \<Rightarrow> nat \<times> nat \<times> nat \<times> nat) \<Rightarrow> share \<Rightarrow> nat list" where
  "han_order t rows unheaded_key shares =
     (case shares of (neighbors, rest, deferred) \<Rightarrow>
        let headed = (\<lambda>i. head_count t rows (source_of rows i) > 0) in
        heads t rows @ by_source rows neighbors
        @ by_source rows (filter headed rest)
        @ sort_key unheaded_key (filter (\<lambda>i. \<not> headed i) rest)
        @ by_source rows deferred @ huge_rows t rows)"

definition han_two_head_dump_rr ::
    "(string list \<Rightarrow> string list) \<Rightarrow> 'a order_row_scheme list \<Rightarrow> int \<Rightarrow> nat \<Rightarrow> nat list" where
  "han_two_head_dump_rr visit rows k t =
     han_order t rows (\<lambda>i. (extra_seq t rows i, source_first rows i, i, 0))
       (share_out (two_head_share rows k t) (visit (extra_sources t rows)))"

definition adj_first_ok :: "'a han_row_scheme list \<Rightarrow> nat \<Rightarrow> bool" where
  "adj_first_ok rows i =
     (let lex = row_lex (rows ! i); sem = row_sem (rows ! i) in
      at_most sem 10 \<or> at_most lex 6 \<or> (sem = None \<and> at_most lex 16))"

text \<open>The loop with \<open>saw_adj\<close>: the first row of the next passage stays, the others wait.\<close>

fun next_passage :: "'a han_row_scheme list \<Rightarrow> int \<Rightarrow> bool \<Rightarrow> nat list \<Rightarrow> nat list \<times> nat list" where
  "next_passage rows first_pass saw_adj [] = ([], [])"
| "next_passage rows first_pass saw_adj (i # ids) =
     (if \<not> saw_adj \<and> row_pass (rows ! i) = first_pass + 1
      then (case next_passage rows first_pass True ids of (r, d) \<Rightarrow> (i # r, d))
      else (case next_passage rows first_pass saw_adj ids of (r, d) \<Rightarrow> (r, i # d)))"

definition adj_share ::
    "'a han_row_scheme list \<Rightarrow> int \<Rightarrow> nat \<Rightarrow> string \<Rightarrow> share" where
  "adj_share rows k t src =
     (let ids = extras t rows src; nheads = head_count t rows src in
      if nheads > 0 \<and> at_most (row_lex (rows ! hd ids)) k
      then ([hd ids], take 1 (drop 1 ids), drop 2 ids)
      else if nheads \<ge> 2 then ([], [], ids)
      else if nheads > 0 then ([], [hd ids], drop 1 ids)
      else if \<not> adj_first_ok rows (hd ids) then ([], [], ids)
      else
        case next_passage rows (row_pass (rows ! hd ids)) False (drop 1 ids) of
          (r, d) \<Rightarrow> ([], hd ids # r, d))"

definition adj_key :: "nat \<Rightarrow> 'a han_row_scheme list \<Rightarrow> nat \<Rightarrow> nat \<times> nat \<times> nat \<times> nat" where
  "adj_key t rows i =
     (let ids = extras t rows (source_of rows i);
          seq = extra_seq t rows i;
          is_first = (seq = 1);
          is_adj = (\<not> is_first \<and> row_pass (rows ! i) = row_pass (rows ! hd ids) + 1);
          emit_seq = (if is_first \<or> is_adj then 1 else seq);
          beside = (if is_adj then 1 else 0)
      in (emit_seq, source_first rows i, beside, i))"

definition han_unheaded_adj ::
    "(string list \<Rightarrow> string list) \<Rightarrow> 'a han_row_scheme list \<Rightarrow> int \<Rightarrow> nat \<Rightarrow> nat list" where
  "han_unheaded_adj visit rows k t =
     han_order t rows (adj_key t rows)
       (share_out (adj_share rows k t) (visit (extra_sources t rows)))"

text \<open>
  The deferred span. \<open>unwrap_or(i32::MAX)\<close> puts a missing rank last; the pair source is the
  source of the least candidate.
\<close>

definition span_first_ok :: "'a han_row_scheme list \<Rightarrow> nat \<Rightarrow> bool" where
  "span_first_ok rows i =
     (let lex = row_lex (rows ! i); sem = row_sem (rows ! i) in
      (case lex of None \<Rightarrow> True | Some rank \<Rightarrow> rank < 16)
      \<and> (at_most sem 10 \<or> at_most lex 6 \<or> (sem = None \<and> at_most lex 16)))"

definition or_last :: "int option \<Rightarrow> int" where
  "or_last rank = (case rank of None \<Rightarrow> 2147483647 | Some r \<Rightarrow> r)"

definition first_ok_candidates ::
    "(string list \<Rightarrow> string list) \<Rightarrow> 'a han_row_scheme list \<Rightarrow> nat \<Rightarrow> nat list" where
  "first_ok_candidates visit rows t =
     sort_key (\<lambda>i. (or_last (row_sem (rows ! i)), or_last (row_lex (rows ! i)), source_first rows i, i))
       (concat (map (\<lambda>src.
          if head_count t rows src > 0 then []
          else if span_first_ok rows (hd (extras t rows src)) then [hd (extras t rows src)] else [])
        (visit (extra_sources t rows))))"

definition pair_source ::
    "(string list \<Rightarrow> string list) \<Rightarrow> 'a han_row_scheme list \<Rightarrow> nat \<Rightarrow> string option" where
  "pair_source visit rows t =
     (case first_ok_candidates visit rows t of [] \<Rightarrow> None | i # _ \<Rightarrow> Some (source_of rows i))"

text \<open>A sem-ok first that fails, and the rows promoted beside a first.\<close>

definition sem_deferred :: "'a han_row_scheme list \<Rightarrow> nat \<Rightarrow> bool" where
  "sem_deferred rows i = (\<not> span_first_ok rows i \<and> at_most (row_sem (rows ! i)) 10)"

definition span_adj :: "'a han_row_scheme list \<Rightarrow> nat \<Rightarrow> nat \<Rightarrow> bool" where
  "span_adj rows first i =
     (let pass = row_pass (rows ! i); first_pass = row_pass (rows ! first) in
      (sem_deferred rows first \<and> (pass = first_pass + 1 \<or> pass = first_pass + 3))
      \<or> (span_first_ok rows first \<and> pass = first_pass + 1))"

text \<open>An unheaded source.\<close>

definition span_unheaded_share ::
    "'a han_row_scheme list \<Rightarrow> string option \<Rightarrow> string \<Rightarrow> nat list \<Rightarrow> share" where
  "span_unheaded_share rows pair src ids =
     (let first = hd ids; others = drop 1 ids; ok = span_first_ok rows first in
      if \<not> ok \<and> \<not> sem_deferred rows first then ([], [], ids)
      else
        let source_has_adj = list_ex (span_adj rows first) others;
            allow_pair = (ok \<and> pair = Some src \<and> \<not> source_has_adj);
            promoted = (\<lambda>i. span_adj rows first i
                          \<or> (allow_pair \<and> position i ids + 1 \<in> {2, 3}))
        in ([], (if ok then [first] else []) @ filter promoted others,
            (if ok then [] else [first]) @ filter (\<lambda>i. \<not> promoted i) others))"

definition span_share ::
    "'a han_row_scheme list \<Rightarrow> string option \<Rightarrow> int \<Rightarrow> nat \<Rightarrow> string \<Rightarrow> share" where
  "span_share rows pair k t src =
     (let ids = extras t rows src;
          nheads = head_count t rows src;
          lex0 = row_lex (rows ! hd ids);
          sem0 = row_sem (rows ! hd ids);
          in_band = at_most lex0 k;
          neigh = (nheads > 0 \<and> in_band
            \<and> (nheads \<ge> 2
                 \<or> (case sem0 of None \<Rightarrow> False
                     | Some r \<Rightarrow> r \<le> 10 \<or> (case lex0 of None \<Rightarrow> False | Some q \<Rightarrow> q > 8))))
      in
      if neigh then ([hd ids], take 1 (drop 1 ids), drop 2 ids)
      else if nheads > 0 \<and> in_band then ([], [], ids)
      else if nheads \<ge> 2 then
        (let near = filter (\<lambda>i. at_most (row_lex (rows ! i)) k) (take 1 (drop 1 ids));
             far = filter (\<lambda>i. \<not> at_most (row_lex (rows ! i)) k) (take 1 (drop 1 ids))
         in ([], (if in_band then [hd ids] else []) @ near,
             (if in_band then [] else [hd ids]) @ far @ drop 2 ids))
      else if nheads > 0 then ([], [hd ids], drop 1 ids)
      else span_unheaded_share rows pair src ids)"

definition span_key ::
    "'a han_row_scheme list \<Rightarrow> string option \<Rightarrow> nat \<Rightarrow> nat \<Rightarrow> nat \<times> nat \<times> nat \<times> nat" where
  "span_key rows pair t i =
     (let ids = extras t rows (source_of rows i);
          seq = position i ids + 1;
          first = hd ids;
          ok = span_first_ok rows first;
          is_first = (seq = 1 \<and> ok);
          is_adj = (\<not> is_first \<and> span_adj rows first i);
          is_pair = (ok \<and> pair = Some (source_of rows i) \<and> seq \<in> {2, 3}
            \<and> \<not> list_ex (\<lambda>j. row_pass (rows ! j) = row_pass (rows ! first) + 1) (drop 1 ids));
          emit_seq = (if is_first \<or> is_adj \<or> is_pair then 1 else seq);
          beside = (if is_adj then 1 else if is_pair then seq - 1 else 0)
      in (emit_seq, source_first rows i, beside, i))"

definition han_deferred_span ::
    "(string list \<Rightarrow> string list) \<Rightarrow> 'a han_row_scheme list \<Rightarrow> int \<Rightarrow> nat \<Rightarrow> nat list" where
  "han_deferred_span visit rows k t =
     (let pair = pair_source visit rows t in
      han_order t rows (span_key rows pair t)
        (share_out (span_share rows pair k t) (visit (extra_sources t rows))))"

end
