(* ===== verification/Pack_Order_Correct.thy ===== *)
theory Pack_Order_Correct
  imports Pack_Order
begin

text \<open>
  What the visiting orders of \<open>Pack_Order\<close> promise. An order is a rearrangement of the row indices
  (locale \<open>pack_order\<close>), the five that look at sizes visit the heads first and the large rows last
  (locale \<open>tiered_order\<close>), and no order depends on the iteration order of the hash map over
  sources. The shares of the sources are dealt out without loss (\<open>deals\<close>), so each order is a
  rearrangement whatever its rule; the stages say where a rule puts a row.
\<close>

section \<open>Groups by first appearance\<close>

definition first_seen :: "'a list \<Rightarrow> 'a list" where
  "first_seen keys = rev (remdups (rev keys))"

definition places :: "'a list \<Rightarrow> 'a \<Rightarrow> nat list" where
  "places keys k = filter (\<lambda>i. keys ! i = k) [0..<length keys]"

lemma first_seen_simps [simp]:
  "first_seen [] = []"
  "first_seen (keys @ [k]) = (if k \<in> set keys then first_seen keys else first_seen keys @ [k])"
  by (simp_all add: first_seen_def)

lemma set_first_seen [simp]: "set (first_seen keys) = set keys"
  by (simp add: first_seen_def)

lemma distinct_first_seen [simp]: "distinct (first_seen keys)"
  by (simp add: first_seen_def)

lemma places_snoc [simp]:
  "places (keys @ [k]) q = places keys q @ (if q = k then [length keys] else [])"
proof -
  have "filter (\<lambda>i. (keys @ [k]) ! i = q) [0..<length keys] = places keys q"
    unfolding places_def by (rule filter_cong) (auto simp: nth_append)
  then show ?thesis by (auto simp: places_def)
qed

lemma places_fresh: "k \<notin> set keys \<Longrightarrow> places keys k = []"
  by (auto simp: places_def filter_empty_conv)

lemma position_less [simp]: "x \<in> set xs \<Longrightarrow> position x xs < length xs"
  by (induction xs) auto

lemma nth_position [simp]: "x \<in> set xs \<Longrightarrow> xs ! position x xs = x"
  by (induction xs) auto

lemma position_append:
  "position x (xs @ ys) = (if x \<in> set xs then position x xs else length xs + position x ys)"
  by (induction xs) auto

lemma position_before:
  "i \<in> set xs \<Longrightarrow> j \<notin> set xs \<Longrightarrow> position i (xs @ ys) < position j (xs @ ys)"
  by (auto simp: position_append trans_less_add1)

lemma position_nth: "distinct xs \<Longrightarrow> n < length xs \<Longrightarrow> position (xs ! n) xs = n"
  by (metis nth_eq_iff_index_eq nth_mem nth_position position_less)

definition index_of :: "string list \<Rightarrow> string \<Rightarrow> nat option" where
  "index_of keys k = (if k \<in> set keys then Some (position k (first_seen keys)) else None)"

lemma index_of_snoc:
  "index_of (keys @ [k]) =
     (if k \<in> set keys then index_of keys else (index_of keys)(k \<mapsto> length (first_seen keys)))"
  by (auto simp: index_of_def position_append fun_eq_iff)

lemma block_groups:
  "foldl block_step ([], Map.empty) (enumerate 0 keys)
     = (map (places keys) (first_seen keys), index_of keys)"
proof (induction keys rule: rev_induct)
  case Nil
  then show ?case by (simp add: index_of_def fun_eq_iff)
next
  case (snoc k keys)
  have step: "foldl block_step ([], Map.empty) (enumerate 0 (keys @ [k]))
    = block_step (map (places keys) (first_seen keys), index_of keys) (length keys, k)"
    using snoc by (simp add: enumerate_append_eq)
  show ?case
  proof (cases "k \<in> set keys")
    case fresh: False
    then have "map (places keys) (first_seen keys)
        = map (\<lambda>q. places keys q @ (if q = k then [length keys] else [])) (first_seen keys)"
      by (intro map_cong) auto
    with fresh show ?thesis unfolding step
      by (simp add: block_step_def index_of_snoc index_of_def[of keys k] places_fresh)
        (simp add: fun_eq_iff)
  next
    case known: True
    let ?g = "position k (first_seen keys)"
    have "(map (places keys) (first_seen keys))[?g := map (places keys) (first_seen keys) ! ?g @ [length keys]]
        = map (\<lambda>q. places keys q @ (if q = k then [length keys] else [])) (first_seen keys)"
      using known by (intro nth_equalityI) (auto simp: nth_list_update position_nth)
    with known show ?thesis unfolding step
      by (simp add: block_step_def index_of_snoc index_of_def[of keys k])
  qed
qed

lemma block_indices_groups:
  "source_block_indices keys = concat (map (places keys) (first_seen keys))"
  by (simp add: source_block_indices_def block_groups)

section \<open>Rearrangements\<close>

lemma mset_by_source [simp]: "mset (by_source rows ids) = mset ids"
  by (simp add: by_source_def)

lemma mset_filter_split:
  "distinct ks \<Longrightarrow> set (map f xs) \<subseteq> set ks
     \<Longrightarrow> mset (concat (map (\<lambda>k. filter (\<lambda>x. f x = k) xs) ks)) = mset xs"
proof (induction xs)
  case Nil
  then show ?case by (induction ks) auto
next
  case (Cons x xs)
  have "mset (concat (map (\<lambda>k. filter (\<lambda>y. f y = k) (x # xs)) ks))
    = (if f x \<in> set ks then {#x#} else {#}) + mset (concat (map (\<lambda>k. filter (\<lambda>y. f y = k) xs) ks))"
    using Cons.prems(1) by (induction ks) auto
  with Cons show ?case by simp
qed

lemma mset_places: "mset (concat (map (places keys) (first_seen keys))) = mset [0..<length keys]"
  unfolding places_def by (rule mset_filter_split) auto

lemma mset_source_blocks [simp]: "mset (source_blocks rows ids) = mset ids"
proof -
  let ?keys = "map (source_of rows) ids"
  have "mset (source_blocks rows ids) = image_mset ((!) ids) (mset [0..<length ids])"
    unfolding source_blocks_def block_indices_groups mset_map mset_places by simp
  also have "\<dots> = mset ids" by (metis map_nth mset_map)
  finally show ?thesis .
qed

lemma set_rearranged [simp]:
  "set (by_source rows ids) = set ids" "set (source_blocks rows ids) = set ids"
  by (rule mset_eq_setD, simp)+

lemma three_tiers:
  "mset (heads t rows) + mset (filter (plain t rows) [0..<length rows]) + mset (huge_rows t rows)
     = mset [0..<length rows]"
proof -
  have "mset (filter P xs) + mset (filter (\<lambda>i. \<not> Q i \<and> \<not> P i) xs) + mset (filter Q xs) = mset xs"
    if "\<And>i. P i \<Longrightarrow> \<not> Q i" for P Q :: "nat \<Rightarrow> bool" and xs
    using that by (induction xs) auto
  from this[of "is_head t rows" "is_huge t rows" "[0..<length rows]"] show ?thesis
    by (simp add: heads_def huge_rows_def plain_def[abs_def] is_head_def)
qed

section \<open>Shares of the sources\<close>

text \<open>What a source gives out is exactly its extras.\<close>

definition deals :: "(string \<Rightarrow> share) \<Rightarrow> (string \<Rightarrow> nat list) \<Rightarrow> bool" where
  "deals f give = (\<forall>src. give src \<noteq> [] \<longrightarrow> (case f src of (n, r, d) \<Rightarrow> mset (n @ r @ d) = mset (give src)))"

lemma dealsI:
  assumes "\<And>src n r d. give src \<noteq> [] \<Longrightarrow> f src = (n, r, d) \<Longrightarrow> mset n + mset r + mset d = mset (give src)"
  shows "deals f give"
  using assms by (fastforce simp: deals_def union_assoc)

lemma share_out_deals:
  assumes "deals f give" and "share_out f srcs = (n, r, d)"
    and "\<And>src. src \<in> set srcs \<Longrightarrow> give src \<noteq> []"
  shows "mset n + mset r + mset d = mset (concat (map give srcs))"
  using assms(2,3)
proof (induction srcs arbitrary: n r d)
  case (Cons src srcs)
  obtain n1 r1 d1 n2 r2 d2 where parts: "f src = (n1, r1, d1)" "share_out f srcs = (n2, r2, d2)"
    by (metis prod_cases3)
  have one: "mset (n1 @ r1 @ d1) = mset (give src)"
    using parts(1) assms(1) Cons.prems(2)[of src] by (auto simp: deals_def dest!: spec[of _ src])
  have others: "mset (n2 @ r2 @ d2) = mset (concat (map give srcs))"
    using Cons.IH[OF parts(2)] Cons.prems(2) by (auto simp: ac_simps)
  have "n = n1 @ n2" "r = r1 @ r2" "d = d1 @ d2" using Cons.prems(1) parts by auto
  then have "mset n + mset r + mset d = mset (n1 @ r1 @ d1) + mset (n2 @ r2 @ d2)"
    by (simp add: ac_simps)
  also have "\<dots> = mset (give src) + mset (concat (map give srcs))" by (simp only: one others)
  finally show ?case by simp
qed simp

lemma extra_sources_first_seen:
  "extra_sources t rows = first_seen (map (source_of rows) (filter (plain t rows) [0..<length rows]))"
  by (simp add: extra_sources_def first_seen_def)

lemma mset_extras:
  "mset (concat (map (extras t rows) (extra_sources t rows)))
     = mset (filter (plain t rows) [0..<length rows])"
proof -
  have "extras t rows = (\<lambda>k. filter (\<lambda>i. source_of rows i = k) (filter (plain t rows) [0..<length rows]))"
    by (simp add: extras_def fun_eq_iff conj_commute)
  then show ?thesis
    by (simp add: mset_filter_split extra_sources_first_seen del: filter_filter)
qed

lemma extras_nonempty:
  "src \<in> set (extra_sources t rows) \<Longrightarrow> extras t rows src \<noteq> []"
  by (auto simp: extra_sources_first_seen extras_def filter_empty_conv)

section \<open>Every order deals\<close>

lemma mset_take_drop [simp]: "mset (take n ids) + mset (drop n ids) = mset ids"
  by (metis append_take_drop_id mset_append)

lemma mset_parts [simp]:
  "filter_mset P M + filter_mset (\<lambda>x. \<not> P x) M = M"
  "filter_mset P M + (filter_mset (\<lambda>x. \<not> P x) M + N) = M + N"
  by (simp_all flip: multiset_partition add: union_assoc[symmetric])

lemma next_passage_mset:
  "next_passage rows p saw ids = (r, d) \<Longrightarrow> mset r + mset d = mset ids"
  by (induction ids arbitrary: saw r d) (auto split: if_splits prod.splits)

lemma neighbor_deals: "deals (neighbor_share rows k t) (extras t rows)"
  by (rule dealsI) (auto simp: neighbor_share_def Let_def neq_Nil_conv split: if_splits)

lemma two_head_deals: "deals (two_head_share rows k t) (extras t rows)"
  by (rule dealsI) (auto simp: two_head_share_def Let_def neq_Nil_conv split: if_splits)

lemma adj_deals: "deals (adj_share rows k t) (extras t rows)"
  by (rule dealsI)
    (auto simp: adj_share_def Let_def neq_Nil_conv split: if_splits prod.splits
      dest!: next_passage_mset)

lemma span_unheaded_parts:
  assumes "span_first_ok rows a \<or> sem_deferred rows a"
  obtains promoted where
    "span_unheaded_share rows pair src (a # ids)
      = ([], (if span_first_ok rows a then [a] else []) @ filter promoted ids,
          (if span_first_ok rows a then [] else [a]) @ filter (\<lambda>i. \<not> promoted i) ids)"
proof
  let ?promoted = "\<lambda>i. span_adj rows a i
    \<or> (span_first_ok rows a \<and> pair = Some src \<and> \<not> list_ex (span_adj rows a) ids)
      \<and> position i (a # ids) + 1 \<in> {2, 3}"
  show "span_unheaded_share rows pair src (a # ids)
      = ([], (if span_first_ok rows a then [a] else []) @ filter ?promoted ids,
          (if span_first_ok rows a then [] else [a]) @ filter (\<lambda>i. \<not> ?promoted i) ids)"
    using assms by (auto simp: span_unheaded_share_def Let_def intro!: filter_cong)
qed

lemma span_unheaded_mset:
  assumes "ids \<noteq> []" and "span_unheaded_share rows pair src ids = (n, r, d)"
  shows "mset n + mset r + mset d = mset ids"
proof (cases ids)
  case (Cons a others)
  show ?thesis
  proof (cases "span_first_ok rows a \<or> sem_deferred rows a")
    case True
    then show ?thesis
      by (rule span_unheaded_parts[of rows a pair src others]) (use assms Cons in auto)
  next
    case False
    with assms Cons show ?thesis by (auto simp: span_unheaded_share_def)
  qed
qed (use assms in simp)

lemma span_deals: "deals (span_share rows pair k t) (extras t rows)"
  by (rule dealsI)
    (auto simp: span_share_def Let_def neq_Nil_conv split: if_splits dest: span_unheaded_mset[rotated])

section \<open>The iteration order of the map\<close>

definition rearrangement :: "(string list \<Rightarrow> string list) \<Rightarrow> bool" where
  "rearrangement visit = (\<forall>ks. mset (visit ks) = mset ks)"

lemma rearrangement_id [simp]: "rearrangement (\<lambda>ks. ks)"
  by (simp add: rearrangement_def)

lemma rearrangement_rev [simp]: "rearrangement rev"
  by (simp add: rearrangement_def)

lemma share_out_concat:
  "share_out f srcs =
     (concat (map (\<lambda>s. fst (f s)) srcs), concat (map (\<lambda>s. fst (snd (f s))) srcs),
      concat (map (\<lambda>s. snd (snd (f s))) srcs))"
  by (induction srcs) (auto split: prod.splits)

lemma mset_concat_map: "mset (concat (map f xs)) = (\<Sum>x\<in>#mset xs. mset (f x))"
  by (induction xs) auto

lemma mset_concat_map_cong: "mset xs = mset ys \<Longrightarrow> mset (concat (map f xs)) = mset (concat (map f ys))"
  by (simp only: mset_concat_map)

lemma share_out_visit:
  assumes "rearrangement visit" and "share_out f (visit ks) = (n, r, d)" and "share_out f ks = (n', r', d')"
  shows "mset n = mset n'" "mset r = mset r'" "mset d = mset d'"
proof -
  have same: "mset (concat (map g (visit ks))) = mset (concat (map g ks))" for g :: "string \<Rightarrow> nat list"
    using assms(1) by (auto simp: rearrangement_def intro!: mset_concat_map_cong)
  show "mset n = mset n'" "mset r = mset r'" "mset d = mset d'"
    using assms(2,3) same unfolding share_out_concat by blast+
qed

lemma by_source_cong: "mset xs = mset ys \<Longrightarrow> by_source rows xs = by_source rows ys"
  unfolding by_source_def by (rule sort_key_eq_sort_key) (auto intro: inj_onI)

lemma mset_filter_cong: "mset xs = mset ys \<Longrightarrow> mset (filter P xs) = mset (filter P ys)"
  by simp

lemma han_order_cong:
  assumes "\<And>i j. key i = key j \<Longrightarrow> i = j"
    and "mset n = mset n'" "mset r = mset r'" "mset d = mset d'"
  shows "han_order t rows key (n, r, d) = han_order t rows key (n', r', d')"
proof -
  have "sort_key key (filter P r) = sort_key key (filter P r')" for P
    by (rule sort_key_eq_sort_key) (use assms in \<open>auto intro: inj_onI\<close>)
  moreover have "by_source rows (filter P r) = by_source rows (filter P r')" for P
    by (rule by_source_cong) (use assms(3) in simp)
  ultimately show ?thesis
    by (simp add: han_order_def by_source_cong[OF assms(2)] by_source_cong[OF assms(4)])
qed

lemma han_order_visit:
  assumes "rearrangement visit" and "\<And>i j. key i = key j \<Longrightarrow> i = j"
  shows "han_order t rows key (share_out f (visit ks)) = han_order t rows key (share_out f ks)"
proof -
  obtain n r d n' r' d' where "share_out f (visit ks) = (n, r, d)" "share_out f ks = (n', r', d')"
    by (metis prod_cases3)
  with share_out_visit[OF assms(1) this] show ?thesis
    by (simp add: han_order_cong[of key n n' r r' d d', OF assms(2)])
qed

lemma pair_source_visit:
  assumes "rearrangement visit"
  shows "pair_source visit rows t = pair_source (\<lambda>ks. ks) rows t"
proof -
  have "first_ok_candidates visit rows t = first_ok_candidates (\<lambda>ks. ks) rows t"
    unfolding first_ok_candidates_def
    by (rule sort_key_eq_sort_key)
      (use assms in \<open>auto intro!: mset_concat_map_cong inj_onI simp: rearrangement_def\<close>)
  then show ?thesis by (simp add: pair_source_def)
qed

lemma headed_lex_neighbor_visit:
  assumes "rearrangement visit"
  shows "headed_lex_neighbor visit rows k t = headed_lex_neighbor (\<lambda>ks. ks) rows k t"
proof -
  let ?f = "neighbor_share rows k t" and ?ks = "extra_sources t rows"
  obtain n r d n' r' d' where parts: "share_out ?f (visit ?ks) = (n, r, d)" "share_out ?f ?ks = (n', r', d')"
    by (metis prod_cases3)
  from share_out_visit[OF assms parts] show ?thesis
    by (simp add: headed_lex_neighbor_def parts by_source_cong[of n n'] by_source_cong[of r r']
        by_source_cong[of d d'])
qed

lemma han_two_head_visit:
  "rearrangement visit \<Longrightarrow> han_two_head_dump_rr visit rows k t = han_two_head_dump_rr (\<lambda>ks. ks) rows k t"
  unfolding han_two_head_dump_rr_def by (erule han_order_visit) simp

lemma han_unheaded_visit:
  "rearrangement visit \<Longrightarrow> han_unheaded_adj visit rows k t = han_unheaded_adj (\<lambda>ks. ks) rows k t"
  unfolding han_unheaded_adj_def by (erule han_order_visit) (simp add: adj_key_def Let_def)

lemma han_deferred_visit:
  "rearrangement visit \<Longrightarrow> han_deferred_span visit rows k t = han_deferred_span (\<lambda>ks. ks) rows k t"
  unfolding han_deferred_span_def Let_def pair_source_visit[of visit]
  by (erule han_order_visit) (simp add: span_key_def Let_def)

section \<open>What every order promises\<close>

locale pack_order =
  fixes order :: "'a order_row_scheme list \<Rightarrow> nat list"
  assumes emits: "mset (order rows) = mset [0..<length rows]"
begin

lemma each_once: "distinct (order rows)"
  by (metis distinct_upt emits mset_eq_imp_distinct_iff)

lemma only_rows: "set (order rows) = {..<length rows}"
  using emits[of rows, THEN mset_eq_setD] by (simp add: atLeast0LessThan)

lemma same_rows: "mset (map (\<lambda>i. rows ! i) (order rows)) = mset rows"
  by (metis emits map_nth mset_map)

end

text \<open>
  The tier of a row, from the row alone: a row of more than \<open>t\<close> octets is in the last tier, one of
  lexical rank at most 4 in the first, every other in the middle.
\<close>

definition size_tier :: "nat \<Rightarrow> 'a order_row_scheme \<Rightarrow> nat" where
  "size_tier t row =
     (if row_octets row > t then 2
      else case row_lex row of None \<Rightarrow> 1 | Some rank \<Rightarrow> if rank \<le> 4 then 0 else 1)"

lemma size_tier_rows:
  "is_head t rows i \<longleftrightarrow> size_tier t (rows ! i) = 0" "is_huge t rows i \<longleftrightarrow> size_tier t (rows ! i) = 2"
  by (auto simp: size_tier_def is_head_def is_huge_def at_most_def split: option.splits)

lemma position_filter_upt:
  "P i \<Longrightarrow> P j \<Longrightarrow> i < j \<Longrightarrow> j < n \<Longrightarrow>
     position i (filter P [0..<n]) < position j (filter P [0..<n])"
  by (induction n) (auto simp: position_append less_Suc_eq)

locale tiered_order =
  fixes order :: "'a order_row_scheme list \<Rightarrow> nat list" and t :: nat
  assumes tiers: "\<exists>mid. order rows = heads t rows @ mid @ huge_rows t rows
    \<and> mset mid = mset (filter (plain t rows) [0..<length rows])"

sublocale tiered_order \<subseteq> pack_order
proof
  fix rows :: "'a order_row_scheme list"
  show "mset (order rows) = mset [0..<length rows]"
    using tiers[of rows] three_tiers[of t rows] by (auto simp: ac_simps)
qed

context tiered_order
begin

lemma heads_first:
  assumes "is_head t rows i" "i < length rows" "\<not> is_head t rows j"
  shows "position i (order rows) < position j (order rows)"
proof -
  have "i \<in> set (heads t rows)" "j \<notin> set (heads t rows)" using assms by (auto simp: heads_def)
  then show ?thesis using tiers[of rows] position_before by metis
qed

lemma huge_last:
  assumes "\<not> is_huge t rows i" "i < length rows" "is_huge t rows j"
  shows "position i (order rows) < position j (order rows)"
proof -
  from tiers[of rows] obtain mid where
    out: "order rows = (heads t rows @ mid) @ huge_rows t rows"
      and mid: "set mid = set (filter (plain t rows) [0..<length rows])"
    by (metis append.assoc mset_eq_setD)
  have "i \<in> set (heads t rows @ mid)" "j \<notin> set (heads t rows @ mid)"
    using assms by (auto simp: heads_def mid plain_def is_head_def)
  then show ?thesis unfolding out by (rule position_before)
qed

text \<open>Inside the first and the last tier the rows stay in rank order.\<close>

lemma heads_ascend:
  assumes "is_head t rows i" "is_head t rows j" "i < j" "j < length rows"
  shows "position i (order rows) < position j (order rows)"
proof -
  have "position i (heads t rows) < position j (heads t rows)"
    unfolding heads_def using assms by (intro position_filter_upt) simp_all
  then show ?thesis
    using tiers[of rows] assms by (auto simp: position_append heads_def)
qed

lemma huge_ascend:
  assumes "is_huge t rows i" "is_huge t rows j" "i < j" "j < length rows"
  shows "position i (order rows) < position j (order rows)"
proof -
  from tiers[of rows] obtain mid where
    out: "order rows = (heads t rows @ mid) @ huge_rows t rows"
      and mid: "set mid = set (filter (plain t rows) [0..<length rows])"
    by (metis append.assoc mset_eq_setD)
  have "position i (huge_rows t rows) < position j (huge_rows t rows)"
    unfolding huge_rows_def using assms by (intro position_filter_upt) simp_all
  moreover have "i \<notin> set (heads t rows @ mid)" "j \<notin> set (heads t rows @ mid)"
    using assms by (auto simp: heads_def mid plain_def is_head_def)
  ultimately show ?thesis unfolding out by (simp add: position_append del: append_assoc)
qed

lemma by_size_tier:
  assumes "i < length rows" "j < length rows"
    and "size_tier t (rows ! i) < size_tier t (rows ! j)
      \<or> size_tier t (rows ! i) = size_tier t (rows ! j) \<and> size_tier t (rows ! i) \<noteq> 1 \<and> i < j"
  shows "position i (order rows) < position j (order rows)"
proof -
  note heads = size_tier_rows(1)[of t rows] and huge = size_tier_rows(2)[of t rows]
  have two: "size_tier t r \<le> 2" for r :: "'a order_row_scheme"
    by (simp add: size_tier_def split: option.split)
  consider "is_head t rows i" "\<not> is_head t rows j" | "\<not> is_huge t rows i" "is_huge t rows j"
    | "is_head t rows i" "is_head t rows j" "i < j" | "is_huge t rows i" "is_huge t rows j" "i < j"
    using assms(3) two[of "rows ! i"] two[of "rows ! j"] unfolding heads huge by force
  then show ?thesis
    using assms(1,2) by cases (auto intro: heads_first huge_last heads_ascend huge_ascend)
qed

end

lemma visit_shares:
  assumes "deals f (extras t rows)" and "share_out f (extra_sources t rows) = (n, r, d)"
  shows "mset n + mset r + mset d = mset (filter (plain t rows) [0..<length rows])"
  using share_out_deals[OF assms extras_nonempty] by (simp only: mset_extras)

lemma han_order_tiers:
  assumes "deals f (extras t rows)"
  shows "\<exists>mid. han_order t rows key (share_out f (extra_sources t rows))
      = heads t rows @ mid @ huge_rows t rows
    \<and> mset mid = mset (filter (plain t rows) [0..<length rows])"
proof -
  obtain n r d where parts: "share_out f (extra_sources t rows) = (n, r, d)"
    by (metis prod_cases3)
  let ?headed = "\<lambda>i. head_count t rows (source_of rows i) > 0"
  let ?mid = "by_source rows n @ by_source rows (filter ?headed r)
    @ sort_key key (filter (\<lambda>i. \<not> ?headed i) r) @ by_source rows d"
  have "mset ?mid = mset n + mset r + mset d"
    by (simp del: mset_parts add: mset_parts(2)[of ?headed "mset r", simplified] ac_simps)
  with visit_shares[OF assms parts] show ?thesis
    by (intro exI[of _ ?mid]) (simp add: parts han_order_def)
qed

interpretation lex_head: pack_order lex_head_then_source_block
proof
  show "mset (lex_head_then_source_block rows) = mset [0..<length rows]" for rows :: "'a order_row_scheme list"
    by (simp add: lex_head_then_source_block_def Let_def del: mset_upt)
qed

interpretation defer_large: tiered_order "\<lambda>rows. lex_head_defer_large rows t" t for t
  by unfold_locales
    (auto simp: lex_head_defer_large_def intro!: exI[of _ "source_blocks _ (by_source _ _)"])

interpretation lex_neighbor: tiered_order "\<lambda>rows. headed_lex_neighbor (\<lambda>ks. ks) rows k t" t for k t
proof
  fix rows :: "'a order_row_scheme list"
  obtain n r d where parts: "share_out (neighbor_share rows k t) (extra_sources t rows) = (n, r, d)"
    by (metis prod_cases3)
  show "\<exists>mid. headed_lex_neighbor (\<lambda>ks. ks) rows k t = heads t rows @ mid @ huge_rows t rows
    \<and> mset mid = mset (filter (plain t rows) [0..<length rows])"
    using visit_shares[OF neighbor_deals parts]
    by (intro exI[of _ "by_source rows n @ source_blocks rows (by_source rows r)
          @ source_blocks rows (by_source rows d)"])
      (simp add: headed_lex_neighbor_def parts ac_simps)
qed

interpretation two_head: tiered_order "\<lambda>rows. han_two_head_dump_rr (\<lambda>ks. ks) rows k t" t for k t
  unfolding han_two_head_dump_rr_def by unfold_locales (rule han_order_tiers[OF two_head_deals])

interpretation unheaded_adj: tiered_order "\<lambda>rows. han_unheaded_adj (\<lambda>ks. ks) rows k t" t for k t
  unfolding han_unheaded_adj_def by unfold_locales (rule han_order_tiers[OF adj_deals])

interpretation deferred_span: tiered_order "\<lambda>rows. han_deferred_span (\<lambda>ks. ks) rows k t" t for k t
  unfolding han_deferred_span_def Let_def by unfold_locales (rule han_order_tiers[OF span_deals])

end
