(* ===== verification/Pack_Order_Stages.thy ===== *)
theory Pack_Order_Stages
  imports Pack_Order_Correct
begin

text \<open>
  Where the orders put a row: the stages of the neighbour rule and of the round robin for Han
  queries (locale \<open>staged_order\<close>), and the properties of all six orders, each for every iteration order of the hash map over
  sources. The sample rows are a small result with two unheaded sources, a headed one with three
  extras and a large row.
\<close>

section \<open>Sample rows\<close>

definition sample_row :: "string \<Rightarrow> int option \<Rightarrow> int option \<Rightarrow> int \<Rightarrow> nat \<Rightarrow> han_row" where
  "sample_row src lexical semantic pass octets =
     \<lparr>row_source = src, row_lex = lexical, row_octets = octets, row_sem = semantic, row_pass = pass\<rparr>"

definition sample_rows :: "han_row list" where
  "sample_rows =
     [sample_row ''dump'' None (Some 3) 0 5, sample_row ''dump'' None None 4 5,
      sample_row ''head'' (Some 3) None 0 5, sample_row ''head'' (Some 11) None 1 5,
      sample_row ''head'' None None 2 5, sample_row ''head'' None None 3 5,
      sample_row ''huge'' (Some 2) None 0 9, sample_row ''late'' (Some 20) (Some 6) 0 5,
      sample_row ''late'' None None 3 5]"

section \<open>Stages\<close>

text \<open>The stages of a visit, in their order.\<close>

datatype visit_stage =
  Head_Rows | Neighbor_Rows | Rest_Rows | Unheaded_Rows | Deferred_Rows | Large_Rows

fun stage_rank :: "visit_stage \<Rightarrow> nat" where
  "stage_rank Head_Rows = 0"
| "stage_rank Neighbor_Rows = 1"
| "stage_rank Rest_Rows = 2"
| "stage_rank Unheaded_Rows = 3"
| "stage_rank Deferred_Rows = 4"
| "stage_rank Large_Rows = 5"

definition stages :: "visit_stage list" where
  "stages = [Head_Rows, Neighbor_Rows, Rest_Rows, Unheaded_Rows, Deferred_Rows, Large_Rows]"

lemma nth_stages: "stages ! stage_rank s = s" and stage_rank_less: "stage_rank s < length stages"
  by (cases s; simp add: stages_def)+

instantiation visit_stage :: linorder
begin

definition less_eq_visit_stage :: "visit_stage \<Rightarrow> visit_stage \<Rightarrow> bool" where
  "less_eq_visit_stage a b = (stage_rank a \<le> stage_rank b)"

definition less_visit_stage :: "visit_stage \<Rightarrow> visit_stage \<Rightarrow> bool" where
  "less_visit_stage a b = (stage_rank a < stage_rank b)"

instance
proof
  show "a = b" if "a \<le> b" "b \<le> a" for a b :: visit_stage
    using that by (metis less_eq_visit_stage_def le_antisym nth_stages)
qed (auto simp: less_eq_visit_stage_def less_visit_stage_def)

end

text \<open>The stage of a row, as the rule of the neighbours and the rule for Han queries state it.\<close>

definition neighbored :: "'a order_row_scheme list \<Rightarrow> int \<Rightarrow> nat \<Rightarrow> string \<Rightarrow> bool" where
  "neighbored rows k t src =
     (head_count t rows src > 0 \<and> at_most (row_lex (rows ! hd (extras t rows src))) k)"

definition neighbor_stage :: "int \<Rightarrow> nat \<Rightarrow> 'a order_row_scheme list \<Rightarrow> nat \<Rightarrow> visit_stage" where
  "neighbor_stage k t rows i =
     (if is_huge t rows i then Large_Rows
      else if is_head t rows i then Head_Rows
      else if \<not> neighbored rows k t (source_of rows i) then Rest_Rows
      else if extra_seq t rows i = 1 then Neighbor_Rows
      else if extra_seq t rows i = 2 then Rest_Rows
      else Deferred_Rows)"

definition two_head_stage :: "int \<Rightarrow> nat \<Rightarrow> 'a order_row_scheme list \<Rightarrow> nat \<Rightarrow> visit_stage" where
  "two_head_stage k t rows i =
     (let nheads = head_count t rows (source_of rows i); seq = extra_seq t rows i in
      if is_huge t rows i then Large_Rows
      else if is_head t rows i then Head_Rows
      else if nheads = 0 then Unheaded_Rows
      else if neighbored rows k t (source_of rows i)
        then (if seq = 1 then Neighbor_Rows else if seq = 2 then Rest_Rows else Deferred_Rows)
      else if nheads = 1 \<and> seq = 1 then Rest_Rows
      else Deferred_Rows)"

text \<open>
  An order made of parts, one for each stage: a row of an earlier stage comes earlier, and rows of
  one stage come in the order of its part.
\<close>

locale staged_order = pack_order order
  for order :: "'a order_row_scheme list \<Rightarrow> nat list" +
  fixes stage :: "'a order_row_scheme list \<Rightarrow> nat \<Rightarrow> visit_stage"
    and part :: "'a order_row_scheme list \<Rightarrow> visit_stage \<Rightarrow> nat list"
  assumes parts: "order rows = concat (map (part rows) stages)"
    and placed: "i < length rows \<Longrightarrow> i \<in> set (part rows (stage rows i))"

lemma position_concat:
  assumes "distinct (concat xss)" "a < b" "b < length xss" "i \<in> set (xss ! a)" "j \<in> set (xss ! b)"
  shows "position i (concat xss) < position j (concat xss)"
proof -
  have split: "concat xss = concat (take b xss) @ concat (drop b xss)"
    by (metis append_take_drop_id concat_append)
  have "xss ! a \<in> set (take b xss)" using assms(2,3) by (auto simp: in_set_conv_nth intro!: exI[of _ a])
  moreover have "xss ! b \<in> set (drop b xss)" using assms(3) by (auto simp: in_set_conv_nth intro!: exI[of _ 0])
  ultimately have "i \<in> set (concat (take b xss))" "j \<in> set (concat (drop b xss))"
    using assms(4,5) by auto
  moreover from this(2) have "j \<notin> set (concat (take b xss))"
    using assms(1) unfolding split by auto
  ultimately show ?thesis unfolding split by (intro position_before)
qed

lemma position_middle:
  assumes "distinct (xs @ ys @ zs)" "i \<in> set ys" "j \<in> set ys" "position i ys < position j ys"
  shows "position i (xs @ ys @ zs) < position j (xs @ ys @ zs)"
  using assms by (auto simp: position_append)

lemma position_sort_key:
  assumes "i \<in> set xs" "j \<in> set xs" "key i < key j"
  shows "position i (sort_key key xs) < position j (sort_key key xs)"
proof (rule ccontr)
  assume "\<not> ?thesis"
  then have le: "map key (sort_key key xs) ! position j (sort_key key xs)
      \<le> map key (sort_key key xs) ! position i (sort_key key xs)"
    using assms(1,2) position_less[of i "sort_key key xs"] by (intro sorted_nth_mono) auto
  have "position q (sort_key key xs) < length (sort_key key xs)" if "q \<in> set xs" for q
    using that by (intro position_less) simp
  with le assms show False by (simp del: length_sort)
qed

lemma share_out_sets:
  assumes "share_out f srcs = (n, r, d)" "src \<in> set srcs" "f src = (n1, r1, d1)"
  shows "set n1 \<subseteq> set n" "set r1 \<subseteq> set r" "set d1 \<subseteq> set d"
  using assms by (auto simp: share_out_concat) (force+)

lemma plain_row:
  assumes "plain t rows i" "i < length rows"
  shows "source_of rows i \<in> set (extra_sources t rows)"
    and "i \<in> set (extras t rows (source_of rows i))"
  using assms by (auto simp: extra_sources_first_seen extras_def)

lemma seq_cases:
  assumes "i \<in> set ids"
  shows "position i ids = 0 \<Longrightarrow> hd ids = i"
    and "position i ids = 1 \<Longrightarrow> i \<in> set (take 1 (drop 1 ids))"
    and "position i ids \<ge> 2 \<Longrightarrow> i \<in> set (drop 2 ids)"
    and "position i ids > 0 \<Longrightarrow> i \<in> set (drop 1 ids)"
  using assms by (cases ids; cases "tl ids"; force split: if_splits)+

context staged_order
begin

lemma earlier_stage:
  assumes "i < length rows" "j < length rows" "stage rows i < stage rows j"
  shows "position i (order rows) < position j (order rows)"
  unfolding parts
proof (rule position_concat)
  show "distinct (concat (map (part rows) stages))" using each_once parts by metis
  show "stage_rank (stage rows i) < stage_rank (stage rows j)"
    using assms(3) by (simp add: less_visit_stage_def)
qed (simp_all add: stage_rank_less nth_stages placed assms(1,2))

lemma same_stage:
  assumes "i < length rows" "j < length rows" "stage rows i = s" "stage rows j = s"
    and "position i (part rows s) < position j (part rows s)"
  shows "position i (order rows) < position j (order rows)"
proof -
  let ?before = "concat (map (part rows) (take (stage_rank s) stages))"
    and ?after = "concat (map (part rows) (drop (Suc (stage_rank s)) stages))"
  have "stages = take (stage_rank s) stages @ s # drop (Suc (stage_rank s)) stages"
    by (metis id_take_nth_drop nth_stages stage_rank_less)
  then have split: "order rows = ?before @ part rows s @ ?after"
    unfolding parts by (metis concat.simps(2) concat_append list.simps(9) map_append)
  from each_once[of rows] placed[OF assms(1)] placed[OF assms(2)] assms(3-5) show ?thesis
    unfolding split by (intro position_middle) simp_all
qed

end

section \<open>The neighbour order by stages\<close>

definition neighbor_part ::
    "int \<Rightarrow> nat \<Rightarrow> 'a order_row_scheme list \<Rightarrow> visit_stage \<Rightarrow> nat list" where
  "neighbor_part k t rows s =
     (case share_out (neighbor_share rows k t) (extra_sources t rows) of (n, r, d) \<Rightarrow>
        case s of
          Head_Rows \<Rightarrow> heads t rows
        | Neighbor_Rows \<Rightarrow> by_source rows n
        | Rest_Rows \<Rightarrow> source_blocks rows (by_source rows r)
        | Unheaded_Rows \<Rightarrow> []
        | Deferred_Rows \<Rightarrow> source_blocks rows (by_source rows d)
        | Large_Rows \<Rightarrow> huge_rows t rows)"

lemma neighbor_placed:
  assumes "i < length rows"
  shows "i \<in> set (neighbor_part k t rows (neighbor_stage k t rows i))"
proof -
  obtain n r d where parts: "share_out (neighbor_share rows k t) (extra_sources t rows) = (n, r, d)"
    by (metis prod_cases3)
  show ?thesis
  proof (cases "plain t rows i")
    case True
    note row = plain_row[OF True assms]
    obtain n1 r1 d1 where share: "neighbor_share rows k t (source_of rows i) = (n1, r1, d1)"
      by (metis prod_cases3)
    from share_out_sets[OF parts row(1) share] share seq_cases[OF row(2)] row(2) True show ?thesis
      by (auto simp: neighbor_part_def parts neighbor_share_def Let_def neighbor_stage_def
          neighbored_def plain_def extra_seq_def numeral_2_eq_2 split: if_splits)
  next
    case False
    with assms show ?thesis
      by (auto simp: neighbor_part_def parts neighbor_stage_def plain_def heads_def huge_rows_def
          is_head_def)
  qed
qed

interpretation neighbor_stages: staged_order
  "\<lambda>rows. headed_lex_neighbor (\<lambda>ks. ks) rows k t" "neighbor_stage k t" "neighbor_part k t" for k t
proof
  show "headed_lex_neighbor (\<lambda>ks. ks) rows k t = concat (map (neighbor_part k t rows) stages)"
    for rows :: "'a order_row_scheme list"
    by (simp add: headed_lex_neighbor_def neighbor_part_def stages_def split: prod.split)
qed (rule neighbor_placed)

text \<open>C14. The neighbour order visits the rows stage by stage: heads, then the first extra of each
  headed source when its lexical rank is within the band, then the remainder, then the third and
  later extras of those sources, then the large rows.\<close>

theorem headed_lex_neighbor_stages:
  assumes "rearrangement visit" and "i < length rows" "j < length rows"
    and "neighbor_stage k t rows i < neighbor_stage k t rows j"
  shows "position i (headed_lex_neighbor visit rows k t)
    < position j (headed_lex_neighbor visit rows k t)"
  unfolding headed_lex_neighbor_visit[OF assms(1)] by (rule neighbor_stages.earlier_stage[OF assms(2-4)])

theorem headed_lex_neighbor_stages_witness:
  "headed_lex_neighbor rev sample_rows 16 8 = [2, 3, 0, 1, 4, 7, 8, 5, 6]
    \<and> position 3 (headed_lex_neighbor rev sample_rows 16 8)
      < position 5 (headed_lex_neighbor rev sample_rows 16 8)"
proof
  show "headed_lex_neighbor rev sample_rows 16 8 = [2, 3, 0, 1, 4, 7, 8, 5, 6]" by code_simp
  have "3 < length sample_rows" "5 < length sample_rows"
    "neighbor_stage 16 8 sample_rows 3 < neighbor_stage 16 8 sample_rows 5"
    by code_simp+
  then show "position 3 (headed_lex_neighbor rev sample_rows 16 8)
      < position 5 (headed_lex_neighbor rev sample_rows 16 8)"
    by (rule headed_lex_neighbor_stages[OF rearrangement_rev])
qed

section \<open>The round robin by stages\<close>

definition two_head_part ::
    "int \<Rightarrow> nat \<Rightarrow> 'a order_row_scheme list \<Rightarrow> visit_stage \<Rightarrow> nat list" where
  "two_head_part k t rows s =
     (case share_out (two_head_share rows k t) (extra_sources t rows) of (n, r, d) \<Rightarrow>
        let headed = (\<lambda>i. head_count t rows (source_of rows i) > 0) in
        case s of
          Head_Rows \<Rightarrow> heads t rows
        | Neighbor_Rows \<Rightarrow> by_source rows n
        | Rest_Rows \<Rightarrow> by_source rows (filter headed r)
        | Unheaded_Rows \<Rightarrow>
            sort_key (\<lambda>i. (extra_seq t rows i, source_first rows i, i, 0 :: nat))
              (filter (\<lambda>i. \<not> headed i) r)
        | Deferred_Rows \<Rightarrow> by_source rows d
        | Large_Rows \<Rightarrow> huge_rows t rows)"

lemma two_head_placed:
  assumes "i < length rows"
  shows "i \<in> set (two_head_part k t rows (two_head_stage k t rows i))"
proof -
  obtain n r d where parts: "share_out (two_head_share rows k t) (extra_sources t rows) = (n, r, d)"
    by (metis prod_cases3)
  show ?thesis
  proof (cases "plain t rows i")
    case True
    note row = plain_row[OF True assms]
    obtain n1 r1 d1 where share: "two_head_share rows k t (source_of rows i) = (n1, r1, d1)"
      by (metis prod_cases3)
    from share_out_sets[OF parts row(1) share] share seq_cases[OF row(2)] row(2) True show ?thesis
      by (auto simp: two_head_part_def parts two_head_share_def Let_def two_head_stage_def
          neighbored_def plain_def extra_seq_def numeral_eq_Suc split: if_splits)
  next
    case False
    with assms show ?thesis
      by (auto simp: two_head_part_def parts two_head_stage_def Let_def plain_def heads_def
          huge_rows_def is_head_def)
  qed
qed

interpretation two_head_stages: staged_order
  "\<lambda>rows. han_two_head_dump_rr (\<lambda>ks. ks) rows k t" "two_head_stage k t" "two_head_part k t" for k t
proof
  show "han_two_head_dump_rr (\<lambda>ks. ks) rows k t = concat (map (two_head_part k t rows) stages)"
    for rows :: "'a order_row_scheme list"
    by (simp add: han_two_head_dump_rr_def han_order_def two_head_part_def stages_def Let_def
        split: prod.split)
qed (rule two_head_placed)

lemma unheaded_round_robin:
  assumes "i \<in> set (two_head_part k t rows Unheaded_Rows)" "j \<in> set (two_head_part k t rows Unheaded_Rows)"
    and "extra_seq t rows i < extra_seq t rows j"
  shows "position i (two_head_part k t rows Unheaded_Rows)
    < position j (two_head_part k t rows Unheaded_Rows)"
  using assms by (auto simp: two_head_part_def Let_def intro!: position_sort_key split: prod.splits)

text \<open>C38. The Han order visits heads, neighbours, the remainder of headed sources, the unheaded rows,
  the deferred rows and the large rows, in this order; among the unheaded rows the first of every
  source comes before the second of any, and so on.\<close>

theorem han_two_head_dump_rr_stages:
  assumes "rearrangement visit" and "i < length rows" "j < length rows"
    and "two_head_stage k t rows i < two_head_stage k t rows j
      \<or> two_head_stage k t rows i = Unheaded_Rows \<and> two_head_stage k t rows j = Unheaded_Rows
        \<and> extra_seq t rows i < extra_seq t rows j"
  shows "position i (han_two_head_dump_rr visit rows k t)
    < position j (han_two_head_dump_rr visit rows k t)"
  unfolding han_two_head_visit[OF assms(1)]
proof (cases "two_head_stage k t rows i < two_head_stage k t rows j")
  case True
  then show "position i (han_two_head_dump_rr (\<lambda>ks. ks) rows k t)
      < position j (han_two_head_dump_rr (\<lambda>ks. ks) rows k t)"
    by (rule two_head_stages.earlier_stage[OF assms(2,3)])
next
  case False
  with assms(4) have same: "two_head_stage k t rows i = Unheaded_Rows"
    "two_head_stage k t rows j = Unheaded_Rows" "extra_seq t rows i < extra_seq t rows j"
    by simp_all
  show "position i (han_two_head_dump_rr (\<lambda>ks. ks) rows k t)
      < position j (han_two_head_dump_rr (\<lambda>ks. ks) rows k t)"
  proof (rule two_head_stages.same_stage[OF assms(2,3) same(1,2)])
    show "position i (two_head_part k t rows Unheaded_Rows) < position j (two_head_part k t rows Unheaded_Rows)"
      using two_head_placed[OF assms(2), of k t] two_head_placed[OF assms(3), of k t] same
      by (intro unheaded_round_robin) simp_all
  qed
qed

theorem han_two_head_dump_rr_stages_witness:
  "han_two_head_dump_rr rev sample_rows 16 8 = [2, 3, 4, 0, 7, 1, 8, 5, 6]
    \<and> position 7 (han_two_head_dump_rr rev sample_rows 16 8)
      < position 1 (han_two_head_dump_rr rev sample_rows 16 8)"
proof
  show "han_two_head_dump_rr rev sample_rows 16 8 = [2, 3, 4, 0, 7, 1, 8, 5, 6]" by code_simp
  have "7 < length sample_rows" "1 < length sample_rows"
    "two_head_stage 16 8 sample_rows 7 = Unheaded_Rows" "two_head_stage 16 8 sample_rows 1 = Unheaded_Rows"
    "extra_seq 8 sample_rows 7 < extra_seq 8 sample_rows 1"
    by code_simp+
  then show "position 7 (han_two_head_dump_rr rev sample_rows 16 8)
      < position 1 (han_two_head_dump_rr rev sample_rows 16 8)"
    by (intro han_two_head_dump_rr_stages[OF rearrangement_rev]) simp_all
qed

section \<open>The properties of the orders\<close>

definition emits_once :: "'a order_row_scheme list \<Rightarrow> nat list \<Rightarrow> bool" where
  "emits_once rows out = (distinct out \<and> set out = {..<length rows})"

definition tiered :: "nat \<Rightarrow> 'a order_row_scheme list \<Rightarrow> nat list \<Rightarrow> bool" where
  "tiered t rows out =
     (\<forall>i < length rows. \<forall>j < length rows.
        size_tier t (rows ! i) < size_tier t (rows ! j)
        \<or> size_tier t (rows ! i) = size_tier t (rows ! j) \<and> size_tier t (rows ! i) \<noteq> 1 \<and> i < j
        \<longrightarrow> position i out < position j out)"

lemmas emits_once_rules = lex_head.each_once lex_head.only_rows defer_large.each_once defer_large.only_rows
  lex_neighbor.each_once lex_neighbor.only_rows two_head.each_once two_head.only_rows
  unheaded_adj.each_once unheaded_adj.only_rows deferred_span.each_once deferred_span.only_rows

lemmas tiered_rules = defer_large.by_size_tier lex_neighbor.by_size_tier two_head.by_size_tier
  unheaded_adj.by_size_tier deferred_span.by_size_tier

text \<open>C15. Every order emits every row exactly once, whatever order the hash map over sources is iterated
  in.\<close>

theorem orders_emit_each_row_once:
  assumes "rearrangement visit"
  shows "emits_once rows (lex_head_then_source_block rows)
    \<and> emits_once rows (lex_head_defer_large rows t)
    \<and> emits_once rows (headed_lex_neighbor visit rows k t)
    \<and> emits_once rows (han_two_head_dump_rr visit rows k t)
    \<and> emits_once rows (han_unheaded_adj visit rows k t)
    \<and> emits_once rows (han_deferred_span visit rows k t)"
  unfolding headed_lex_neighbor_visit[OF assms] han_two_head_visit[OF assms]
    han_unheaded_visit[OF assms] han_deferred_visit[OF assms]
  by (simp add: emits_once_def emits_once_rules)

theorem orders_emit_each_row_once_witness:
  "han_deferred_span rev sample_rows 16 8 = [2, 0, 1, 8, 3, 4, 5, 7, 6]
    \<and> emits_once sample_rows (han_deferred_span rev sample_rows 16 8)"
  using orders_emit_each_row_once[OF rearrangement_rev, of sample_rows 8 16]
  by (intro conjI) (code_simp, blast)

text \<open>C37. The orders that look at sizes visit the rows in three tiers, each row's tier read off the row
  alone: a row of at most \<open>t\<close> octets with a lexical rank of at most 4 comes before every other, a row of
  more than \<open>t\<close> octets comes after every other, and within these two tiers the rows keep the order
  in which they were given.\<close>

theorem orders_tiered:
  assumes "rearrangement visit"
  shows "tiered t rows (lex_head_defer_large rows t)
    \<and> tiered t rows (headed_lex_neighbor visit rows k t)
    \<and> tiered t rows (han_two_head_dump_rr visit rows k t)
    \<and> tiered t rows (han_unheaded_adj visit rows k t)
    \<and> tiered t rows (han_deferred_span visit rows k t)"
  unfolding headed_lex_neighbor_visit[OF assms] han_two_head_visit[OF assms]
    han_unheaded_visit[OF assms] han_deferred_visit[OF assms]
  unfolding tiered_def by (intro conjI allI impI tiered_rules)

theorem orders_tiered_witness:
  "size_tier 8 (sample_rows ! 2) = 0 \<and> size_tier 8 (sample_rows ! 6) = 2
    \<and> position 2 (han_unheaded_adj rev sample_rows 16 8)
      < position 6 (han_unheaded_adj rev sample_rows 16 8)"
proof (intro conjI)
  show t: "size_tier 8 (sample_rows ! 2) = 0" "size_tier 8 (sample_rows ! 6) = 2" by code_simp+
  have "2 < length sample_rows" "6 < length sample_rows" by code_simp+
  moreover have "tiered 8 sample_rows (han_unheaded_adj rev sample_rows 16 8)"
    using orders_tiered[OF rearrangement_rev] by blast
  ultimately show "position 2 (han_unheaded_adj rev sample_rows 16 8)
      < position 6 (han_unheaded_adj rev sample_rows 16 8)"
    unfolding tiered_def using t by (metis zero_less_numeral)
qed

text \<open>C36. No order depends on the iteration order of the hash map over sources.\<close>

theorem orders_ignore_map_iteration:
  assumes "rearrangement visit" and "rearrangement visit'"
  shows "headed_lex_neighbor visit rows k t = headed_lex_neighbor visit' rows k t
    \<and> han_two_head_dump_rr visit rows k t = han_two_head_dump_rr visit' rows k t
    \<and> han_unheaded_adj visit rows k t = han_unheaded_adj visit' rows k t
    \<and> han_deferred_span visit rows k t = han_deferred_span visit' rows k t"
  by (simp only: headed_lex_neighbor_visit[OF assms(1)] headed_lex_neighbor_visit[OF assms(2)]
      han_two_head_visit[OF assms(1)] han_two_head_visit[OF assms(2)]
      han_unheaded_visit[OF assms(1)] han_unheaded_visit[OF assms(2)]
      han_deferred_visit[OF assms(1)] han_deferred_visit[OF assms(2)] simp_thms)

theorem orders_ignore_map_iteration_witness:
  "rev (extra_sources 8 sample_rows) \<noteq> extra_sources 8 sample_rows
    \<and> han_deferred_span rev sample_rows 16 8 = han_deferred_span (\<lambda>ks. ks) sample_rows 16 8"
  using orders_ignore_map_iteration[OF rearrangement_rev rearrangement_id, of sample_rows 16 8]
  by (intro conjI) (code_simp, blast)

text \<open>The block order is the grouping of the indices by key: the keys in order of first appearance,
  the indices of each in ascending order.\<close>

theorem source_block_indices_by_source:
  "source_block_indices keys = concat (map (places keys) (first_seen keys))"
  by (rule block_indices_groups)

text \<open>Without a headed source whose first extra is in the band the neighbour order is the order that
  only defers large rows.\<close>

theorem neighbor_order_without_neighbors:
  assumes "rearrangement visit"
    and "\<forall>src \<in> set (extra_sources t rows). \<not> neighbored rows k t src"
  shows "headed_lex_neighbor visit rows k t = lex_head_defer_large rows t"
proof -
  obtain n r d where parts: "share_out (neighbor_share rows k t) (extra_sources t rows) = (n, r, d)"
    by (metis prod_cases3)
  have "neighbor_share rows k t src = ([], extras t rows src, [])" if "src \<in> set (extra_sources t rows)" for src
    using assms(2) that by (auto simp: neighbor_share_def Let_def neighbored_def)
  with parts have "n = []" "d = []" by (auto simp: share_out_concat)
  moreover from this have "by_source rows r = by_source rows (filter (plain t rows) [0..<length rows])"
    using visit_shares[OF neighbor_deals parts] by (intro by_source_cong) (simp del: mset_upt mset_filter)
  moreover have "by_source rows [] = []" "source_blocks rows [] = []"
    by (simp_all flip: set_empty)
  ultimately show ?thesis unfolding headed_lex_neighbor_visit[OF assms(1)]
    by (simp add: headed_lex_neighbor_def lex_head_defer_large_def parts)
qed

theorem neighbor_order_without_neighbors_witness:
  "headed_lex_neighbor rev sample_rows 10 8 = lex_head_defer_large sample_rows 8
    \<and> lex_head_defer_large sample_rows 8 = [2, 0, 1, 3, 4, 5, 7, 8, 6]"
proof
  have "\<forall>src \<in> set (extra_sources 8 sample_rows). \<not> neighbored sample_rows 10 8 src" by code_simp
  then show "headed_lex_neighbor rev sample_rows 10 8 = lex_head_defer_large sample_rows 8"
    by (rule neighbor_order_without_neighbors[OF rearrangement_rev])
  show "lex_head_defer_large sample_rows 8 = [2, 0, 1, 3, 4, 5, 7, 8, 6]" by code_simp
qed

end
