(* ===== verification/Spec2Isabelle.thy ===== *)
theory Spec2Isabelle
  imports Reply_Types Process Search_Trace Pack_Order_Stages
begin

text \<open>
  Verification of governed-memory, a Rust library that serves a tenant's memory over HTTP from a
  PostgreSQL database (\<open>src/src/lib.rs\<close>, \<open>src/src/context_tokens.rs\<close>,
  \<open>src/src/benchmark_trace.rs\<close>).

  \<^bold>\<open>The program.\<close> A request reaches one of seven routes (\<open>router_with_search_limits\<close>): list
  collections, list items, read, search, create, correct, forget. Every route authenticates the
  bearer token in a database transaction, bounds and parses its query string or body, and, when the
  request is well formed, opens one transaction under the caller's credential and tenant, calls one
  database function and turns its rows into a response. A rejected request is recorded in the audit
  and answered with a response that depends on the kind of the failure only. Search has the most
  logic of its own: it plans a semantic query, rechecks it inside the transaction, packs the ranked
  rows into at most twelve items under byte, token and per-source limits, and retries lexically when
  the semantic path fails.

  \<^bold>\<open>The theories\<close>, in the order they build on each other.

  \<^item> \<open>Prelude\<close>, \<open>Rust_Text\<close>: results (\<open>Inl\<close> is \<open>Err\<close>, \<open>Inr\<close> is \<open>Ok\<close>) with their simplification
    collections, and \<open>str\<close> as a list of UTF-8 bytes with character boundaries.
  \<^item> \<open>Search_Limits\<close>, \<open>Failures\<close>, \<open>Excerpts\<close>, \<open>Digests\<close>, \<open>Json_Guard\<close>, \<open>Query_Params\<close>,
    \<open>Float_Norm\<close>, \<open>Request_Inputs\<close>, \<open>Rows\<close>: the pure parts of \<open>lib.rs\<close>, each definition named
    after its Rust function: \<open>SearchLimits\<close>; failures, their classification and responses;
    \<open>ExcerptBudget\<close> and \<open>bounded_excerpt\<close>; identifiers and request digests; the byte scanner
    \<open>bounded_json_structure_with_limit\<close>; the query string parsers; IEEE norms of vectors; request
    bodies and their validation; database rows and response values.
  \<^item> \<open>Token_Budget\<close>, \<open>Packing\<close>, \<open>Packing_Correct\<close>: \<open>Work\<close> of \<open>context_tokens.rs\<close>, the loop of
    \<open>pack_search_rows\<close> and the worker of \<open>pack\<close>. The loop is also an inductive relation \<open>packed\<close>,
    over whose states the invariants are proved by rule induction.
  \<^item> \<open>Semantic\<close>: the semantic plan of a search and its sanitized diagnostics.
  \<^item> \<open>Effects\<close>, \<open>Monitors\<close>, \<open>Requests\<close>, \<open>Handlers\<close>: handlers as functions of an environment that
    answers each call to the driver, the body and the clock depending on the whole history; safety
    of call sequences as monitors over the recorded calls and their answers; what the routes share;
    and the shape of a route that prepares its request first.
  \<^item> \<open>Read_Path\<close>, \<open>Search_Plan\<close>, \<open>Search_Path\<close>, \<open>Write_Path\<close>, \<open>Service\<close>: the whole handlers, statement
    by statement, and the routing table. \<open>Search_Plan\<close> holds the planning transaction and the recheck
    of the plan, with the plan that the answered rows allow. \<open>Reply_Types\<close>: the types of all replies.
  \<^item> \<open>Process\<close>: requests in flight together, as an inductive step relation over the request counter
    and the two packing workers that they share.
  \<^item> \<open>Bench_Trace\<close>, \<open>Search_Trace\<close>: the opt-in \<open>benchmark-trace\<close> build: the event log, the observations
    around the same packing, and the search route with its extra settings and statement.
  \<^item> \<open>Pack_Order\<close>, \<open>Pack_Order_Correct\<close>, \<open>Pack_Order_Stages\<close>: the executable reference of the visiting
    orders that the database functions give to packing (module \<open>source_block_order\<close>).

  \<^bold>\<open>State and operations.\<close> A struct is a record and an enum a datatype with the source's
  constructors; \<open>u16\<close> values are \<open>16 word\<close>; a Rust \<open>&mut\<close> argument is passed and returned. A handler is
  a program in the sense of \<open>Effects\<close>: it takes the environment and the context (the calls made so
  far, whether a deadline runs) and returns an outcome and the context. Nothing is assumed of the
  environment: any call may fail, and inside a timeout the deadline may pass at any call. A dropped
  transaction leaves no commit in the recorded calls. The library \<open>library\<close> holds what the code calls
  and does not define: SHA-256, the serde decoders of the bodies, the tokenizer, the deterministic
  embedding. Those that matter for a statement are named in it, for example a collision of SHA-256.

  \<^bold>\<open>Interfaces.\<close> The locales and what they are interpreted on: \<open>byte_admission\<close> (a budgeted taking of
  content: excerpt, whole passage, the choice between them), \<open>candidate_gate\<close> (the token allowance
  in front of the loop), \<open>error_classifier\<close> (the three classifications of database errors),
  \<open>parameter_fold\<close> (the two query string parsers), \<open>body_parser\<close> (the three write bodies), \<open>monitor\<close>
  (the discipline of sessions), \<open>prepared_route\<close> (the six routes that prepare, and read seen as one),
  \<open>worker_pool\<close> (the semaphore of the packing workers), \<open>pack_order\<close>, \<open>tiered_order\<close> and
  \<open>staged_order\<close> (the visiting orders; the stages are a linear order).

  \<^bold>\<open>What is shown.\<close>

  \<^item> End to end: the limits of a search hold for the whole route; a successful read, list, create,
    correct or forget is exactly one committed transaction with the stated statement for the caller
    of the token; a successful search is its planning, at most one abandoned attempt and one
    committed transaction, with the plan that the readiness rows of the database allow; every
    request is answered, with at most one audit record, the one for the rejection it answers; every
    route makes its statements only in a transaction with the request's own credential, and a data
    function only for the tenant and credential of the row that a resolver answered in an earlier,
    committed transaction; a request without a token touches nothing but the audit; and every
    response is well typed, with valid UTF-8 in all its texts, when the rows of the driver are.
  \<^item> Concurrency: in every interleaving at most two token packings run and none disturbs another,
    a search is turned away only while two pack, and the identifiers of a process are pairwise
    different.
  \<^item> Packing: bounds, faithfulness of every item to one row, the limits per passage and source,
    continuations only after an accepted parent, and the exact meaning of the truncated flag; in
    token mode the envelope is exactly that of the items and its count is exact and allowed.
  \<^item> Parsers and validators: equivalence with the documented set of inputs, and a round trip; an
    excerpt ends on a character boundary, found in at most three steps.
  \<^item> Benchmark trace: it never changes the packing and reports on every row; outside a capture scope
    the traced search is the plain one, inside one it keeps the session discipline.
  \<^item> Visiting orders: each is a rearrangement of the rows, does not depend on the iteration order of
    a hash map, and implements its staging rule; those that look at sizes visit the lexical heads
    first and the large rows last.

  \<^bold>\<open>Bounds.\<close> A response has at most 12 items and 4 per source; token packing takes at most 82 rows,
  so at most 83 counts (one for the empty envelope, one per row) of 512 KiB each, which is why it
  never fails for the count limit. Bodies are at most 64 KiB for writes and 128 KiB for search, with
  16 levels and 256, for search 4,128, members. Every loop of the code is recursion over its rows, bytes
  or parameters, structural or, for the writer's loop, with the bytes left as its measure, so no
  fuel is needed; the loop of \<open>bounded_excerpt\<close> is also given on 64-bit integers, as a partial
  function, with the theorem that it ends. The search retries at most once.

  A process serves at most 2^64 requests before its sequence numbers repeat, and a request packs at
  most once, as a token-mode search is never retried.

  \<^bold>\<open>Not modelled.\<close> The SQL functions and migrations, which the environment answers for. The pool of
  database connections and the locks that requests of one tenant take in the database: a request
  may wait at every call, for a time the model does not bound, and the interleavings of \<open>Process\<close>
  leave open when it goes on. The web
  framework's path matching, extraction and answers to unknown paths. The serde decoders, the
  tokenizer and SHA-256, which are parameters. The text written by \<open>tracing\<close> when an audit record
  fails. The \<open>expect\<close> on the byte allowance of
  a prepared search is \<open>the\<close>, and preparation is shown to set it. In the visiting orders a passage
  index is an integer, so the reference's sums do not overflow; its ranks are integers as well. Test
  code other than the visiting orders is left out.
\<close>

end
